(* ===== verification/AQ_Prelude.thy ===== *)
theory AQ_Prelude
  imports Main "HOL-Library.Word" "HOL-Library.AList" "HOL-Library.Multiset" "HOL-Library.Sublist"
begin

text \<open>
  Shared vocabulary of the development: the Go types every component uses, the
  loops that every component repeats (keep the first element of each key, append to a
  map of slices) and the generic facts about them. Nothing here is specific to
  addresses.
\<close>

section \<open>Go types\<close>

text \<open>
  A Go \<open>string\<close> is a list of bytes. The text the service handles is treated as
  ASCII: the functions of package \<open>strings\<close> and the regular expressions are written
  out on ASCII bytes, where Go's Unicode tables and its byte tables agree.
  An \<open>int64\<close> is a 64-bit word read through \<^term>\<open>sint\<close>.
\<close>

type_synonym gostring = string

type_synonym int64 = "64 word"

text \<open>
  A Go map that the code ranges over is an association list with distinct keys. The
  runtime chooses the order of a range, so every definition that ranges over a map takes
  the order as an argument: a function that permutes the entries. \<open>is_order\<close> is what
  the language promises of it.
\<close>

type_synonym 'a order = "'a list \<Rightarrow> 'a list"

definition is_order :: "'a order \<Rightarrow> bool" where
  "is_order ord \<longleftrightarrow> (\<forall>xs. mset (ord xs) = mset xs)"

named_theorems order_simps

lemma is_order_id [simp, intro]: "is_order (\<lambda>xs. xs)"
  by (simp add: is_order_def)

lemma is_order_rev [simp, intro]: "is_order rev"
  by (simp add: is_order_def)

lemma is_order_mset [order_simps]: "is_order ord \<Longrightarrow> mset (ord xs) = mset xs"
  by (simp add: is_order_def)

lemma is_order_set [order_simps]: "is_order ord \<Longrightarrow> set (ord xs) = set xs"
  by (metis is_order_mset set_mset_mset)

lemma is_order_length [order_simps]: "is_order ord \<Longrightarrow> length (ord xs) = length xs"
  by (metis is_order_mset size_mset)

lemma is_order_Nil [order_simps]: "is_order ord \<Longrightarrow> ord [] = []"
  using is_order_length [of ord "[]"] by simp

lemma is_order_distinct [order_simps]:
  "is_order ord \<Longrightarrow> distinct (map f (ord xs)) \<longleftrightarrow> distinct (map f xs)"
  using mset_eq_imp_distinct_iff [of "map f (ord xs)" "map f xs"] by (simp add: is_order_mset)

lemma is_order_map_of:
  assumes "is_order ord" and "distinct (map fst m)"
  shows "map_of (ord m) = map_of m"
proof -
  have "distinct (map fst (ord m))" and "set (ord m) = set m"
    using assms by (simp_all add: order_simps)
  then show ?thesis using assms(2) by (metis map_of_inject_set)
qed

section \<open>Keeping the first element of every key\<close>

text \<open>
  The loop \<open>if seen[k] { continue }; seen[k] = true; out = append(out, x)\<close>, which the
  service uses for words, entities and candidates alike.
\<close>

fun dedup_by :: "('a \<Rightarrow> 'k) \<Rightarrow> 'k set \<Rightarrow> 'a list \<Rightarrow> 'a list" where
  "dedup_by key seen [] = []"
| "dedup_by key seen (x # xs) =
     (if key x \<in> seen then dedup_by key seen xs
      else x # dedup_by key (insert (key x) seen) xs)"

lemma dedup_by_keys: "key ` set (dedup_by key seen xs) = key ` set xs - seen"
  by (induction key seen xs rule: dedup_by.induct) auto

lemma dedup_by_subset: "set (dedup_by key seen xs) \<subseteq> set xs"
  by (induction key seen xs rule: dedup_by.induct) auto

lemma dedup_by_subseq: "subseq (dedup_by key seen xs) xs"
  by (induction key seen xs rule: dedup_by.induct) auto

lemma dedup_by_distinct: "distinct (map key (dedup_by key seen xs))"
proof (induction key seen xs rule: dedup_by.induct)
  case (2 key seen x xs)
  have "key x \<notin> key ` set (dedup_by key (insert (key x) seen) xs)"
    by (simp add: dedup_by_keys)
  with 2 show ?case by auto
qed simp

lemma dedup_by_fresh: "y \<in> set (dedup_by key seen xs) \<Longrightarrow> key y \<notin> seen"
  using dedup_by_keys [of key seen xs] by blast

lemma dedup_by_id: "distinct (map key xs) \<Longrightarrow> key ` set xs \<inter> seen = {} \<Longrightarrow> dedup_by key seen xs = xs"
  by (induction key seen xs rule: dedup_by.induct) auto

lemma dedup_by_idem: "dedup_by key {} (dedup_by key {} xs) = dedup_by key {} xs"
  by (rule dedup_by_id) (simp_all add: dedup_by_distinct)

lemma dedup_by_length: "length (dedup_by key seen xs) \<le> length xs"
  by (induction key seen xs rule: dedup_by.induct) auto

lemma dedup_by_append:
  "dedup_by key seen (xs @ ys) = dedup_by key seen xs @ dedup_by key (seen \<union> key ` set xs) ys"
  by (induction key seen xs rule: dedup_by.induct) (auto simp: insert_absorb)

lemma dedup_by_snoc:
  "dedup_by key seen (xs @ [x]) =
     dedup_by key seen xs @ (if key x \<in> seen \<union> key ` set xs then [] else [x])"
  by (simp add: dedup_by_append)

text \<open>The element that survives is the first one of its key.\<close>

lemma dedup_by_first:
  "k \<notin> seen \<Longrightarrow> find (\<lambda>x. key x = k) (dedup_by key seen xs) = find (\<lambda>x. key x = k) xs"
  by (induction key seen xs rule: dedup_by.induct) auto

section \<open>Small facts on lists and maps\<close>

lemma length_dropWhile_less [termination_simp]: "length (dropWhile P xs) < Suc (length xs)"
  by (simp add: length_dropWhile_le le_imp_less_Suc)

lemma map_of_AList_update [simp]: "map_of (AList.update k v m) = (map_of m)(k \<mapsto> v)"
  by (rule AList.update_conv')

lemma distinct_AList_update [simp]:
  "distinct (map fst m) \<Longrightarrow> distinct (map fst (AList.update k v m))"
  by (rule AList.distinct_update)

lemma find_append:
  "find P (xs @ ys) = (case find P xs of None \<Rightarrow> find P ys | Some x \<Rightarrow> Some x)"
  by (induction xs) auto

lemma filter_concat_mset: "mset xs = mset ys \<Longrightarrow> mset (concat (map f xs)) = mset (concat (map f ys))"
proof -
  assume "mset xs = mset ys"
  then have "(\<Sum>x\<in>#mset xs. mset (f x)) = (\<Sum>x\<in>#mset ys. mset (f x))" by simp
  moreover have "mset (concat (map f zs)) = (\<Sum>x\<in>#mset zs. mset (f x))" for zs
    by (induction zs) auto
  ultimately show ?thesis by metis
qed

section \<open>Maps of slices\<close>

text \<open>\<open>m[k] = append(m[k], v)\<close> on a map that is ranged over.\<close>

definition get_list :: "('k \<times> 'v list) list \<Rightarrow> 'k \<Rightarrow> 'v list" where
  "get_list m k = (case map_of m k of None \<Rightarrow> [] | Some vs \<Rightarrow> vs)"

definition map_append :: "'k \<Rightarrow> 'v \<Rightarrow> ('k \<times> 'v list) list \<Rightarrow> ('k \<times> 'v list) list" where
  "map_append k v m = AList.update k (get_list m k @ [v]) m"

lemma get_list_Nil [simp]: "get_list [] k = []"
  by (simp add: get_list_def)

lemma get_list_Cons [simp]: "get_list (p # m) k = (if k = fst p then snd p else get_list m k)"
  by (cases p) (simp add: get_list_def)

lemma get_list_append [simp]:
  "get_list (map_append k v m) l = (if l = k then get_list m k @ [v] else get_list m l)"
  by (simp add: get_list_def map_append_def)

lemma distinct_map_append [simp]: "distinct (map fst m) \<Longrightarrow> distinct (map fst (map_append k v m))"
  by (simp add: map_append_def)

lemma dom_map_append: "fst ` set (map_append k v m) = insert k (fst ` set m)"
  by (simp add: map_append_def dom_update)

lemma get_list_foldl:
  "get_list (foldl (\<lambda>m x. map_append (key x) (val x) m) m xs) k
     = get_list m k @ map val (filter (\<lambda>x. key x = k) xs)"
  by (induction xs arbitrary: m) auto

lemma distinct_foldl_map_append:
  "distinct (map fst m) \<Longrightarrow> distinct (map fst (foldl (\<lambda>m x. map_append (key x) (val x) m) m xs))"
  by (induction xs arbitrary: m) auto

lemma dom_foldl_map_append:
  "fst ` set (foldl (\<lambda>m x. map_append (key x) (val x) m) m xs) = fst ` set m \<union> key ` set xs"
  by (induction xs arbitrary: m) (auto simp: dom_map_append)

end
