(* ===== verification/Go_Strings.thy ===== *)
theory Go_Strings
  imports AQ_Prelude
begin

text \<open>
  The part of Go's packages \<open>strings\<close> and \<open>regexp\<close> that the service uses, on ASCII
  bytes: character classes, \<open>ToLower\<close>, \<open>TrimSpace\<close>, \<open>Fields\<close>, \<open>Join\<close>,
  \<open>Split\<close>, \<open>ReplaceAll\<close>, \<open>TrimSuffix\<close> and the word boundary of a regular
  expression. These are the language's standard library, so they carry no entry in the
  map; the lemmas are the laws that the components rely on.
\<close>

section \<open>Character classes\<close>

definition is_upper :: "char \<Rightarrow> bool" where
  "is_upper c \<longleftrightarrow> 65 \<le> (of_char c :: nat) \<and> (of_char c :: nat) \<le> 90"

definition is_lower :: "char \<Rightarrow> bool" where
  "is_lower c \<longleftrightarrow> 97 \<le> (of_char c :: nat) \<and> (of_char c :: nat) \<le> 122"

definition is_letter :: "char \<Rightarrow> bool" where
  "is_letter c \<longleftrightarrow> is_upper c \<or> is_lower c"

definition is_digit :: "char \<Rightarrow> bool" where
  "is_digit c \<longleftrightarrow> 48 \<le> (of_char c :: nat) \<and> (of_char c :: nat) \<le> 57"

text \<open>\<open>unicode.IsSpace\<close> on ASCII, and the narrower class \<open>\s\<close> of a regular expression.\<close>

definition is_space :: "char \<Rightarrow> bool" where
  "is_space c \<longleftrightarrow> (of_char c :: nat) \<in> {9, 10, 11, 12, 13, 32}"

definition re_space :: "char \<Rightarrow> bool" where
  "re_space c \<longleftrightarrow> (of_char c :: nat) \<in> {9, 10, 12, 13, 32}"

text \<open>\<open>\w\<close>: the characters between which \<open>\b\<close> sees no boundary.\<close>

definition is_word_char :: "char \<Rightarrow> bool" where
  "is_word_char c \<longleftrightarrow> is_letter c \<or> is_digit c \<or> c = CHR ''_''"

lemmas char_class_defs =
  is_upper_def is_lower_def is_letter_def is_digit_def is_space_def re_space_def is_word_char_def

abbreviation space :: char where "space \<equiv> CHR '' ''"
abbreviation newline :: char where "newline \<equiv> CHR 0x0A"

lemma is_space_space [simp]: "is_space space" and re_space_space [simp]: "re_space space"
  by (simp_all add: char_class_defs)

lemma re_space_is_space: "re_space c \<Longrightarrow> is_space c"
  by (auto simp: char_class_defs)

lemma is_letter_not_space: "is_letter c \<Longrightarrow> \<not> is_space c"
  by (auto simp: char_class_defs)

lemma is_lower_not_space: "is_lower c \<Longrightarrow> \<not> is_space c"
  by (auto simp: char_class_defs)

lemma is_digit_not_space: "is_digit c \<Longrightarrow> \<not> is_space c"
  by (auto simp: char_class_defs)

lemma is_digit_not_letter: "is_digit c \<Longrightarrow> \<not> is_letter c"
  by (auto simp: char_class_defs)

lemma is_lower_letter: "is_lower c \<Longrightarrow> is_letter c"
  by (simp add: is_letter_def)

lemma is_digit_word: "is_digit c \<Longrightarrow> is_word_char c"
  by (simp add: is_word_char_def)

lemma is_letter_word: "is_letter c \<Longrightarrow> is_word_char c"
  by (simp add: is_word_char_def)

lemma is_space_not_word: "is_space c \<Longrightarrow> \<not> is_word_char c"
  by (auto simp: char_class_defs)

section \<open>ToLower\<close>

definition to_lower_char :: "char \<Rightarrow> char" where
  "to_lower_char c = (if is_upper c then char_of (of_char c + 32 :: nat) else c)"

definition to_lower :: "gostring \<Rightarrow> gostring" where
  "to_lower s = List.map to_lower_char s"

lemma is_lower_to_lower_char: "is_upper c \<Longrightarrow> is_lower (to_lower_char c)"
  by (simp add: to_lower_char_def char_class_defs)

lemma to_lower_char_not_upper: "\<not> is_upper (to_lower_char c)"
  by (auto simp: to_lower_char_def char_class_defs)

lemma to_lower_char_id: "\<not> is_upper c \<Longrightarrow> to_lower_char c = c"
  by (simp add: to_lower_char_def)

lemma is_space_to_lower_char [simp]: "is_space (to_lower_char c) = is_space c"
  by (auto simp: to_lower_char_def char_class_defs)

lemma is_digit_to_lower_char [simp]: "is_digit (to_lower_char c) = is_digit c"
  by (auto simp: to_lower_char_def char_class_defs)

lemma is_letter_to_lower_char [simp]: "is_letter (to_lower_char c) = is_letter c"
  by (auto simp: to_lower_char_def char_class_defs)

lemma to_lower_Nil [simp]: "to_lower [] = []"
  and to_lower_Cons [simp]: "to_lower (c # cs) = to_lower_char c # to_lower cs"
  by (simp_all add: to_lower_def)

lemma to_lower_append [simp]: "to_lower (s @ t) = to_lower s @ to_lower t"
  by (simp add: to_lower_def)

lemma length_to_lower [simp]: "length (to_lower s) = length s"
  by (simp add: to_lower_def)

lemma to_lower_idem [simp]: "to_lower (to_lower s) = to_lower s"
  by (simp add: to_lower_def to_lower_char_id to_lower_char_not_upper)

lemma to_lower_no_upper: "c \<in> set (to_lower s) \<Longrightarrow> \<not> is_upper c"
  by (auto simp: to_lower_def to_lower_char_not_upper)

lemma to_lower_id: "(\<And>c. c \<in> set s \<Longrightarrow> \<not> is_upper c) \<Longrightarrow> to_lower s = s"
  by (induction s) (auto simp: to_lower_char_id)

section \<open>TrimSpace, Fields, Join\<close>

fun trim_right :: "gostring \<Rightarrow> gostring" where
  "trim_right [] = []"
| "trim_right (c # cs) =
     (let r = trim_right cs in if r = [] \<and> is_space c then [] else c # r)"

definition trim_space :: "gostring \<Rightarrow> gostring" where
  "trim_space s = trim_right (dropWhile is_space s)"

text \<open>
  \<open>strings.Fields\<close>: the maximal runs of bytes that are no white space; \<open>cur\<close> is the
  run being read.
\<close>

fun fields_from :: "gostring \<Rightarrow> gostring \<Rightarrow> gostring list" where
  "fields_from cur [] = (if cur = [] then [] else [cur])"
| "fields_from cur (c # cs) =
     (if is_space c then (if cur = [] then fields_from [] cs else cur # fields_from [] cs)
      else fields_from (cur @ [c]) cs)"

definition fields :: "gostring \<Rightarrow> gostring list" where
  "fields s = fields_from [] s"

text \<open>A second name, for theories in which a record hides the first.\<close>

abbreviation strings_Fields :: "gostring \<Rightarrow> gostring list" where
  "strings_Fields s \<equiv> fields s"

fun join :: "gostring \<Rightarrow> gostring list \<Rightarrow> gostring" where
  "join sep [] = []"
| "join sep [w] = w"
| "join sep (w # v # ws) = w @ sep @ join sep (v # ws)"

text \<open>A word is a non-empty string without white space.\<close>

definition is_word :: "gostring \<Rightarrow> bool" where
  "is_word w \<longleftrightarrow> w \<noteq> [] \<and> (\<forall>c\<in>set w. \<not> is_space c)"

lemma is_wordI: "w \<noteq> [] \<Longrightarrow> (\<And>c. c \<in> set w \<Longrightarrow> \<not> is_space c) \<Longrightarrow> is_word w"
  by (simp add: is_word_def)

lemma fields_from_words:
  "\<forall>c\<in>set cur. \<not> is_space c \<Longrightarrow> \<forall>w\<in>set (fields_from cur s). is_word w"
proof (induction s arbitrary: cur)
  case (Cons c s)
  show ?case
  proof (cases "is_space c")
    case True
    with Cons.prems Cons.IH [of "[]"] show ?thesis by (simp add: is_word_def)
  next
    case False
    with Cons.prems Cons.IH [of "cur @ [c]"] show ?thesis by simp
  qed
qed (simp add: is_word_def)

lemma fields_words: "w \<in> set (fields s) \<Longrightarrow> is_word w"
  unfolding fields_def using fields_from_words [of "[]" s] by simp

lemma fields_from_set: "w \<in> set (fields_from cur s) \<Longrightarrow> set w \<subseteq> set cur \<union> set s"
  by (induction cur s rule: fields_from.induct) (auto split: if_splits)

lemma fields_set: "w \<in> set (fields s) \<Longrightarrow> set w \<subseteq> set s"
  unfolding fields_def using fields_from_set [of w "[]" s] by simp

lemma fields_Nil [simp]: "fields [] = []"
  by (simp add: fields_def)

lemma fields_space [simp]: "is_space c \<Longrightarrow> fields (c # s) = fields s"
  by (simp add: fields_def)

lemma fields_from_word:
  "\<forall>c\<in>set w. \<not> is_space c \<Longrightarrow> fields_from cur (w @ s) = fields_from (cur @ w) s"
  by (induction w arbitrary: cur) auto

lemma fields_word: "is_word w \<Longrightarrow> fields w = [w]"
  using fields_from_word [of w "[]" "[]"] by (simp add: fields_def is_word_def)

lemma fields_word_space:
  "is_word w \<Longrightarrow> is_space c \<Longrightarrow> fields (w @ c # s) = w # fields s"
  using fields_from_word [of w "[]" "c # s"] by (simp add: fields_def is_word_def)

lemma fields_join [simp]: "\<forall>w\<in>set ws. is_word w \<Longrightarrow> fields (join [space] ws) = ws"
proof (induction "[space]" ws rule: join.induct)
  case (3 w v ws)
  then show ?case by (simp add: fields_word_space)
qed (simp_all add: fields_word)

lemma join_Cons: "join sep (w # ws) = (if ws = [] then w else w @ sep @ join sep ws)"
  by (cases ws) auto

lemma join_append:
  "join sep (us @ vs) =
     (if us = [] then join sep vs else if vs = [] then join sep us
      else join sep us @ sep @ join sep vs)"
  by (induction us) (auto simp: join_Cons)

lemma join_eq_Nil: "\<forall>w\<in>set ws. w \<noteq> [] \<Longrightarrow> join sep ws = [] \<longleftrightarrow> ws = []"
  by (cases ws) (auto simp: join_Cons)

lemma set_join: "set (join sep ws) \<subseteq> \<Union> (set ` set ws) \<union> set sep"
  by (induction ws) (auto simp: join_Cons)

lemma fields_dropWhile [simp]: "fields (dropWhile is_space s) = fields s"
  by (induction s) auto

lemma trim_right_Nil_iff: "trim_right s = [] \<longleftrightarrow> (\<forall>c\<in>set s. is_space c)"
  by (induction s) (auto simp: Let_def)

lemma fields_all_space: "\<forall>c\<in>set s. is_space c \<Longrightarrow> fields s = []"
  by (induction s) auto

lemma trim_right_prefix: "\<exists>t. s = trim_right s @ t \<and> (\<forall>c\<in>set t. is_space c)"
proof (induction s)
  case (Cons c s)
  then obtain t where t: "s = trim_right s @ t" "\<forall>c\<in>set t. is_space c" by blast
  show ?case
  proof (cases "trim_right s = [] \<and> is_space c")
    case True
    then have "\<forall>d\<in>set (c # s). is_space d" by (simp add: trim_right_Nil_iff)
    with True show ?thesis by (simp add: Let_def)
  next
    case False
    with t show ?thesis by (auto simp: Let_def)
  qed
qed simp

lemma set_trim_right: "set (trim_right s) \<subseteq> set s"
  by (induction s) (auto simp: Let_def)

lemma set_trim_space: "set (trim_space s) \<subseteq> set s"
  unfolding trim_space_def using set_trim_right set_dropWhileD by fastforce

lemma trim_right_snoc: "\<not> is_space c \<Longrightarrow> trim_right (s @ [c]) = s @ [c]"
  by (induction s) (auto simp: Let_def)

lemma trim_space_id:
  "\<not> is_space (hd (s @ [c])) \<Longrightarrow> \<not> is_space c \<Longrightarrow> trim_space (s @ [c]) = s @ [c]"
  unfolding trim_space_def using trim_right_snoc [of c s] by (cases s) auto

lemma trim_space_word: "is_word w \<Longrightarrow> trim_space w = w"
  unfolding is_word_def
  by (cases w rule: rev_cases) (auto intro!: trim_space_id simp: hd_append split: if_splits)

lemma trim_space_join:
  assumes "\<forall>w\<in>set ws. is_word w"
  shows "trim_space (join [space] ws) = join [space] ws"
proof (cases ws rule: rev_cases)
  case Nil
  then show ?thesis by (simp add: trim_space_def)
next
  case (snoc us w)
  with assms have "is_word w" by simp
  then obtain v c where w: "w = v @ [c]" "\<not> is_space c"
    unfolding is_word_def by (cases w rule: rev_cases) auto
  have "join [space] ws = (if us = [] then v else join [space] us @ space # v) @ [c]"
    by (simp add: snoc join_append w)
  moreover have "\<not> is_space (hd (join [space] ws))"
    using assms snoc by (cases ws) (fastforce simp: join_Cons is_word_def hd_append)+
  ultimately show ?thesis using w(2) trim_space_id by metis
qed

lemma fields_from_spaces: "\<forall>c\<in>set t. is_space c \<Longrightarrow> fields_from cur (u @ t) = fields_from cur u"
proof (induction u arbitrary: cur)
  case Nil
  have "fields_from [] t = []" using Nil fields_all_space [of t] by (simp add: fields_def)
  with Nil show ?case by (cases t) (auto simp: fields_def)
qed simp

lemma fields_trim_space [simp]: "fields (trim_space s) = fields s"
proof -
  have "fields (trim_right u) = fields u" for u
    using trim_right_prefix [of u] fields_from_spaces unfolding fields_def by metis
  then show ?thesis by (simp add: trim_space_def)
qed

text \<open>A word of a string stands between the ends or blanks.\<close>

lemma fields_from_split:
  assumes "w \<in> set (fields_from cur s)" and "\<forall>c\<in>set cur. \<not> is_space c"
  shows "\<exists>u v. cur @ s = u @ w @ v \<and> (u = [] \<or> is_space (last u)) \<and> (v = [] \<or> is_space (hd v))"
  using assms
proof (induction cur s rule: fields_from.induct)
  case (1 cur)
  then show ?case by (intro exI [of _ "[]"]) (auto split: if_splits)
next
  case (2 cur c cs)
  show ?case
  proof (cases "is_space c")
    case True
    show ?thesis
    proof (cases "w \<in> set (fields_from [] cs)")
      case w: True
      have "\<exists>u v. [] @ cs = u @ w @ v \<and> (u = [] \<or> is_space (last u)) \<and> (v = [] \<or> is_space (hd v))"
        using "2.IH"(1,2) True w by (cases "cur = []") simp_all
      then obtain u v where uv: "cs = u @ w @ v" "u = [] \<or> is_space (last u)" "v = [] \<or> is_space (hd v)"
        by auto
      with True have "is_space (last (cur @ c # u))" by auto
      with uv show ?thesis by (intro exI [of _ "cur @ c # u"] exI [of _ v]) simp
    next
      case False
      with "2.prems" True have "w = cur" by (auto split: if_splits)
      with True show ?thesis by (intro exI [of _ "[]"] exI [of _ "c # cs"]) simp
    qed
  next
    case False
    with 2 show ?thesis by simp
  qed
qed

lemma fields_split:
  "w \<in> set (fields s) \<Longrightarrow>
     \<exists>u v. s = u @ w @ v \<and> (u = [] \<or> is_space (last u)) \<and> (v = [] \<or> is_space (hd v))"
  using fields_from_split [of w "[]" s] by (simp add: fields_def)

section \<open>ReplaceAll, Split, TrimSuffix\<close>

text \<open>
  \<open>strings.ReplaceAll\<close> with a non-empty pattern, the only use in the service: leftmost,
  not overlapping.
\<close>

fun replace_all :: "gostring \<Rightarrow> gostring \<Rightarrow> gostring \<Rightarrow> gostring" where
  "replace_all old new [] = []"
| "replace_all old new (c # cs) =
     (if old \<noteq> [] \<and> prefix old (c # cs)
      then new @ replace_all old new (drop (length old - 1) cs)
      else c # replace_all old new cs)"

lemma replace_all_char: "replace_all [d] [] s = filter (\<lambda>c. c \<noteq> d) s"
  by (induction s) auto

text \<open>\<open>strings.Split\<close> at a one-byte separator.\<close>

fun split_on :: "char \<Rightarrow> gostring \<Rightarrow> gostring list" where
  "split_on d [] = [[]]"
| "split_on d (c # cs) =
     (if c = d then [] # split_on d cs
      else (case split_on d cs of [] \<Rightarrow> [[c]] | p # ps \<Rightarrow> (c # p) # ps))"

lemma split_on_nonempty [simp]: "split_on d s \<noteq> []"
  by (induction s) (auto split: list.splits)

lemma split_on_no_sep: "p \<in> set (split_on d s) \<Longrightarrow> d \<notin> set p"
proof (induction s arbitrary: p)
  case (Cons c s)
  then show ?case by (cases "split_on d s") (auto split: if_splits)
qed simp

lemma join_split_on: "join [d] (split_on d s) = s"
proof (induction s)
  case (Cons c s)
  then show ?case by (cases "split_on d s") (auto simp: join_Cons split: if_splits)
qed simp

lemma length_split_on: "length (split_on d s) = Suc (count_list s d)"
proof (induction s)
  case (Cons c s)
  then show ?case by (cases "split_on d s") auto
qed simp

lemma split_on_append_sep: "d \<notin> set p \<Longrightarrow> split_on d (p @ d # s) = p # split_on d s"
  by (induction p) auto

lemma split_on_word: "d \<notin> set p \<Longrightarrow> split_on d p = [p]"
  by (induction p) auto

lemma split_on_join:
  "ps \<noteq> [] \<Longrightarrow> (\<And>p. p \<in> set ps \<Longrightarrow> d \<notin> set p) \<Longrightarrow> split_on d (join [d] ps) = ps"
proof (induction ps)
  case (Cons p ps)
  then show ?case
    by (cases "ps = []") (simp_all add: join_Cons split_on_word split_on_append_sep)
qed simp

definition trim_suffix :: "gostring \<Rightarrow> gostring \<Rightarrow> gostring" where
  "trim_suffix s suf = (if suffix suf s then take (length s - length suf) s else s)"

section \<open>The word boundary\<close>

text \<open>
  A matcher walks over the text and carries whether the byte before is a word character;
  \<open>next_word\<close> says whether the byte after is one. \<open>\b\<close> holds where the two differ.
\<close>

definition next_word :: "gostring \<Rightarrow> bool" where
  "next_word s = (case s of [] \<Rightarrow> False | c # _ \<Rightarrow> is_word_char c)"

lemma next_word_simps [simp]:
  "next_word [] = False" "next_word (c # s) = is_word_char c"
  by (simp_all add: next_word_def)

section \<open>Formatting\<close>

text \<open>\<open>fmt.Sprintf\<close> with the verb \<open>%d\<close> on an \<open>int64\<close>.\<close>

fun nat_digits :: "nat \<Rightarrow> gostring" where
  "nat_digits n =
     (if n < 10 then [char_of (48 + n)] else nat_digits (n div 10) @ [char_of (48 + n mod 10)])"

declare nat_digits.simps [simp del]

definition fmt_d :: "int64 \<Rightarrow> gostring" where
  "fmt_d n = (if sint n < 0 then CHR ''-'' # nat_digits (nat (- sint n)) else nat_digits (nat (sint n)))"

definition nat_of_digits :: "gostring \<Rightarrow> nat" where
  "nat_of_digits s = foldl (\<lambda>v c. 10 * v + (of_char c - 48)) 0 s"

lemma nat_of_digits_snoc: "nat_of_digits (s @ [c]) = 10 * nat_of_digits s + (of_char c - 48)"
  by (simp add: nat_of_digits_def)

lemma nat_digits_value [simp]: "nat_of_digits (nat_digits n) = n"
proof (induction n rule: nat_digits.induct)
  case (1 n)
  show ?case
  proof (cases "n < 10")
    case True
    then show ?thesis by (simp add: nat_digits.simps [of n] nat_of_digits_def)
  next
    case False
    with 1 show ?thesis by (simp add: nat_digits.simps [of n] nat_of_digits_snoc)
  qed
qed

lemma nat_digits_digits: "c \<in> set (nat_digits n) \<Longrightarrow> is_digit c"
proof (induction n rule: nat_digits.induct)
  case (1 n)
  have "is_digit (char_of (48 + k))" if "k < 10" for k :: nat
    using that by (simp add: is_digit_def)
  with 1 show ?case by (auto simp: nat_digits.simps [of n] split: if_splits)
qed

lemma fmt_d_inj: "fmt_d m = fmt_d n \<longleftrightarrow> m = n"
proof
  assume eq: "fmt_d m = fmt_d n"
  have minus: "hd (nat_digits k) \<noteq> CHR ''-''" "nat_digits k \<noteq> []" for k
  proof -
    show ne: "nat_digits k \<noteq> []" by (simp add: nat_digits.simps [of k])
    then show "hd (nat_digits k) \<noteq> CHR ''-''"
      using nat_digits_digits [of "hd (nat_digits k)" k] by (auto simp: is_digit_def)
  qed
  have same: "sint m < 0 \<longleftrightarrow> sint n < 0"
    using eq minus by (metis fmt_d_def list.sel(1))
  have inj: "nat_digits k = nat_digits l \<Longrightarrow> k = l" for k l by (metis nat_digits_value)
  have "sint m = sint n"
    using eq same by (auto simp: fmt_d_def eq_nat_nat_iff dest!: inj split: if_splits)
  then show "m = n" by (rule signed_word_eqI)
qed simp

lemma fmt_d_no_colon: "CHR '':'' \<notin> set (fmt_d n)"
  using nat_digits_digits [of "CHR '':''"] by (auto simp: fmt_d_def is_digit_def)

text \<open>\<open>fmt.Sprintf("%d:%s", id, name)\<close>, the key of the caches, and what it separates.\<close>

definition source_key :: "int64 \<Rightarrow> gostring \<Rightarrow> gostring" where
  "source_key sourceID name = fmt_d sourceID @ '':'' @ name"

lemma source_key_inj: "source_key a s = source_key b t \<longleftrightarrow> a = b \<and> s = t"
proof
  have split: "takeWhile (\<lambda>c. c \<noteq> CHR '':'') (source_key a s) = fmt_d a"
    "dropWhile (\<lambda>c. c \<noteq> CHR '':'') (source_key a s) = CHR '':'' # s" for a s
    using fmt_d_no_colon [of a] by (auto simp: source_key_def takeWhile_append dropWhile_append)
  assume "source_key a s = source_key b t"
  then show "a = b \<and> s = t" using split [of a s] split [of b t] by (auto simp: fmt_d_inj)
qed simp

section \<open>Hexadecimal digits\<close>

definition lowerhex :: "nat \<Rightarrow> char" where
  "lowerhex n = ''0123456789abcdef'' ! n"

definition upperhex :: "nat \<Rightarrow> char" where
  "upperhex n = ''0123456789ABCDEF'' ! n"

definition hex_byte :: "(nat \<Rightarrow> char) \<Rightarrow> nat \<Rightarrow> gostring" where
  "hex_byte digit n = [digit (n div 16), digit (n mod 16)]"

text \<open>\<open>strconv.Quote\<close>, the verb \<open>%q\<close>.\<close>

definition quote_byte :: "char \<Rightarrow> gostring" where
  "quote_byte c =
     (let n = of_char c :: nat in
      if c = CHR 0x22 \<or> c = CHR 0x5C then [CHR 0x5C, c]
      else if 32 \<le> n \<and> n < 127 then [c]
      else if n = 7 then [CHR 0x5C, CHR ''a''] else if n = 8 then [CHR 0x5C, CHR ''b'']
      else if n = 9 then [CHR 0x5C, CHR ''t''] else if n = 10 then [CHR 0x5C, CHR ''n'']
      else if n = 11 then [CHR 0x5C, CHR ''v''] else if n = 12 then [CHR 0x5C, CHR ''f'']
      else if n = 13 then [CHR 0x5C, CHR ''r'']
      else [CHR 0x5C, CHR ''x''] @ hex_byte lowerhex n)"

definition fmt_q :: "gostring \<Rightarrow> gostring" where
  "fmt_q s = CHR 0x22 # concat (map quote_byte s) @ [CHR 0x22]"

end
