(* ===== verification/Normalizer.thy ===== *)
theory Normalizer
  imports Go_Strings
begin

text \<open>
  \<open>internal/normalizer/normalizer.go\<close>: the text normalisation that both sides of every
  comparison pass through, the request's address and the names of the location tables.
  The main result is the shape of the output (words of lower-case letters followed by
  five-digit postal codes, separated by single blanks), from which idempotence and the
  absence of administrative prefixes follow where they hold.
\<close>

section \<open>The regular expressions\<close>

text \<open>
  \<open>\b\d{5}\b\<close>. The matcher carries whether the byte before the current one is a word
  character; five digits are word characters, so the two boundaries say that the byte
  before and the byte after are none.
\<close>

definition postal_at :: "gostring \<Rightarrow> bool" where
  "postal_at s \<longleftrightarrow>
     length (take 5 s) = 5 \<and> list_all is_digit (take 5 s) \<and> \<not> next_word (drop 5 s)"

fun find_all_postal :: "bool \<Rightarrow> gostring \<Rightarrow> gostring list" where
  "find_all_postal prev_word [] = []"
| "find_all_postal prev_word (c # cs) =
     (if \<not> prev_word \<and> postal_at (c # cs)
      then take 5 (c # cs) # find_all_postal True (drop 4 cs)
      else find_all_postal (is_word_char c) cs)"

definition rePostalCode_FindAllString :: "gostring \<Rightarrow> gostring list" where
  "rePostalCode_FindAllString s = find_all_postal False s"

text \<open>\<open>[^a-zA-Z\s]\<close> replaced by nothing.\<close>

definition keeps :: "char \<Rightarrow> bool" where
  "keeps c \<longleftrightarrow> is_letter c \<or> re_space c"

definition rePunctuation_remove :: "gostring \<Rightarrow> gostring" where
  "rePunctuation_remove s = filter keeps s"

text \<open>\<open>\s+\<close> replaced by one blank.\<close>

fun reMultipleSpaces_collapse :: "gostring \<Rightarrow> gostring" where
  "reMultipleSpaces_collapse [] = []"
| "reMultipleSpaces_collapse (c # cs) =
     (if re_space c then space # reMultipleSpaces_collapse (dropWhile re_space cs)
      else c # reMultipleSpaces_collapse cs)"

section \<open>Normalize\<close>

definition adminSet :: "gostring set" where
  "adminSet = {''kabupaten'', ''kab.'', ''kab'', ''kota'', ''kecamatan'', ''kec.'', ''kec'',
     ''kelurahan'', ''kel.'', ''kel'', ''provinsi'', ''prov.'', ''prov'', ''administrasi'',
     ''kepulauan''}"

definition backslash_n :: gostring where
  "backslash_n = [CHR 0x5C, CHR ''n'']"

definition Normalize :: "gostring \<Rightarrow> gostring" where
  "Normalize name =
     (let name = replace_all backslash_n [space] name;
          lower = to_lower (trim_space name);
          words = fields lower;
          filtered = filter (\<lambda>w. w \<notin> adminSet) words;
          joined = join [space] filtered;
          postalCodes = rePostalCode_FindAllString joined;
          noPunct = rePunctuation_remove joined;
          result = trim_space (reMultipleSpaces_collapse noPunct)
      in if postalCodes \<noteq> []
         then (if result \<noteq> [] then result @ [space] else result) @ join [space] postalCodes
         else result)"

section \<open>The steps as operations on words\<close>

definition filtered_words :: "gostring \<Rightarrow> gostring list" where
  "filtered_words name =
     filter (\<lambda>w. w \<notin> adminSet)
       (fields (to_lower (trim_space (replace_all backslash_n [space] name))))"

definition letter_words :: "gostring list \<Rightarrow> gostring list" where
  "letter_words ws = filter (\<lambda>w. w \<noteq> []) (List.map (filter is_letter) ws)"

definition norm_words :: "gostring \<Rightarrow> gostring list" where
  "norm_words name =
     letter_words (filtered_words name)
     @ rePostalCode_FindAllString (join [space] (filtered_words name))"

lemma fields_from_Cons:
  "cur \<noteq> [] \<Longrightarrow> fields_from (a # cur) s = (a # hd (fields_from cur s)) # tl (fields_from cur s)"
  by (induction s arbitrary: cur) auto

lemma fields_from_nonempty: "cur \<noteq> [] \<Longrightarrow> fields_from cur s \<noteq> []"
  by (induction s arbitrary: cur) auto

lemma fields_Cons:
  assumes "\<not> is_space c"
  shows "fields (c # s) =
    (if s = [] \<or> is_space (hd s) then [c] # fields s
     else (c # hd (fields s)) # tl (fields s))"
  using assms fields_from_Cons [of "[hd s]" c "tl s"]
  by (cases s) (auto simp: fields_def)

lemma fields_nonempty: "s \<noteq> [] \<Longrightarrow> \<not> is_space (hd s) \<Longrightarrow> fields s \<noteq> []"
  by (cases s) (auto simp: fields_def fields_from_nonempty)

lemma dropWhile_re_space:
  "\<forall>c\<in>set s. is_space c \<longrightarrow> c = space \<Longrightarrow> dropWhile re_space s = dropWhile is_space s"
  by (induction s) (auto dest: re_space_is_space)

lemma collapse_trim_right:
  "\<forall>c\<in>set s. is_space c \<longrightarrow> c = space \<Longrightarrow>
   trim_right (reMultipleSpaces_collapse s) =
     (if s \<noteq> [] \<and> is_space (hd s) \<and> fields s \<noteq> [] then [space] else []) @ join [space] (fields s)"
proof (induction s rule: reMultipleSpaces_collapse.induct)
  case (2 c cs)
  show ?case
  proof (cases "is_space c")
    case True
    with "2.prems" have c: "c = space" by auto
    let ?y = "dropWhile is_space cs"
    have y: "dropWhile re_space cs = ?y" using "2.prems" by (simp add: dropWhile_re_space)
    have yset: "\<forall>c\<in>set ?y. is_space c \<longrightarrow> c = space"
      using "2.prems" by (auto dest: set_dropWhileD)
    have hd: "?y \<noteq> [] \<Longrightarrow> \<not> is_space (hd ?y)" by (rule hd_dropWhile)
    have "trim_right (reMultipleSpaces_collapse ?y) = join [space] (fields cs)"
      using "2.IH"(1) yset hd y c by auto
    moreover have "join [space] (fields cs) = [] \<longleftrightarrow> fields cs = []"
      by (rule join_eq_Nil) (auto dest: fields_words simp: is_word_def)
    ultimately show ?thesis by (simp add: c y Let_def)
  next
    case False
    then have "\<not> re_space c" by (auto dest: re_space_is_space)
    with False 2 show ?thesis
      using fields_nonempty [of cs]
      by (cases "fields cs") (auto simp: Let_def fields_Cons join_Cons)
  qed
qed simp

lemma collapse_dropWhile:
  "\<forall>c\<in>set s. is_space c \<longrightarrow> c = space \<Longrightarrow>
   dropWhile is_space (reMultipleSpaces_collapse s) = reMultipleSpaces_collapse (dropWhile is_space s)"
proof (cases s)
  case (Cons c cs)
  assume *: "\<forall>c\<in>set s. is_space c \<longrightarrow> c = space"
  have id: "dropWhile is_space (reMultipleSpaces_collapse t) = reMultipleSpaces_collapse t"
    if "t = [] \<or> \<not> is_space (hd t)" for t
    using that by (cases t) (auto dest: re_space_is_space)
  have "re_space c = is_space c" using * Cons by (auto dest: re_space_is_space)
  moreover have "dropWhile re_space cs = dropWhile is_space cs"
    using * Cons by (simp add: dropWhile_re_space)
  moreover have "dropWhile is_space cs = [] \<or> \<not> is_space (hd (dropWhile is_space cs))"
    using hd_dropWhile by blast
  ultimately show ?thesis using Cons id by simp
qed simp

lemma trim_space_collapse:
  assumes "\<forall>c\<in>set s. is_space c \<longrightarrow> c = space"
  shows "trim_space (reMultipleSpaces_collapse s) = join [space] (fields s)"
proof -
  let ?y = "dropWhile is_space s"
  have "\<forall>c\<in>set ?y. is_space c \<longrightarrow> c = space"
    using assms by (auto dest: set_dropWhileD)
  then have "trim_right (reMultipleSpaces_collapse ?y) =
      (if ?y \<noteq> [] \<and> is_space (hd ?y) \<and> fields ?y \<noteq> [] then [space] else []) @ join [space] (fields ?y)"
    by (rule collapse_trim_right)
  moreover have "\<not> (?y \<noteq> [] \<and> is_space (hd ?y))" using hd_dropWhile by blast
  ultimately show ?thesis
    unfolding trim_space_def collapse_dropWhile [OF assms] by auto
qed

lemma filter_keeps_word: "is_word w \<Longrightarrow> filter keeps w = filter is_letter w"
  by (rule filter_cong) (auto simp: keeps_def is_word_def dest: re_space_is_space)

lemma is_word_letters: "filter is_letter w \<noteq> [] \<Longrightarrow> is_word (filter is_letter w)"
  by (auto simp: is_word_def dest: is_letter_not_space)

lemma fields_filter_keeps:
  "\<forall>w\<in>set ws. is_word w \<Longrightarrow> fields (filter keeps (join [space] ws)) = letter_words ws"
proof (induction ws)
  case (Cons w ws)
  have k: "keeps space" by (simp add: keeps_def)
  from Cons show ?case
    by (auto simp: join_Cons letter_words_def k filter_keeps_word fields_word
        fields_word_space is_word_letters)
qed (simp add: letter_words_def)

lemma filtered_words_word: "w \<in> set (filtered_words s) \<Longrightarrow> is_word w"
  by (auto simp: filtered_words_def dest: fields_words)

lemma Normalize_join: "Normalize s = join [space] (norm_words s)"
proof -
  let ?F = "filtered_words s"
  let ?x = "filter keeps (join [space] ?F)"
  have w: "\<forall>w\<in>set ?F. is_word w" using filtered_words_word by blast
  have "\<forall>c\<in>set ?x. is_space c \<longrightarrow> c = space"
    using set_join [of "[space]" ?F] w unfolding is_word_def by fastforce
  then have "trim_space (reMultipleSpaces_collapse ?x) = join [space] (letter_words ?F)"
    by (simp add: trim_space_collapse fields_filter_keeps w)
  moreover have "join [space] (letter_words ?F) = [] \<longleftrightarrow> letter_words ?F = []"
    by (rule join_eq_Nil) (simp add: letter_words_def)
  ultimately show ?thesis
    by (auto simp: Normalize_def Let_def filtered_words_def [symmetric] norm_words_def
        rePunctuation_remove_def join_append)
qed

section \<open>The shape of the output\<close>

definition letter_word :: "gostring \<Rightarrow> bool" where
  "letter_word w \<longleftrightarrow> w \<noteq> [] \<and> list_all is_lower w"

definition postal_word :: "gostring \<Rightarrow> bool" where
  "postal_word p \<longleftrightarrow> length p = 5 \<and> list_all is_digit p"

lemma letter_word_is_word: "letter_word w \<Longrightarrow> is_word w"
  by (auto simp: letter_word_def is_word_def list_all_iff dest: is_lower_not_space)

lemma postal_word_is_word: "postal_word p \<Longrightarrow> is_word p"
  by (auto simp: postal_word_def is_word_def list_all_iff dest: is_digit_not_space)

lemma find_all_postal_words: "p \<in> set (find_all_postal b s) \<Longrightarrow> postal_word p"
  by (induction b s rule: find_all_postal.induct)
    (auto simp: postal_at_def postal_word_def split: if_splits)

lemma letter_words_letter:
  assumes "\<forall>w\<in>set ws. \<forall>c\<in>set w. \<not> is_upper c" and "w \<in> set (letter_words ws)"
  shows "letter_word w"
  using assms by (auto simp: letter_words_def letter_word_def list_all_iff is_letter_def)

lemma filtered_words_no_upper: "w \<in> set (filtered_words s) \<Longrightarrow> c \<in> set w \<Longrightarrow> \<not> is_upper c"
  by (auto simp: filtered_words_def dest!: fields_set dest: to_lower_no_upper)

lemma norm_words_letters: "w \<in> set (letter_words (filtered_words s)) \<Longrightarrow> letter_word w"
  by (rule letter_words_letter) (auto dest: filtered_words_no_upper)

lemma norm_words_is_word: "\<forall>w\<in>set (norm_words s). is_word w"
  unfolding norm_words_def rePostalCode_FindAllString_def
  using norm_words_letters letter_word_is_word find_all_postal_words postal_word_is_word by auto

lemma fields_Normalize: "fields (Normalize s) = norm_words s"
  by (simp add: Normalize_join norm_words_is_word)

text \<open>Scanning the output for postal codes finds exactly the ones that were appended.\<close>

lemma find_all_postal_skip:
  "\<forall>c\<in>set w. \<not> is_digit c \<Longrightarrow> find_all_postal b (w @ space # s) = find_all_postal False s"
  by (induction w arbitrary: b) (auto simp: postal_at_def is_word_char_def char_class_defs)

lemma find_all_postal_no_digit: "\<forall>c\<in>set w. \<not> is_digit c \<Longrightarrow> find_all_postal b w = []"
  by (induction w arbitrary: b) (auto simp: postal_at_def)

lemma find_all_postal_word:
  assumes "postal_word p" and "s = [] \<or> hd s = space"
  shows "find_all_postal False (p @ s) = p # find_all_postal True s"
proof -
  obtain c q where p: "p = c # q" "length q = 4"
    using assms(1) by (cases p) (auto simp: postal_word_def)
  have "\<not> next_word s" using assms(2) by (cases s) (auto simp: is_space_not_word)
  then have "postal_at (c # q @ s)"
    using assms(1) p by (simp add: postal_at_def postal_word_def)
  then show ?thesis by (simp add: p)
qed

lemma letter_word_no_digit: "letter_word w \<Longrightarrow> \<forall>c\<in>set w. \<not> is_digit c"
  by (auto simp: letter_word_def list_all_iff dest: is_lower_letter is_digit_not_letter)

lemma find_all_postal_postals:
  "\<forall>p\<in>set ps. postal_word p \<Longrightarrow> find_all_postal False (join [space] ps) = ps"
proof (induction ps)
  case (Cons p ps)
  then show ?case
    using find_all_postal_word [of p "[]"] find_all_postal_word [of p "space # join [space] ps"]
      find_all_postal_skip [of "[]" True "join [space] ps"]
    by (auto simp: join_Cons)
qed simp

lemma find_all_postal_join:
  "\<forall>w\<in>set ws. letter_word w \<Longrightarrow> \<forall>p\<in>set ps. postal_word p \<Longrightarrow>
   find_all_postal False (join [space] (ws @ ps)) = ps"
proof (induction ws)
  case Nil
  then show ?case by (simp add: find_all_postal_postals)
next
  case (Cons w ws)
  from Cons.prems(1) have "\<forall>c\<in>set w. \<not> is_digit c" by (intro letter_word_no_digit) simp
  with Cons show ?case
    by (auto simp: join_Cons find_all_postal_skip find_all_postal_no_digit)
qed

lemma find_all_postal_Normalize:
  "find_all_postal False (Normalize s) = rePostalCode_FindAllString (join [space] (filtered_words s))"
  unfolding Normalize_join norm_words_def
  by (rule find_all_postal_join)
    (auto dest: norm_words_letters find_all_postal_words simp: rePostalCode_FindAllString_def)

section \<open>Properties\<close>

text \<open>
  C40. Shape of the output: for every input, \<open>Normalize\<close> returns words of lower-case
  letters followed by five-digit postal codes, separated by single blanks, with nothing
  before the first and after the last.
\<close>

theorem Normalize_shape:
  "\<exists>ws ps. Normalize s = join [space] (ws @ ps) \<and> fields (Normalize s) = ws @ ps \<and>
     list_all letter_word ws \<and> list_all postal_word ps"
proof (intro exI conjI)
  show "Normalize s = join [space] (letter_words (filtered_words s) @
      rePostalCode_FindAllString (join [space] (filtered_words s)))"
    by (simp add: Normalize_join norm_words_def)
  show "fields (Normalize s) = letter_words (filtered_words s) @
      rePostalCode_FindAllString (join [space] (filtered_words s))"
    by (simp add: fields_Normalize norm_words_def)
  show "list_all letter_word (letter_words (filtered_words s))"
    by (simp add: list_all_iff norm_words_letters)
  show "list_all postal_word (rePostalCode_FindAllString (join [space] (filtered_words s)))"
    by (auto simp: list_all_iff rePostalCode_FindAllString_def dest: find_all_postal_words)
qed

lemma replace_all_absent: "hd old \<notin> set s \<Longrightarrow> old \<noteq> [] \<Longrightarrow> replace_all old new s = s"
  by (induction s) (auto simp: neq_Nil_conv)

lemma norm_words_chars: "c \<in> set (Normalize s) \<Longrightarrow> is_lower c \<or> is_digit c \<or> c = space"
proof -
  assume c: "c \<in> set (Normalize s)"
  obtain ws ps where n: "Normalize s = join [space] (ws @ ps)"
    and w: "list_all letter_word ws" and p: "list_all postal_word ps"
    using Normalize_shape by blast
  from c n have "c = space \<or> (\<exists>w\<in>set ws. c \<in> set w) \<or> (\<exists>p\<in>set ps. c \<in> set p)"
    using set_join [of "[space]" "ws @ ps"] by auto
  with w p show ?thesis by (auto simp: list_all_iff letter_word_def postal_word_def)
qed

lemma letter_words_id: "\<forall>w\<in>set ws. letter_word w \<Longrightarrow> letter_words ws = ws"
  by (induction ws) (auto simp: letter_words_def letter_word_def list_all_iff is_lower_letter
      intro!: filter_True)

lemma letter_words_postal: "\<forall>p\<in>set ps. postal_word p \<Longrightarrow> letter_words ps = []"
  by (auto simp: letter_words_def postal_word_def list_all_iff filter_empty_conv is_digit_not_letter)

lemma filtered_words_Normalize:
  "filtered_words (Normalize s) = filter (\<lambda>w. w \<notin> adminSet) (norm_words s)"
proof -
  have "CHR 0x5C \<notin> set (Normalize s)"
    using norm_words_chars [of "CHR 0x5C" s] by (auto simp: char_class_defs)
  then have "replace_all backslash_n [space] (Normalize s) = Normalize s"
    by (intro replace_all_absent) (auto simp: backslash_n_def)
  moreover have "trim_space (Normalize s) = Normalize s"
    by (simp add: Normalize_join trim_space_join norm_words_is_word)
  moreover have "to_lower (Normalize s) = Normalize s"
    by (rule to_lower_id) (auto dest!: norm_words_chars simp: char_class_defs)
  ultimately show ?thesis by (simp add: filtered_words_def fields_Normalize)
qed

text \<open>
  Normalising twice changes nothing, as long as stripping the punctuation has not
  uncovered an administrative prefix (the case of \<open>Normalize_uncovers_prefix\<close>).
\<close>

theorem Normalize_idempotent:
  assumes "list_all (\<lambda>w. w \<notin> adminSet) (fields (Normalize s))"
  shows "Normalize (Normalize s) = Normalize s"
proof -
  let ?W = "letter_words (filtered_words s)"
  let ?P = "rePostalCode_FindAllString (join [space] (filtered_words s))"
  have "filtered_words (Normalize s) = norm_words s"
    using assms by (simp add: filtered_words_Normalize fields_Normalize list_all_iff)
  moreover have "letter_words (norm_words s) = ?W"
  proof -
    have "letter_words (?W @ ?P) = letter_words ?W @ letter_words ?P"
      by (simp add: letter_words_def)
    also have "letter_words ?P = []"
      by (rule letter_words_postal)
        (auto simp: rePostalCode_FindAllString_def dest: find_all_postal_words)
    also have "letter_words ?W = ?W" by (rule letter_words_id) (simp add: norm_words_letters)
    finally show ?thesis by (simp add: norm_words_def)
  qed
  moreover have "find_all_postal False (join [space] (norm_words s)) = ?P"
    using find_all_postal_Normalize [of s] by (simp add: Normalize_join)
  ultimately show ?thesis
    unfolding Normalize_join [of "Normalize s"] norm_words_def [of "Normalize s"]
    by (simp add: Normalize_join norm_words_def rePostalCode_FindAllString_def)
qed

theorem Normalize_idempotent_witness:
  "Normalize (Normalize ''Kab. Bandung, 40114'') = ''bandung 40114''"
proof -
  have n: "Normalize ''Kab. Bandung, 40114'' = ''bandung 40114''" by code_simp
  have "list_all (\<lambda>w. w \<notin> adminSet) (fields (Normalize ''Kab. Bandung, 40114''))"
    unfolding n by code_simp
  from Normalize_idempotent [OF this] show ?thesis unfolding n .
qed

text \<open>
  Where the input holds letters and white space only, no administrative prefix
  (kabupaten, kota, kec, ...) survives in the output.
\<close>

theorem Normalize_no_admin:
  assumes "list_all (\<lambda>c. is_letter c \<or> is_space c) s"
  shows "list_all (\<lambda>w. w \<notin> adminSet) (fields (Normalize s))"
proof -
  have "CHR 0x5C \<notin> set s" using assms by (auto simp: list_all_iff char_class_defs)
  then have r: "replace_all backslash_n [space] s = s"
    by (intro replace_all_absent) (auto simp: backslash_n_def)
  have chars: "is_letter c" if w: "w \<in> set (filtered_words s)" and c: "c \<in> set w" for w c
  proof -
    have "c \<in> set (to_lower (trim_space s))"
      using w c fields_set unfolding filtered_words_def r by auto
    then obtain d where d: "c = to_lower_char d" "d \<in> set s"
      using set_trim_space [of s] by (auto simp: to_lower_def)
    moreover have "\<not> is_space c"
      using filtered_words_word [OF w] c by (simp add: is_word_def)
    ultimately show ?thesis using assms by (auto simp: list_all_iff)
  qed
  then have "letter_words (filtered_words s) = filtered_words s"
    using filtered_words_word [of _ s]
    by (force simp: letter_words_def is_word_def map_idI filter_id_conv)
  moreover have "find_all_postal False (join [space] (filtered_words s)) = []"
  proof (rule find_all_postal_no_digit, rule ballI)
    fix c assume "c \<in> set (join [space] (filtered_words s))"
    then have "c = space \<or> (\<exists>w\<in>set (filtered_words s). c \<in> set w)"
      using set_join [of "[space]" "filtered_words s"] by auto
    moreover have "\<not> is_digit space" by (simp add: char_class_defs)
    ultimately show "\<not> is_digit c" using chars by (auto dest: is_digit_not_letter)
  qed
  ultimately have "fields (Normalize s) = filtered_words s"
    by (simp add: fields_Normalize norm_words_def rePostalCode_FindAllString_def)
  then show ?thesis by (simp add: filtered_words_def list_all_iff)
qed

theorem Normalize_no_admin_witness:
  "list_all (\<lambda>w. w \<notin> adminSet) (fields (Normalize ''Kota Jakarta  Barat''))"
  by (rule Normalize_no_admin) code_simp

text \<open>
  With punctuation the prefix can come back: the word \<open>kota,\<close> is not in \<open>adminSet\<close>
  when the words are filtered, and only afterwards loses its comma.
\<close>

lemma Normalize_uncovers_prefix:
  "Normalize ''Kota, Bandung'' = ''kota bandung'' \<and>
   Normalize (Normalize ''Kota, Bandung'') = ''bandung''"
  by code_simp

end
