(* ===== verification/Go_Float.thy ===== *)
theory Go_Float
  imports Complex_Main AQ_Prelude
begin

text \<open>
  Go's \<open>float64\<close>: a rational number that every operation rounds to 53 significant bits,
  ties to even, as IEEE 754 and the Go specification ask. The scores of the service stay
  between \<open>2^-20\<close> and \<open>2^40\<close> in size, so overflow, subnormal numbers, infinities and
  NaN do not arise and are left out. The lemmas bound the rounding error, so that a
  computation over decimal weights can be compared with the exact one.
\<close>

type_synonym float64 = rat

section \<open>Rounding\<close>

fun bit_len :: "nat \<Rightarrow> nat" where
  "bit_len n = (if n = 0 then 0 else Suc (bit_len (n div 2)))"

declare bit_len.simps [simp del]

text \<open>The exponent of the last of the 53 bits of \<open>x\<close>.\<close>

definition ulp_exp :: "rat \<Rightarrow> int" where
  "ulp_exp x =
     (let (n, d) = quotient_of \<bar>x\<bar>;
          e = int (bit_len (nat n)) - int (bit_len (nat d))
      in (if 2 powi e \<le> \<bar>x\<bar> then e else e - 1) - 52)"

definition round_even :: "rat \<Rightarrow> int" where
  "round_even y =
     (let f = \<lfloor>y\<rfloor>; r = y - of_int f
      in if r < 1 / 2 then f else if 1 / 2 < r then f + 1 else if even f then f else f + 1)"

definition rnd :: "rat \<Rightarrow> float64" where
  "rnd x = (if x = 0 then 0
     else of_int (round_even (x / 2 powi ulp_exp x)) * 2 powi ulp_exp x)"

definition fadd :: "float64 \<Rightarrow> float64 \<Rightarrow> float64" where "fadd x y = rnd (x + y)"
definition fsub :: "float64 \<Rightarrow> float64 \<Rightarrow> float64" where "fsub x y = rnd (x - y)"
definition fmul :: "float64 \<Rightarrow> float64 \<Rightarrow> float64" where "fmul x y = rnd (x * y)"
definition fdiv :: "float64 \<Rightarrow> float64 \<Rightarrow> float64" where "fdiv x y = rnd (x / y)"

text \<open>\<open>float64(n)\<close> of an \<open>int\<close>, and \<open>math.Round\<close> (half away from zero), whose result
  is a whole number.\<close>

definition float_of_int :: "int \<Rightarrow> float64" where
  "float_of_int n = rnd (of_int n)"

definition math_Round :: "float64 \<Rightarrow> float64" where
  "math_Round x = of_int (if x < 0 then - \<lfloor>1 / 2 - x\<rfloor> else \<lfloor>x + 1 / 2\<rfloor>)"

section \<open>Rounding error\<close>

lemma bit_len_bounds: "0 < n \<Longrightarrow> 2 ^ bit_len n \<le> 2 * n \<and> n < 2 ^ bit_len n"
proof (induction n rule: bit_len.induct)
  case (1 n)
  show ?case
  proof (cases "n div 2 = 0")
    case True
    with "1.prems" have "n = 1" by presburger
    then show ?thesis by (simp add: bit_len.simps [of "Suc 0"] bit_len.simps [of 0])
  next
    case False
    with 1 have "2 ^ bit_len (n div 2) \<le> 2 * (n div 2) \<and> n div 2 < 2 ^ bit_len (n div 2)"
      by simp
    moreover have "bit_len n = Suc (bit_len (n div 2))"
      using "1.prems" by (simp add: bit_len.simps [of n])
    ultimately show ?thesis by auto
  qed
qed

lemma powi_le_of_bits:
  fixes n d :: nat
  assumes "0 < n" "0 < d"
  shows "(2::rat) powi (int (bit_len n) - int (bit_len d) - 1) \<le> of_nat n / of_nat d"
    and "of_nat n / of_nat d < (2::rat) powi (int (bit_len n) - int (bit_len d) + 1)"
proof -
  let ?a = "bit_len n" and ?b = "bit_len d"
  have n: "2 ^ ?a \<le> 2 * n" "n < 2 ^ ?a" and d: "2 ^ ?b \<le> 2 * d" "d < 2 ^ ?b"
    using assms bit_len_bounds by auto
  have n': "(2::rat) ^ ?a \<le> 2 * of_nat n" "of_nat n < (2::rat) ^ ?a"
    and d': "(2::rat) ^ ?b \<le> 2 * of_nat d" "of_nat d < (2::rat) ^ ?b"
    using n d by (metis of_nat_le_iff of_nat_less_iff of_nat_mult of_nat_numeral of_nat_power)+
  have p: "(2::rat) powi (int ?a - int ?b - 1) = 2 ^ ?a / (2 ^ ?b * 2)"
    "(2::rat) powi (int ?a - int ?b + 1) = 2 ^ ?a * 2 / 2 ^ ?b"
    by (simp_all add: power_int_diff power_int_add)
  have "(2::rat) ^ ?a * of_nat d \<le> (2 * of_nat n) * 2 ^ ?b"
    using n'(1) d'(2) by (intro mult_mono) auto
  then show "(2::rat) powi (int ?a - int ?b - 1) \<le> of_nat n / of_nat d"
    unfolding p using assms by (simp add: field_simps)
  have "of_nat n * (2::rat) ^ ?b < 2 ^ ?a * (2 * of_nat d)"
    using n'(2) d'(1) assms by (intro mult_less_le_imp_less) auto
  then show "of_nat n / of_nat d < (2::rat) powi (int ?a - int ?b + 1)"
    unfolding p using assms by (simp add: field_simps)
qed

lemma ulp_exp_bounds:
  assumes "x \<noteq> 0"
  shows "2 powi (ulp_exp x + 52) \<le> \<bar>x\<bar>" and "\<bar>x\<bar> < 2 powi (ulp_exp x + 53)"
proof -
  obtain n d where q: "quotient_of \<bar>x\<bar> = (n, d)" by fastforce
  have d: "0 < d" using q quotient_of_denom_pos by blast
  have x: "\<bar>x\<bar> = of_int n / of_int d" using q quotient_of_div by blast
  have n: "0 < n" using x d assms by (metis abs_ge_zero abs_zero divide_pos_pos linorder_not_less
        of_int_0_less_iff of_int_le_0_iff order_le_less zero_less_abs_iff zero_less_divide_iff)
  have x': "\<bar>x\<bar> = of_nat (nat n) / of_nat (nat d)" using x n d by simp
  let ?e = "int (bit_len (nat n)) - int (bit_len (nat d))"
  have b: "2 powi (?e - 1) \<le> \<bar>x\<bar>" "\<bar>x\<bar> < 2 powi (?e + 1)"
    using powi_le_of_bits [of "nat n" "nat d"] n d unfolding x' by auto
  have u: "ulp_exp x = (if 2 powi ?e \<le> \<bar>x\<bar> then ?e else ?e - 1) - 52"
    by (simp add: ulp_exp_def q)
  show "2 powi (ulp_exp x + 52) \<le> \<bar>x\<bar>" and "\<bar>x\<bar> < 2 powi (ulp_exp x + 53)"
    using b by (auto simp: u add.commute [of 1])
qed

lemma powi2_less_iff: "(2::rat) powi a < 2 powi b \<longleftrightarrow> a < b"
  using power_int_strict_increasing [of a b "2::rat"] power_int_increasing [of b a "2::rat"]
  by (metis linorder_not_less one_less_numeral_iff semiring_norm(76) order_less_imp_le one_le_numeral)

lemma round_even_error: "\<bar>of_int (round_even y) - y\<bar> \<le> 1 / 2"
  using floor_correct [of y] by (auto simp: round_even_def Let_def)

lemma round_even_int [simp]: "round_even (of_int n) = n"
  by (simp add: round_even_def Let_def)

lemma rnd_error: "\<bar>rnd x - x\<bar> \<le> \<bar>x\<bar> / 2 ^ 53"
proof (cases "x = 0")
  case False
  let ?k = "ulp_exp x" and ?y = "x / 2 powi ulp_exp x"
  have "rnd x - x = (of_int (round_even ?y) - ?y) * 2 powi ?k"
    using False by (simp add: rnd_def field_simps)
  then have "\<bar>rnd x - x\<bar> = \<bar>of_int (round_even ?y) - ?y\<bar> * 2 powi ?k"
    by (simp add: abs_mult)
  also have "\<dots> \<le> 1 / 2 * 2 powi ?k"
    by (rule mult_right_mono [OF round_even_error]) simp
  also have "\<dots> = 2 powi (?k + 52) / 2 ^ 53"
    by (simp add: power_int_add)
  also have "\<dots> \<le> \<bar>x\<bar> / 2 ^ 53"
    using ulp_exp_bounds(1) [OF False] by (simp add: divide_right_mono)
  finally show ?thesis .
qed (simp add: rnd_def)

lemma rnd_0 [simp]: "rnd 0 = 0"
  by (simp add: rnd_def)

text \<open>Numbers with at most 53 bits are kept as they are.\<close>

lemma rnd_exact:
  assumes "\<bar>m\<bar> < 2 ^ 53"
  shows "rnd (of_int m * 2 powi j) = of_int m * 2 powi j"
proof (cases "m = 0")
  case False
  let ?x = "of_int m * 2 powi j :: rat"
  let ?k = "ulp_exp ?x"
  have x: "?x \<noteq> 0" using False by simp
  have "2 powi (?k + 52) \<le> \<bar>?x\<bar>" by (rule ulp_exp_bounds(1) [OF x])
  also have "\<bar>?x\<bar> = of_int \<bar>m\<bar> * 2 powi j" by (simp add: abs_mult)
  also have "\<dots> < of_int (2 ^ 53) * 2 powi j"
    by (rule mult_strict_right_mono) (use assms in \<open>simp_all only: of_int_less_iff\<close>, simp)
  also have "\<dots> = 2 powi (j + 53)" by (simp add: power_int_add)
  finally have "(2::rat) powi (?k + 52) < 2 powi (j + 53)" .
  then have "?k + 52 < j + 53" by (simp add: powi2_less_iff)
  then have "?k \<le> j" by simp
  then have "(2::rat) powi (j - ?k) = 2 ^ nat (j - ?k)" by (simp add: power_int_def)
  then have "of_int m * (2 powi j / 2 powi ?k) = (of_int (m * 2 ^ nat (j - ?k)) :: rat)"
    by (simp add: power_int_diff)
  then have "?x / 2 powi ?k = of_int (m * 2 ^ nat (j - ?k))" by simp
  then have "of_int (round_even (?x / 2 powi ?k)) = ?x / 2 powi ?k"
    by (simp only: round_even_int)
  with x show ?thesis by (simp add: rnd_def)
qed simp

lemma rnd_int: "\<bar>m\<bar> < 2 ^ 53 \<Longrightarrow> rnd (of_int m) = of_int m"
  using rnd_exact [of m 0] by simp

lemma rnd_1 [simp]: "rnd 1 = 1"
  using rnd_int [of 1] by simp

lemma float_of_int_exact: "\<bar>m\<bar> < 2 ^ 53 \<Longrightarrow> float_of_int m = of_int m"
  by (simp add: float_of_int_def rnd_int)

text \<open>Unfolding a rounding whose exponent is known.\<close>

lemma rnd_unfold:
  assumes "2 powi (k + 52) \<le> \<bar>x\<bar>" and "\<bar>x\<bar> < 2 powi (k + 53)"
  shows "rnd x = of_int (round_even (x / 2 powi k)) * 2 powi k"
proof -
  have x: "x \<noteq> 0" using assms(1) by (metis abs_zero linorder_not_less zero_less_numeral zero_less_power_int)
  have "(2::rat) powi (k + 52) < 2 powi (ulp_exp x + 53)" "(2::rat) powi (ulp_exp x + 52) < 2 powi (k + 53)"
    using assms ulp_exp_bounds [OF x] by linarith+
  then have "ulp_exp x = k" by (simp add: powi2_less_iff)
  with x show ?thesis by (simp add: rnd_def)
qed

text \<open>Rounding keeps the order.\<close>

lemma round_even_bounds: "\<lfloor>y\<rfloor> \<le> round_even y" "round_even y \<le> \<lfloor>y\<rfloor> + 1"
  by (simp_all add: round_even_def Let_def)

lemma round_even_mono: "x \<le> y \<Longrightarrow> round_even x \<le> round_even y"
proof -
  assume le: "x \<le> y"
  show ?thesis
  proof (cases "\<lfloor>x\<rfloor> = \<lfloor>y\<rfloor>")
    case True
    with le show ?thesis by (simp add: round_even_def Let_def)
  next
    case False
    then have "\<lfloor>x\<rfloor> + 1 \<le> \<lfloor>y\<rfloor>" using floor_mono [OF le] by simp
    then show ?thesis using round_even_bounds [of x] round_even_bounds [of y] by linarith
  qed
qed

lemma rnd_nonneg: "0 \<le> x \<Longrightarrow> 0 \<le> rnd x"
  using round_even_mono [of 0 "x / 2 powi ulp_exp x"] round_even_int [of 0]
  by (simp add: rnd_def)

lemma rnd_mono: "0 \<le> x \<Longrightarrow> x \<le> y \<Longrightarrow> rnd x \<le> rnd y"
proof (cases "x = 0")
  case True
  assume "x \<le> y"
  with True show ?thesis by (simp add: rnd_nonneg)
next
  case False
  assume nonneg: "0 \<le> x" and le: "x \<le> y"
  let ?k = "ulp_exp x" and ?l = "ulp_exp y"
  have pos: "0 < x" "0 < y" using False nonneg le by simp_all
  have x: "2 powi (?k + 52) \<le> x" "x < 2 powi (?k + 53)"
    and y: "2 powi (?l + 52) \<le> y" "y < 2 powi (?l + 53)"
    using ulp_exp_bounds [of x] ulp_exp_bounds [of y] pos by simp_all
  have "(2::rat) powi (?k + 52) < 2 powi (?l + 53)" using x y le by linarith
  then have "?k \<le> ?l" by (simp add: powi2_less_iff)
  then consider "?k = ?l" | "?k < ?l" by linarith
  then show ?thesis
  proof cases
    case 1
    have "round_even (x / 2 powi ?k) \<le> round_even (y / 2 powi ?k)"
      using le by (intro round_even_mono divide_right_mono) simp_all
    with 1 pos show ?thesis by (simp add: rnd_def)
  next
    case 2
    have "x / 2 powi ?k \<le> of_int (2 ^ 53)"
      using x(2) by (simp add: power_int_add divide_le_eq mult.commute)
    then have "round_even (x / 2 powi ?k) \<le> 2 ^ 53" using round_even_mono round_even_int by metis
    then have "(of_int (round_even (x / 2 powi ?k)) :: rat) \<le> of_int (2 ^ 53)" by (simp only: of_int_le_iff)
    then have "rnd x \<le> of_int (2 ^ 53) * 2 powi ?k"
      using pos by (simp only: rnd_def) (simp add: mult_right_mono)
    also have "\<dots> = 2 powi (?k + 53)" by (simp add: power_int_add)
    also have "\<dots> \<le> 2 powi (?l + 52)" using 2 by (intro power_int_increasing) simp_all
    also have "\<dots> = of_int (2 ^ 52) * 2 powi ?l" by (simp add: power_int_add)
    also have "\<dots> \<le> rnd y"
    proof -
      have "of_int (2 ^ 52) \<le> y / 2 powi ?l"
        using y(1) by (simp add: power_int_add le_divide_eq mult.commute)
      then have "2 ^ 52 \<le> round_even (y / 2 powi ?l)" using round_even_mono round_even_int by metis
      then have "(of_int (2 ^ 52) :: rat) \<le> of_int (round_even (y / 2 powi ?l))" by (simp only: of_int_le_iff)
      then show ?thesis using pos by (simp only: rnd_def) (simp add: mult_right_mono)
    qed
    finally show ?thesis .
  qed
qed

section \<open>Comparing with exact arithmetic\<close>

text \<open>
  \<open>near n x r\<close>: the float \<open>x\<close> is within \<open>n\<close> units of \<open>2^-50\<close> of the exact value \<open>r\<close>.
  Every operation on values of at most \<open>8\<close> adds one unit.
\<close>

definition near :: "nat \<Rightarrow> float64 \<Rightarrow> rat \<Rightarrow> bool" where
  "near n x r \<longleftrightarrow> \<bar>x - r\<bar> \<le> of_nat n / 2 ^ 50"

named_theorems near_intros

lemma rnd_near1: "\<bar>x\<bar> \<le> 8 \<Longrightarrow> \<bar>rnd x - x\<bar> \<le> 1 / 2 ^ 50"
  using rnd_error [of x] by (simp add: field_simps)

lemma near_rnd [near_intros]: "\<bar>r\<bar> \<le> 8 \<Longrightarrow> near 1 (rnd r) r"
  using rnd_near1 by (simp add: near_def)

lemma near_mono: "near m x r \<Longrightarrow> m \<le> n \<Longrightarrow> near n x r"
proof -
  assume "near m x r" "m \<le> n"
  then have "\<bar>x - r\<bar> \<le> of_nat m / 2 ^ 50" "(of_nat m :: rat) / 2 ^ 50 \<le> of_nat n / 2 ^ 50"
    by (simp_all add: near_def divide_right_mono)
  then show ?thesis unfolding near_def by linarith
qed

lemma near_fadd [near_intros]:
  assumes "near m x r" and "near n y s" and "\<bar>r + s\<bar> \<le> 4" and "m + n \<le> 2 ^ 50"
  shows "near (Suc (m + n)) (fadd x y) (r + s)"
proof -
  have e: "\<bar>(x + y) - (r + s)\<bar> \<le> of_nat (m + n) / 2 ^ 50"
    using assms(1,2) unfolding near_def of_nat_add add_divide_distrib by linarith
  have "(of_nat (m + n) :: rat) / 2 ^ 50 \<le> 1"
    using assms(4) by (metis (mono_tags) divide_le_eq_1_pos of_nat_le_iff of_nat_numeral of_nat_power zero_less_numeral zero_less_power)
  with e assms(3) have "\<bar>x + y\<bar> \<le> 8" by linarith
  then have "\<bar>fadd x y - (x + y)\<bar> \<le> 1 / 2 ^ 50" unfolding fadd_def by (rule rnd_near1)
  with e have "\<bar>fadd x y - (r + s)\<bar> \<le> of_nat (m + n) / 2 ^ 50 + 1 / 2 ^ 50" by linarith
  then show ?thesis by (simp add: near_def add_divide_distrib)
qed

text \<open>
  The last steps of every score of the service, \<open>math.Round(score*10000) / 10000\<close>: where
  the float is near a whole number of ten-thousandths, they return the float nearest to it.
\<close>

definition round4 :: "float64 \<Rightarrow> float64" where
  "round4 x = fdiv (math_Round (fmul x (float_of_int 10000))) (float_of_int 10000)"

lemma math_Round_near: "\<bar>x - of_int k\<bar> < 1 / 2 \<Longrightarrow> math_Round x = of_int k"
proof -
  assume "\<bar>x - of_int k\<bar> < 1 / 2"
  then have "of_int k - 1 / 2 < x" "x < of_int k + 1 / 2" by linarith+
  then have "\<lfloor>1 / 2 - x\<rfloor> = - k" "\<lfloor>x + 1 / 2\<rfloor> = k" by (auto intro!: floor_unique)
  then show ?thesis by (simp add: math_Round_def)
qed

definition basis_points :: "int \<Rightarrow> float64" where
  "basis_points k = rnd (of_int k / 10000)"

lemma round4_near:
  assumes "\<bar>x - of_int k / 10000\<bar> \<le> 1 / 10 ^ 5" and "\<bar>k\<bar> \<le> 2 ^ 40"
  shows "round4 x = basis_points k"
proof -
  have c: "float_of_int 10000 = 10000" using float_of_int_exact [of 10000] by simp
  have d: "\<bar>x * 10000 - of_int k\<bar> \<le> 1 / 10"
    using assms(1) by (simp add: abs_le_iff field_simps)
  have "(of_int \<bar>k\<bar> :: rat) \<le> 2 ^ 40"
    using assms(2) by (metis of_int_le_iff of_int_numeral of_int_power)
  moreover have "\<bar>x * 10000\<bar> \<le> \<bar>x * 10000 - of_int k\<bar> + \<bar>of_int k\<bar>" by linarith
  ultimately have "\<bar>x * 10000\<bar> \<le> 2 ^ 41" using d by simp
  then have "\<bar>x * 10000\<bar> / 2 ^ 53 \<le> 1 / 10" by simp
  with rnd_error [of "x * 10000"] d have "\<bar>rnd (x * 10000) - of_int k\<bar> < 1 / 2" by linarith
  then have "math_Round (fmul x 10000) = of_int k"
    unfolding fmul_def by (rule math_Round_near)
  then show ?thesis by (simp add: round4_def c fdiv_def basis_points_def)
qed

text \<open>Ten-thousandths are ordered as their floats.\<close>

lemma basis_points_error:
  assumes "\<bar>k\<bar> \<le> 2 ^ 40"
  shows "\<bar>basis_points k - of_int k / 10000\<bar> \<le> 1 / 10 ^ 6"
proof -
  have "(of_int \<bar>k\<bar> :: rat) \<le> 2 ^ 40"
    using assms by (metis of_int_le_iff of_int_numeral of_int_power)
  then have "\<bar>of_int k / 10000 :: rat\<bar> \<le> 2 ^ 40 / 10000" by simp
  then show ?thesis using rnd_error [of "of_int k / 10000"] unfolding basis_points_def by simp
qed

lemma basis_points_less_iff:
  assumes "\<bar>k\<bar> \<le> 2 ^ 40" and "\<bar>l\<bar> \<le> 2 ^ 40"
  shows "basis_points k < basis_points l \<longleftrightarrow> k < l"
proof -
  have less: "basis_points k < basis_points l" if "k < l" "\<bar>k\<bar> \<le> 2 ^ 40" "\<bar>l\<bar> \<le> 2 ^ 40" for k l
  proof -
    have "(of_int k :: rat) + 1 \<le> of_int l" using that(1) by (metis of_int_1 of_int_add of_int_le_iff zless_imp_add1_zle)
    then have "(of_int k :: rat) / 10000 + 1 / 10000 \<le> of_int l / 10000" by (simp add: field_simps)
    moreover have "basis_points k \<le> of_int k / 10000 + 1 / 10 ^ 6"
      using basis_points_error [OF that(2)] by linarith
    moreover have "of_int l / 10000 - 1 / 10 ^ 6 \<le> basis_points l"
      using basis_points_error [OF that(3)] by linarith
    ultimately show ?thesis by simp
  qed
  show ?thesis using less [of k l] less [of l k] assms by (cases k l rule: linorder_cases) auto
qed

lemma basis_points_eq_iff:
  "\<bar>k\<bar> \<le> 2 ^ 40 \<Longrightarrow> \<bar>l\<bar> \<le> 2 ^ 40 \<Longrightarrow> basis_points k = basis_points l \<longleftrightarrow> k = l"
  using basis_points_less_iff [of k l] basis_points_less_iff [of l k]
  by (metis linorder_neq_iff)

lemma basis_points_0 [simp]: "basis_points 0 = 0" and basis_points_1 [simp]: "basis_points 10000 = 1"
  by (simp_all add: basis_points_def)

end
