(* ===== verification/Address_Model.thy ===== *)
theory Address_Model
  imports AQ_Prelude Go_Float
begin

text \<open>
  \<open>internal/model/model.go\<close> and the map type of \<open>internal/database/location.go\<close>: the
  data that the stages of the service hand to each other. A struct is a record, a string
  type with a fixed list of constants a datatype, a pointer an option, an embedded struct
  a field. Field names carry a prefix, since records share one name space.
\<close>

section \<open>Requests, statuses, components\<close>

record address_request =
  req_Address :: gostring
  req_SourceCode :: gostring

text \<open>\<open>model.Location\<close>: the names that a response shows, empty where unknown.\<close>

record location =
  l_PostalCode :: gostring
  l_SubDistrict :: gostring
  l_District :: gostring
  l_City :: gostring
  l_Province :: gostring

definition empty_location :: location where
  "empty_location = \<lparr>l_PostalCode = [], l_SubDistrict = [], l_District = [], l_City = [],
     l_Province = []\<rparr>"

datatype quality_status =
  StatusValid | StatusIncomplete | StatusAmbiguous | StatusConflict | StatusUnknown

datatype admin_component =
  ComponentProvince | ComponentCity | ComponentDistrict | ComponentSubDistrict | ComponentPostalCode

text \<open>The components from the widest to the narrowest, the order in which they are listed.\<close>

primrec component_rank :: "admin_component \<Rightarrow> nat" where
  "component_rank ComponentProvince = 0"
| "component_rank ComponentCity = 1"
| "component_rank ComponentDistrict = 2"
| "component_rank ComponentSubDistrict = 3"
| "component_rank ComponentPostalCode = 4"

lemma component_rank_inj: "component_rank a = component_rank b \<longleftrightarrow> a = b"
  by (cases a; cases b) simp_all

instantiation admin_component :: linorder
begin

definition less_eq_admin_component :: "admin_component \<Rightarrow> admin_component \<Rightarrow> bool" where
  "less_eq_admin_component a b \<longleftrightarrow> component_rank a \<le> component_rank b"

definition less_admin_component :: "admin_component \<Rightarrow> admin_component \<Rightarrow> bool" where
  "less_admin_component a b \<longleftrightarrow> component_rank a < component_rank b"

instance
  by standard (auto simp: less_eq_admin_component_def less_admin_component_def
      component_rank_inj)

end

record conflict =
  c_Type :: gostring
  c_Message :: gostring

datatype reason =
  ReasonExactMatch | ReasonMatchProvince | ReasonMatchCity | ReasonMatchDistrict
  | ReasonMatchSubDistrict | ReasonPostalCodeExact | ReasonPostalCodePrefix4
  | ReasonPostalCodePrefix3 | ReasonPostalCodeLookup | ReasonPostalCodeInferred

section \<open>Evidence and entities\<close>

datatype evidence_type = EvidenceRoadName | EvidencePlaceName | EvidencePostalCode

record evidence =
  ev_Type :: evidence_type
  ev_Value :: gostring

text \<open>The level of an entity is a plain string in the code; these are its four values.\<close>

abbreviation PROVINCE :: gostring where "PROVINCE \<equiv> ''PROVINCE''"
abbreviation CITY :: gostring where "CITY \<equiv> ''CITY''"
abbreviation DISTRICT :: gostring where "DISTRICT \<equiv> ''DISTRICT''"
abbreviation SUBDISTRICT :: gostring where "SUBDISTRICT \<equiv> ''SUBDISTRICT''"

record entity =
  ent_ID :: int64
  ent_Name :: gostring
  ent_Level :: gostring
  ent_PostalCode :: gostring

record resolved_evidence =
  re_Evidence :: evidence
  re_Candidates :: "entity list"

datatype discovery_strategy = DiscoveryTopDown | DiscoveryAnyLevel | DiscoveryAlias | DiscoveryPostal

record matched_evidence =
  me_Evidence :: evidence
  me_Resolved :: "entity option"

abbreviation me_Value :: "matched_evidence \<Rightarrow> gostring" where
  "me_Value me \<equiv> ev_Value (me_Evidence me)"

section \<open>Candidates\<close>

record province =
  p_ID :: int64
  p_Name :: gostring
  p_NormalizedName :: gostring

record city =
  ct_ID :: int64
  ct_Name :: gostring
  ct_NormalizedName :: gostring
  ct_PostalCode :: gostring

record district =
  d_ID :: int64
  d_Name :: gostring
  d_NormalizedName :: gostring

record subdistrict =
  s_ID :: int64
  s_Name :: gostring
  s_NormalizedName :: gostring
  s_PostalCode :: gostring

record postal_code =
  pc_ID :: int64
  pc_Code :: gostring
  pc_Name :: gostring

record road =
  r_ID :: int64
  r_Name :: gostring

record admin_location =
  Province :: "province option"
  City :: "city option"
  District :: "district option"
  SubDistrict :: "subdistrict option"
  PostalCode :: "postal_code option"
  Road :: "road option"
  Conflicts :: "conflict list"

definition empty_admin_location :: admin_location where
  "empty_admin_location = \<lparr>Province = None, City = None, District = None, SubDistrict = None,
     PostalCode = None, Road = None, Conflicts = []\<rparr>"

datatype origin_level = OriginProvince | OriginCity | OriginDistrict | OriginSubDistrict

record admin_candidate =
  cand_UUID :: gostring
  OriginLevel :: origin_level
  Location :: admin_location
  Evidence :: "matched_evidence list"
  DiscoveryStrategies :: "discovery_strategy list"

record candidate_evaluation =
  ce_Candidate :: admin_candidate
  Confidence :: float64
  Status :: quality_status
  Matched :: "admin_component list"
  Missing :: "admin_component list"
  UnusedEvidence :: "evidence list"
  ce_Conflicts :: "conflict list"
  Reasons :: "reason list"

section \<open>The hierarchy map\<close>

text \<open>
  \<open>database.HierarchyMap\<close>: the parent of every city, district and sub-district. A Go map
  that is only looked up is a partial function; reading a missing key without the second
  result gives the zero value.
\<close>

record hierarchy_map =
  CityToProvince :: "int64 \<rightharpoonup> int64"
  DistrictToCity :: "int64 \<rightharpoonup> int64"
  SubDistrictToDist :: "int64 \<rightharpoonup> int64"

definition get0 :: "('k \<rightharpoonup> int64) \<Rightarrow> 'k \<Rightarrow> int64" where
  "get0 m k = (case m k of None \<Rightarrow> 0 | Some v \<Rightarrow> v)"

lemma get0_Some [simp]: "m k = Some v \<Longrightarrow> get0 m k = v"
  by (simp add: get0_def)

end
