(* ===== verification/Evaluate.thy ===== *)
theory Evaluate
  imports Address_Model Go_Strings
begin

text \<open>
  \<open>internal/service/evaluate.go\<close> with the weights of \<open>constant.go\<close>: hierarchy and
  conflict checks, the confidence score, the quality status and the reasons of a candidate.
  The code works on a pointer and appends to the candidate's conflicts; the model returns
  the changed candidate. The score is computed in floating point as the code does it, and
  \<open>scoreConfidence_exact\<close> compares it with whole hundredths.
\<close>

section \<open>Weights\<close>

definition WeightExactMatch :: float64 where "WeightExactMatch = rnd (10 / 100)"
definition WeightHierarchy :: float64 where "WeightHierarchy = rnd (15 / 100)"
definition WeightPostalCode :: float64 where "WeightPostalCode = rnd (5 / 100)"
definition WeightProvince :: float64 where "WeightProvince = rnd (15 / 100)"
definition WeightCity :: float64 where "WeightCity = rnd (12 / 100)"
definition WeightDistrict :: float64 where "WeightDistrict = rnd (8 / 100)"
definition WeightSubDistrict :: float64 where "WeightSubDistrict = rnd (5 / 100)"
definition WeightMultiProvince :: float64 where "WeightMultiProvince = rnd (20 / 100)"
definition WeightMultiCity :: float64 where "WeightMultiCity = rnd (15 / 100)"
definition WeightMultiDistrict :: float64 where "WeightMultiDistrict = rnd (10 / 100)"
definition WeightMultiSubDistrict :: float64 where "WeightMultiSubDistrict = rnd (5 / 100)"
definition MaxMultiEvidenceBonus :: float64 where "MaxMultiEvidenceBonus = rnd (40 / 100)"
definition WeightPostalCodePrefix3 :: float64 where "WeightPostalCodePrefix3 = rnd (7 / 100)"
definition WeightPostalCodePrefix4 :: float64 where "WeightPostalCodePrefix4 = rnd (10 / 100)"
definition WeightPostalCodePrefix5 :: float64 where "WeightPostalCodePrefix5 = rnd (20 / 100)"
definition WeightUsedEvidenceBonus :: float64 where "WeightUsedEvidenceBonus = rnd (3 / 100)"

lemmas weight_defs =
  WeightExactMatch_def WeightHierarchy_def WeightPostalCode_def WeightProvince_def
  WeightCity_def WeightDistrict_def WeightSubDistrict_def WeightMultiProvince_def
  WeightMultiCity_def WeightMultiDistrict_def WeightMultiSubDistrict_def
  MaxMultiEvidenceBonus_def WeightPostalCodePrefix3_def WeightPostalCodePrefix4_def
  WeightPostalCodePrefix5_def WeightUsedEvidenceBonus_def

section \<open>Components and conflicts\<close>

definition getMatchedComponents :: "admin_candidate \<Rightarrow> admin_component list" where
  "getMatchedComponents candidate =
     (let loc = Location candidate in
        (if Province loc \<noteq> None then [ComponentProvince] else [])
      @ (if City loc \<noteq> None then [ComponentCity] else [])
      @ (if District loc \<noteq> None then [ComponentDistrict] else [])
      @ (if SubDistrict loc \<noteq> None then [ComponentSubDistrict] else [])
      @ (if PostalCode loc \<noteq> None then [ComponentPostalCode] else []))"

definition getMissingComponents :: "admin_candidate \<Rightarrow> admin_component list" where
  "getMissingComponents candidate =
     (let loc = Location candidate in
        (if Province loc = None then [ComponentProvince] else [])
      @ (if City loc = None then [ComponentCity] else [])
      @ (if District loc = None then [ComponentDistrict] else [])
      @ (if SubDistrict loc = None then [ComponentSubDistrict] else []))"

definition extractConflicts :: "admin_candidate \<Rightarrow> conflict list" where
  "extractConflicts candidate = Conflicts (Location candidate)"

definition addConflict :: "admin_candidate \<Rightarrow> gostring \<Rightarrow> gostring \<Rightarrow> admin_candidate" where
  "addConflict candidate conflictType message =
     candidate\<lparr>Location := (Location candidate)\<lparr>Conflicts :=
       Conflicts (Location candidate) @ [\<lparr>c_Type = conflictType, c_Message = message\<rparr>]\<rparr>\<rparr>"

definition evaluateHierarchy ::
  "admin_candidate \<Rightarrow> hierarchy_map option \<Rightarrow> admin_candidate" where
  "evaluateHierarchy candidate hierarchy =
     (case hierarchy of
        None \<Rightarrow> candidate
      | Some h \<Rightarrow>
          let loc = Location candidate in
          if (case (City loc, Province loc) of
                (Some c, Some p) \<Rightarrow> get0 (CityToProvince h) (ct_ID c) \<noteq> p_ID p
              | _ \<Rightarrow> False)
          then addConflict candidate ''hierarchy_conflict'' ''city does not belong to province''
          else if (case (District loc, City loc) of
                (Some d, Some c) \<Rightarrow> get0 (DistrictToCity h) (d_ID d) \<noteq> ct_ID c
              | _ \<Rightarrow> False)
          then addConflict candidate ''hierarchy_conflict'' ''district does not belong to city''
          else if (case (SubDistrict loc, District loc) of
                (Some s, Some d) \<Rightarrow> get0 (SubDistrictToDist h) (s_ID s) \<noteq> d_ID d
              | _ \<Rightarrow> False)
          then addConflict candidate ''hierarchy_conflict''
                 ''sub-district does not belong to district''
          else candidate)"

definition evaluateCompleteness :: "admin_candidate \<Rightarrow> admin_candidate" where
  "evaluateCompleteness candidate = candidate"

definition evaluateEvidenceCoverage :: "admin_candidate \<Rightarrow> evidence list \<Rightarrow> evidence list" where
  "evaluateEvidenceCoverage candidate allEvidence =
     (if allEvidence = [] then []
      else let matchedValues = set (map me_Value (Evidence candidate))
           in filter (\<lambda>ev. ev_Value ev \<notin> matchedValues) allEvidence)"

fun multipleCities_loop ::
  "int64 set \<Rightarrow> matched_evidence list \<Rightarrow> admin_candidate \<Rightarrow> admin_candidate" where
  "multipleCities_loop seen [] candidate = candidate"
| "multipleCities_loop seen (me # mes) candidate =
     (case me_Resolved me of
        None \<Rightarrow> multipleCities_loop seen mes candidate
      | Some e \<Rightarrow>
          if ent_Level e \<noteq> CITY then multipleCities_loop seen mes candidate
          else if ent_ID e \<in> seen then multipleCities_loop seen mes candidate
          else multipleCities_loop (insert (ent_ID e) seen) mes
                 (case City (Location candidate) of
                    None \<Rightarrow> candidate
                  | Some c \<Rightarrow>
                      if ent_ID e \<noteq> ct_ID c
                      then addConflict candidate ''multiple_city''
                             (''multiple city candidates: '' @ ent_Name e)
                      else candidate))"

definition detectMultipleCities :: "admin_candidate \<Rightarrow> admin_candidate" where
  "detectMultipleCities candidate = multipleCities_loop {} (Evidence candidate) candidate"

definition location_levels :: "admin_location \<Rightarrow> gostring \<rightharpoonup> int64" where
  "location_levels loc =
     Map.empty(PROVINCE := map_option p_ID (Province loc),
               DISTRICT := map_option d_ID (District loc),
               SUBDISTRICT := map_option s_ID (SubDistrict loc))"

fun duplicateLevel_loop ::
  "(gostring \<rightharpoonup> int64) \<Rightarrow> matched_evidence list \<Rightarrow> admin_candidate \<Rightarrow> admin_candidate" where
  "duplicateLevel_loop levels [] candidate = candidate"
| "duplicateLevel_loop levels (me # mes) candidate =
     (case me_Resolved me of
        None \<Rightarrow> duplicateLevel_loop levels mes candidate
      | Some e \<Rightarrow>
          if ent_Level e = CITY then duplicateLevel_loop levels mes candidate
          else duplicateLevel_loop levels mes
                 (case levels (ent_Level e) of
                    None \<Rightarrow> candidate
                  | Some existingID \<Rightarrow>
                      if existingID \<noteq> ent_ID e
                      then addConflict candidate ''duplicate_level''
                             (''duplicate '' @ ent_Level e @ '': '' @ ent_Name e)
                      else candidate))"

definition detectDuplicateLevel :: "admin_candidate \<Rightarrow> admin_candidate" where
  "detectDuplicateLevel candidate =
     duplicateLevel_loop (location_levels (Location candidate)) (Evidence candidate) candidate"

definition detectConflicts ::
  "admin_candidate \<Rightarrow> hierarchy_map option \<Rightarrow> admin_candidate" where
  "detectConflicts candidate hierarchy =
     (let loc = Location candidate;
          candidate =
            (case (PostalCode loc, SubDistrict loc) of
               (Some pc, Some s) \<Rightarrow>
                 if pc_ID pc \<noteq> s_ID s
                 then addConflict candidate ''postal_code_mismatch''
                        ''postal code does not match sub-district''
                 else candidate
             | _ \<Rightarrow> candidate);
          levelCount = (if Province loc \<noteq> None then 1 else 0) + (if City loc \<noteq> None then 1 else 0)
            + (if District loc \<noteq> None then 1 else 0) + (if SubDistrict loc \<noteq> None then 1 else (0::nat));
          candidate =
            (if 1 < levelCount \<and> City loc \<noteq> None \<and> Province loc = None
             then addConflict candidate ''orphan_city'' ''city resolved without province''
             else candidate);
          candidate = detectMultipleCities candidate
      in detectDuplicateLevel candidate)"

section \<open>The score\<close>

fun matchedLevels_loop ::
  "admin_location \<Rightarrow> gostring set \<Rightarrow> matched_evidence list \<Rightarrow> gostring set" where
  "matchedLevels_loop loc levels [] = levels"
| "matchedLevels_loop loc levels (me # mes) =
     matchedLevels_loop loc
       (case me_Resolved me of
          None \<Rightarrow> levels
        | Some e \<Rightarrow>
            if ent_Level e = PROVINCE then
              (if map_option p_ID (Province loc) = Some (ent_ID e) then insert PROVINCE levels else levels)
            else if ent_Level e = CITY then
              (if map_option ct_ID (City loc) = Some (ent_ID e) then insert CITY levels else levels)
            else if ent_Level e = DISTRICT then
              (if map_option d_ID (District loc) = Some (ent_ID e) then insert DISTRICT levels else levels)
            else if ent_Level e = SUBDISTRICT then
              (if map_option s_ID (SubDistrict loc) = Some (ent_ID e) then insert SUBDISTRICT levels
               else levels)
            else levels) mes"

definition getMatchedLevels :: "admin_candidate \<Rightarrow> gostring set" where
  "getMatchedLevels candidate = matchedLevels_loop (Location candidate) {} (Evidence candidate)"

fun common_prefix_len :: "gostring \<Rightarrow> gostring \<Rightarrow> nat" where
  "common_prefix_len (a # s) (b # t) = (if a \<noteq> b then 0 else Suc (common_prefix_len s t))"
| "common_prefix_len _ _ = 0"

fun postalPrefix_loop :: "gostring \<Rightarrow> matched_evidence list \<Rightarrow> float64" where
  "postalPrefix_loop postalCode [] = 0"
| "postalPrefix_loop postalCode (me # mes) =
     (if ev_Type (me_Evidence me) \<noteq> EvidencePostalCode then postalPrefix_loop postalCode mes
      else let matchLen = common_prefix_len (me_Value me) postalCode in
           if 5 \<le> matchLen then WeightPostalCodePrefix5
           else if 4 \<le> matchLen then WeightPostalCodePrefix4
           else if 3 \<le> matchLen then WeightPostalCodePrefix3
           else postalPrefix_loop postalCode mes)"

definition scorePostalCodePrefix :: "admin_candidate \<Rightarrow> float64" where
  "scorePostalCodePrefix candidate =
     (case PostalCode (Location candidate) of
        None \<Rightarrow> 0
      | Some pc \<Rightarrow> postalPrefix_loop (pc_Code pc) (Evidence candidate))"

text \<open>
  The two maps of \<open>multiEvidenceBonus\<close>: how often an entity was matched, and its level
  (the last one seen). The range over \<open>counts\<close> is in the order \<open>ord\<close>.
\<close>

fun evidence_counts ::
  "(int64 \<times> nat) list \<Rightarrow> matched_evidence list \<Rightarrow> (int64 \<times> nat) list" where
  "evidence_counts counts [] = counts"
| "evidence_counts counts (me # mes) =
     evidence_counts
       (case me_Resolved me of
          None \<Rightarrow> counts
        | Some e \<Rightarrow> AList.update (ent_ID e)
            ((case map_of counts (ent_ID e) of None \<Rightarrow> 0 | Some n \<Rightarrow> n) + 1) counts) mes"

fun evidence_levels ::
  "(int64 \<rightharpoonup> gostring) \<Rightarrow> matched_evidence list \<Rightarrow> (int64 \<rightharpoonup> gostring)" where
  "evidence_levels levelOf [] = levelOf"
| "evidence_levels levelOf (me # mes) =
     evidence_levels
       (case me_Resolved me of None \<Rightarrow> levelOf | Some e \<Rightarrow> levelOf(ent_ID e \<mapsto> ent_Level e)) mes"

definition multi_weight :: "gostring option \<Rightarrow> float64 option" where
  "multi_weight level =
     (if level = Some PROVINCE then Some WeightMultiProvince
      else if level = Some CITY then Some WeightMultiCity
      else if level = Some DISTRICT then Some WeightMultiDistrict
      else if level = Some SUBDISTRICT then Some WeightMultiSubDistrict
      else None)"

fun bonus_loop :: "(int64 \<rightharpoonup> gostring) \<Rightarrow> float64 \<Rightarrow> (int64 \<times> nat) list \<Rightarrow> float64" where
  "bonus_loop levelOf bonus [] = bonus"
| "bonus_loop levelOf bonus ((i, cnt) # rest) =
     (if cnt < 2 then bonus_loop levelOf bonus rest
      else case multi_weight (levelOf i) of
             None \<Rightarrow> bonus_loop levelOf bonus rest
           | Some w \<Rightarrow> bonus_loop levelOf (fadd bonus w) rest)"

definition multiEvidenceBonus :: "(int64 \<times> nat) order \<Rightarrow> admin_candidate \<Rightarrow> float64" where
  "multiEvidenceBonus ord candidate =
     (let counts = evidence_counts [] (Evidence candidate);
          levelOf = evidence_levels Map.empty (Evidence candidate);
          bonus = bonus_loop levelOf 0 (ord counts);
          bonus = (if MaxMultiEvidenceBonus < bonus then MaxMultiEvidenceBonus else bonus)
      in round4 bonus)"

definition has_resolved :: "admin_candidate \<Rightarrow> bool" where
  "has_resolved candidate \<longleftrightarrow> list_ex (\<lambda>me. me_Resolved me \<noteq> None) (Evidence candidate)"

definition has_hierarchy_conflict :: "admin_candidate \<Rightarrow> bool" where
  "has_hierarchy_conflict candidate \<longleftrightarrow>
     list_ex (\<lambda>c. c_Type c = ''hierarchy_conflict'') (Conflicts (Location candidate))"

definition scoreConfidence ::
  "(int64 \<times> nat) order \<Rightarrow> admin_candidate \<Rightarrow> evidence list \<Rightarrow> bool \<Rightarrow> float64" where
  "scoreConfidence ord candidate unused hasEvidence =
     (let loc = Location candidate;
          score = 0;
          score = (if has_resolved candidate then fadd score WeightExactMatch else score);
          score = (if \<not> has_hierarchy_conflict candidate \<and> City loc \<noteq> None
                   then fadd score WeightHierarchy else score);
          score = (if PostalCode loc \<noteq> None
                   then fadd (fadd score WeightPostalCode) (scorePostalCodePrefix candidate)
                   else score);
          matched = getMatchedLevels candidate;
          score = (if PROVINCE \<in> matched then fadd score WeightProvince else score);
          score = (if CITY \<in> matched then fadd score WeightCity else score);
          score = (if DISTRICT \<in> matched then fadd score WeightDistrict else score);
          score = (if SUBDISTRICT \<in> matched then fadd score WeightSubDistrict else score);
          score = fadd score (multiEvidenceBonus ord candidate);
          score = (if 1 < score then 1 else score);
          score = (if hasEvidence \<and> 0 < length unused
                   then fsub score (fmul (float_of_int (int (length unused))) WeightUsedEvidenceBonus)
                   else score)
      in round4 score)"

section \<open>Status, reasons, evaluation\<close>

definition assessQuality :: "admin_candidate \<Rightarrow> quality_status" where
  "assessQuality candidate =
     (let loc = Location candidate in
      if 0 < length (Conflicts loc) then StatusConflict
      else if \<not> (Province loc \<noteq> None \<or> City loc \<noteq> None \<or> District loc \<noteq> None \<or> SubDistrict loc \<noteq> None)
      then StatusUnknown
      else if Province loc = None \<or> City loc = None \<or> District loc = None
      then StatusIncomplete
      else StatusValid)"

definition BuildReasons :: "admin_candidate \<Rightarrow> reason list" where
  "BuildReasons candidate =
     (let matched = getMatchedLevels candidate;
          prefixScore = scorePostalCodePrefix candidate in
        (if has_resolved candidate then [ReasonExactMatch] else [])
      @ (if PROVINCE \<in> matched then [ReasonMatchProvince] else [])
      @ (if CITY \<in> matched then [ReasonMatchCity] else [])
      @ (if DISTRICT \<in> matched then [ReasonMatchDistrict] else [])
      @ (if SUBDISTRICT \<in> matched then [ReasonMatchSubDistrict] else [])
      @ (if WeightPostalCodePrefix3 \<le> prefixScore then
           (if WeightPostalCodePrefix5 \<le> prefixScore then [ReasonPostalCodeExact]
            else if WeightPostalCodePrefix4 \<le> prefixScore then [ReasonPostalCodePrefix4]
            else if WeightPostalCodePrefix3 \<le> prefixScore then [ReasonPostalCodePrefix3]
            else [])
         else []))"

text \<open>
  The result is the evaluation; its \<open>ce_Candidate\<close> is the candidate as the pointer leaves
  it, with the conflicts that were found.
\<close>

definition EvaluateCandidate ::
  "(int64 \<times> nat) order \<Rightarrow> admin_candidate \<Rightarrow> hierarchy_map option \<Rightarrow> evidence list
     \<Rightarrow> candidate_evaluation" where
  "EvaluateCandidate ord candidate hierarchy allEvidence =
     (let candidate = evaluateHierarchy candidate hierarchy;
          candidate = evaluateCompleteness candidate;
          unused = evaluateEvidenceCoverage candidate allEvidence;
          candidate = detectConflicts candidate hierarchy;
          confidence = scoreConfidence ord candidate unused (0 < length allEvidence);
          status = assessQuality candidate
      in \<lparr>ce_Candidate = candidate,
          Confidence = confidence,
          Status = status,
          Matched = getMatchedComponents candidate,
          Missing = getMissingComponents candidate,
          UnusedEvidence = unused,
          ce_Conflicts = extractConflicts candidate,
          Reasons = BuildReasons candidate\<rparr>)"

end
