(* ===== verification/Score.thy ===== *)
theory Score
  imports Evaluate
begin

text \<open>
  The confidence score of \<open>evaluate.go\<close> against exact arithmetic: for every order in which
  Go ranges over the counts, the floating-point score is the float nearest to a whole
  number of hundredths, which is written down as \<open>confidence_points\<close>. Bounds and the
  independence of the map order follow.
\<close>

section \<open>The specification in hundredths\<close>

definition multi_points :: "gostring option \<Rightarrow> int" where
  "multi_points level =
     (if level = Some PROVINCE then 20 else if level = Some CITY then 15
      else if level = Some DISTRICT then 10 else if level = Some SUBDISTRICT then 5 else 0)"

definition multi_sum :: "(int64 \<rightharpoonup> gostring) \<Rightarrow> (int64 \<times> nat) list \<Rightarrow> int" where
  "multi_sum levelOf counts =
     sum_list (map (\<lambda>(i, cnt). if cnt < 2 then 0 else multi_points (levelOf i)) counts)"

definition bonus_points :: "admin_candidate \<Rightarrow> int" where
  "bonus_points candidate =
     min 40 (multi_sum (evidence_levels Map.empty (Evidence candidate))
               (evidence_counts [] (Evidence candidate)))"

fun prefix_points :: "gostring \<Rightarrow> matched_evidence list \<Rightarrow> int" where
  "prefix_points code [] = 0"
| "prefix_points code (me # mes) =
     (if ev_Type (me_Evidence me) \<noteq> EvidencePostalCode then prefix_points code mes
      else let n = common_prefix_len (me_Value me) code in
           if 5 \<le> n then 20 else if 4 \<le> n then 10 else if 3 \<le> n then 7
           else prefix_points code mes)"

definition postal_points :: "admin_candidate \<Rightarrow> int" where
  "postal_points candidate =
     (case PostalCode (Location candidate) of
        None \<Rightarrow> 0 | Some pc \<Rightarrow> prefix_points (pc_Code pc) (Evidence candidate))"

definition raw_points :: "admin_candidate \<Rightarrow> int" where
  "raw_points candidate =
     (let loc = Location candidate; matched = getMatchedLevels candidate in
        (if has_resolved candidate then 10 else 0)
      + (if \<not> has_hierarchy_conflict candidate \<and> City loc \<noteq> None then 15 else 0)
      + (if PostalCode loc \<noteq> None then 5 + postal_points candidate else 0)
      + (if PROVINCE \<in> matched then 15 else 0)
      + (if CITY \<in> matched then 12 else 0)
      + (if DISTRICT \<in> matched then 8 else 0)
      + (if SUBDISTRICT \<in> matched then 5 else 0)
      + bonus_points candidate)"

definition confidence_points :: "admin_candidate \<Rightarrow> nat \<Rightarrow> int" where
  "confidence_points candidate unused = min 100 (raw_points candidate) - 3 * int unused"

section \<open>The bonus\<close>

definition bonus_inv :: "float64 \<Rightarrow> int \<Rightarrow> bool" where
  "bonus_inv b s \<longleftrightarrow> 0 \<le> s \<and> 5 dvd s \<and>
     (if s \<le> 40 then \<bar>b - of_int s / 100\<bar> \<le> of_int s / 2 ^ 50 else 44 / 100 \<le> b)"

lemma rnd_hundredths: "0 \<le> w \<Longrightarrow> w \<le> 100 \<Longrightarrow> \<bar>rnd (of_int w / 100) - of_int w / 100\<bar> \<le> 1 / 2 ^ 50"
  by (rule rnd_near1) (simp add: abs_le_iff)

lemma fadd_error: "\<bar>x + y\<bar> \<le> 8 \<Longrightarrow> \<bar>fadd x y - (x + y)\<bar> \<le> 1 / 2 ^ 50"
  unfolding fadd_def by (rule rnd_near1)

text \<open>The same bounds with a decimal literal, which linear arithmetic can compare.\<close>

lemma tiny: "\<bar>x :: rat\<bar> \<le> 1 / 2 ^ 50 \<Longrightarrow> \<bar>x\<bar> \<le> 1 / 1000000000"
  by simp

lemma tiny_int: "\<bar>x :: rat\<bar> \<le> of_int s / 2 ^ 50 \<Longrightarrow> s \<le> 100 \<Longrightarrow> \<bar>x\<bar> \<le> 1 / 1000000000"
proof -
  assume x: "\<bar>x\<bar> \<le> of_int s / 2 ^ 50" and "s \<le> 100"
  then have "(of_int s :: rat) / 2 ^ 50 \<le> 100 / 2 ^ 50" by (intro divide_right_mono) auto
  also have "\<dots> \<le> 1 / 1000000000" by simp
  finally show ?thesis using x by linarith
qed

lemma rnd_lower: "48 / 100 \<le> x \<Longrightarrow> 44 / 100 \<le> rnd x"
proof -
  assume x: "48 / 100 \<le> x"
  then have "\<bar>x\<bar> / 2 ^ 53 \<le> x / 1000" by simp
  then have "x - x / 1000 \<le> rnd x" using rnd_error [of x] by linarith
  with x show ?thesis by simp
qed

lemma bonus_inv_small:
  assumes "bonus_inv b s" and "s \<le> 40" and "5 \<le> w" and "w \<le> 20"
  shows "\<bar>fadd b (rnd (of_int w / 100)) - of_int (s + w) / 100\<bar> \<le> of_int (s + w) / 2 ^ 50"
proof -
  let ?w = "rnd (of_int w / 100)"
  have b: "\<bar>b - of_int s / 100\<bar> \<le> of_int s / 2 ^ 50" and s: "0 \<le> s"
    using assms(1,2) by (simp_all add: bonus_inv_def)
  have w: "\<bar>?w - of_int w / 100\<bar> \<le> 1 / 2 ^ 50" using assms by (intro rnd_hundredths) auto
  have r: "(0::rat) \<le> of_int s" "(of_int s::rat) \<le> 40" "(5::rat) \<le> of_int w" "(of_int w::rat) \<le> 20"
    using s assms by simp_all
  have "\<bar>b + ?w\<bar> \<le> 8"
    using tiny_int [OF b] tiny [OF w] r assms(2) by linarith
  then have e: "\<bar>fadd b ?w - (b + ?w)\<bar> \<le> 1 / 2 ^ 50" by (rule fadd_error)
  have eq: "(of_int (s + w)::rat) / 100 = of_int s / 100 + of_int w / 100"
    "(of_int (s + w)::rat) / 2 ^ 50 = of_int s / 2 ^ 50 + of_int w / 2 ^ 50"
    by (simp_all add: add_divide_distrib)
  have "(2::rat) / 2 ^ 50 \<le> of_int w / 2 ^ 50" using r by (simp add: divide_right_mono)
  then show ?thesis using b w e unfolding eq by linarith
qed

lemma bonus_inv_step:
  assumes inv: "bonus_inv b s" and w: "w \<in> {5, 10, 15, 20}"
  shows "bonus_inv (fadd b (rnd (of_int w / 100))) (s + w)"
proof -
  have s: "0 \<le> s" "5 dvd s" using inv by (simp_all add: bonus_inv_def)
  have d: "5 dvd s + w" using s w by auto
  show ?thesis
  proof (cases "s \<le> 40")
    case True
    have e: "\<bar>fadd b (rnd (of_int w / 100)) - of_int (s + w) / 100\<bar> \<le> of_int (s + w) / 2 ^ 50"
      using inv True w by (intro bonus_inv_small) auto
    show ?thesis
    proof (cases "s + w \<le> 40")
      case True
      with e s w d show ?thesis by (auto simp: bonus_inv_def)
    next
      case False
      define t where "t = s + w"
      have "s + w \<le> 60" using True w by auto
      then have t: "45 \<le> t" "t \<le> 100" using False d unfolding t_def by presburger+
      have "\<bar>fadd b (rnd (of_int w / 100)) - of_int t / 100\<bar> \<le> 1 / 1000000000"
        using e t unfolding t_def [symmetric] by (intro tiny_int)
      moreover have "(45::rat) \<le> of_int t" using t by simp
      ultimately have "44 / 100 \<le> fadd b (rnd (of_int w / 100))" by linarith
      with False s w d show ?thesis by (auto simp: bonus_inv_def)
    qed
  next
    case False
    then have b: "44 / 100 \<le> b" using inv by (simp add: bonus_inv_def)
    have "\<bar>rnd (of_int w / 100) - of_int w / 100\<bar> \<le> 1 / 1000000000"
      using w by (intro tiny rnd_hundredths) auto
    moreover have "(5::rat) \<le> of_int w" using w by auto
    ultimately have "48 / 100 \<le> b + rnd (of_int w / 100)" using b by linarith
    then have "44 / 100 \<le> fadd b (rnd (of_int w / 100))"
      unfolding fadd_def by (rule rnd_lower)
    with False s w d show ?thesis by (auto simp: bonus_inv_def)
  qed
qed

lemma multi_weight_points:
  "multi_weight l = (if multi_points l = 0 then None else Some (rnd (of_int (multi_points l) / 100)))"
  by (simp add: multi_weight_def multi_points_def weight_defs)

lemma multi_points_range: "multi_points l \<in> {0, 5, 10, 15, 20}"
  by (simp add: multi_points_def)

lemma bonus_loop_inv:
  "bonus_inv b s \<Longrightarrow> bonus_inv (bonus_loop levelOf b counts) (s + multi_sum levelOf counts)"
proof (induction levelOf b counts arbitrary: s rule: bonus_loop.induct)
  case (1 levelOf b)
  then show ?case by (simp add: multi_sum_def)
next
  case (2 levelOf b i cnt rest)
  let ?p = "multi_points (levelOf i)"
  show ?case
  proof (cases "cnt < 2 \<or> ?p = 0")
    case True
    then have "bonus_loop levelOf b ((i, cnt) # rest) = bonus_loop levelOf b rest"
      by (auto simp: multi_weight_points)
    moreover have "multi_sum levelOf ((i, cnt) # rest) = multi_sum levelOf rest"
      using True by (auto simp: multi_sum_def)
    moreover have "bonus_inv (bonus_loop levelOf b rest) (s + multi_sum levelOf rest)"
      using True 2 by (cases "cnt < 2") (auto simp: multi_weight_points)
    ultimately show ?thesis by simp
  next
    case False
    then have "?p \<in> {5, 10, 15, 20}" using multi_points_range [of "levelOf i"] by auto
    then have "bonus_inv (fadd b (rnd (of_int ?p / 100))) (s + ?p)"
      using "2.prems" by (intro bonus_inv_step)
    with False have "bonus_inv (bonus_loop levelOf (fadd b (rnd (of_int ?p / 100))) rest)
        (s + ?p + multi_sum levelOf rest)"
      by (intro "2.IH"(3)) (simp_all add: multi_weight_points)
    with False show ?thesis
      by (simp add: multi_weight_points multi_sum_def add.assoc)
  qed
qed

lemma multi_sum_order: "is_order ord \<Longrightarrow> multi_sum levelOf (ord counts) = multi_sum levelOf counts"
proof -
  let ?f = "\<lambda>(i, cnt). if cnt < 2 then 0 else multi_points (levelOf i)"
  assume "is_order ord"
  then have "mset (map ?f (ord counts)) = mset (map ?f counts)" by (simp add: is_order_mset)
  then show ?thesis unfolding multi_sum_def by (metis sum_mset_sum_list)
qed

lemma basis_points_hundredths: "basis_points (100 * k) = rnd (of_int k / 100)"
  by (simp add: basis_points_def)

lemma cap_near:
  assumes "bonus_inv b s"
  shows "\<bar>(if MaxMultiEvidenceBonus < b then MaxMultiEvidenceBonus else b) - of_int (min 40 s) / 100\<bar>
    \<le> 1 / 10 ^ 5"
proof -
  have m: "\<bar>MaxMultiEvidenceBonus - 40 / 100\<bar> \<le> 1 / 1000000000"
    using tiny [OF rnd_hundredths [of 40]] by (simp add: weight_defs)
  have m': "\<bar>MaxMultiEvidenceBonus - 40 / 100\<bar> \<le> 1 / 10 ^ 5" by (rule order_trans [OF m]) simp
  show ?thesis
  proof (cases "s \<le> 40")
    case False
    then have "44 / 100 \<le> b" using assms by (simp add: bonus_inv_def)
    with m have "MaxMultiEvidenceBonus < b" by linarith
    with m' False show ?thesis by simp
  next
    case True
    then have b: "\<bar>b - of_int s / 100\<bar> \<le> 1 / 1000000000"
      using assms by (intro tiny_int [where s = s]) (simp_all add: bonus_inv_def)
    have b': "\<bar>b - of_int s / 100\<bar> \<le> 1 / 10 ^ 5" by (rule order_trans [OF b]) simp
    show ?thesis
    proof (cases "MaxMultiEvidenceBonus < b")
      case capped: True
      have "39 < s"
      proof (rule ccontr)
        assume "\<not> 39 < s"
        then have "(of_int s :: rat) \<le> 39" by simp
        with b m capped show False by linarith
      qed
      with True have "s = 40" by simp
      with m' capped show ?thesis by simp
    next
      case False
      with b' True show ?thesis by (simp add: min_def)
    qed
  qed
qed

lemma multi_sum_nonneg: "0 \<le> multi_sum levelOf counts"
  unfolding multi_sum_def by (rule sum_list_nonneg) (auto simp: multi_points_def)

lemma bonus_points_bounds: "0 \<le> bonus_points candidate" "bonus_points candidate \<le> 40"
  by (simp_all add: bonus_points_def multi_sum_nonneg)

lemma multiEvidenceBonus_exact:
  assumes "is_order ord"
  shows "multiEvidenceBonus ord candidate = rnd (of_int (bonus_points candidate) / 100)"
proof -
  let ?l = "evidence_levels Map.empty (Evidence candidate)"
  let ?c = "evidence_counts [] (Evidence candidate)"
  have "bonus_inv 0 0" by (simp add: bonus_inv_def)
  from bonus_loop_inv [OF this, of ?l "ord ?c"]
  have "bonus_inv (bonus_loop ?l 0 (ord ?c)) (multi_sum ?l ?c)"
    by (simp add: multi_sum_order assms)
  from cap_near [OF this]
  have "\<bar>(if MaxMultiEvidenceBonus < bonus_loop ?l 0 (ord ?c) then MaxMultiEvidenceBonus
      else bonus_loop ?l 0 (ord ?c)) - of_int (100 * bonus_points candidate) / 10000\<bar> \<le> 1 / 10 ^ 5"
    unfolding bonus_points_def by simp
  then have "round4 (if MaxMultiEvidenceBonus < bonus_loop ?l 0 (ord ?c) then MaxMultiEvidenceBonus
      else bonus_loop ?l 0 (ord ?c)) = basis_points (100 * bonus_points candidate)"
    by (rule round4_near) (use bonus_points_bounds [of candidate] in simp)
  then show ?thesis by (simp only: multiEvidenceBonus_def Let_def basis_points_hundredths)
qed

section \<open>The score\<close>

text \<open>
  \<open>score_inv n x p\<close>: after at most \<open>n\<close> units of error the float \<open>x\<close> stands for \<open>p\<close>
  hundredths.
\<close>

definition score_inv :: "nat \<Rightarrow> float64 \<Rightarrow> int \<Rightarrow> bool" where
  "score_inv n x p \<longleftrightarrow> near n x (of_int p / 100) \<and> 0 \<le> p \<and> p \<le> 20 * int n"

lemma score_inv_0: "score_inv 0 0 0"
  by (simp add: score_inv_def near_def)

lemma score_inv_add:
  assumes "score_inv n x p" and "0 \<le> w" and "w \<le> 40" and "n \<le> 18"
  shows "score_inv (n + 2) (fadd x (rnd (of_int w / 100))) (p + w)"
proof -
  have x: "near n x (of_int p / 100)" and p: "0 \<le> p" "p \<le> 360"
    using assms(1,4) by (auto simp: score_inv_def)
  have w: "near 1 (rnd (of_int w / 100)) (of_int w / 100)"
    using assms(2,3) by (intro near_rnd) (simp add: abs_le_iff)
  have r: "\<bar>of_int p / 100 + of_int w / 100 :: rat\<bar> \<le> 4"
  proof -
    have "(0::rat) \<le> of_int p" "(of_int p::rat) \<le> 360" "(0::rat) \<le> of_int w" "(of_int w::rat) \<le> 40"
      using p assms(2,3) by simp_all
    then show ?thesis by simp
  qed
  have "near (Suc (n + 1)) (fadd x (rnd (of_int w / 100))) (of_int p / 100 + of_int w / 100)"
    using assms(4) by (intro near_fadd [OF x w r]) simp
  then show ?thesis
    using assms p by (simp add: score_inv_def add_divide_distrib)
qed

lemma score_inv_weaken: "score_inv n x p \<Longrightarrow> n \<le> m \<Longrightarrow> score_inv m x p"
  by (auto simp: score_inv_def intro: near_mono)

lemma score_inv_if:
  assumes "score_inv n x p" and "0 \<le> w" and "w \<le> 40" and "n \<le> 18"
  shows "score_inv (n + 2) (if b then fadd x (rnd (of_int w / 100)) else x) (p + (if b then w else 0))"
  using assms score_inv_add score_inv_weaken [of n x p "n + 2"] by simp

lemma prefix_points_exact: "postalPrefix_loop code mes = rnd (of_int (prefix_points code mes) / 100)"
  by (induction code mes rule: postalPrefix_loop.induct) (simp_all add: Let_def weight_defs)

lemma prefix_points_range: "prefix_points code mes \<in> {0, 7, 10, 20}"
  by (induction code mes rule: prefix_points.induct) (simp_all add: Let_def)

lemma postal_points_exact: "scorePostalCodePrefix candidate = rnd (of_int (postal_points candidate) / 100)"
  by (simp add: scorePostalCodePrefix_def postal_points_def prefix_points_exact split: option.split)

lemma postal_points_range: "postal_points candidate \<in> {0, 7, 10, 20}"
  using prefix_points_range by (simp add: postal_points_def split: option.split)

text \<open>The score before it is cut off at 1.\<close>

definition raw_score :: "(int64 \<times> nat) order \<Rightarrow> admin_candidate \<Rightarrow> float64" where
  "raw_score ord candidate =
     (let loc = Location candidate;
          score = 0;
          score = (if has_resolved candidate then fadd score WeightExactMatch else score);
          score = (if \<not> has_hierarchy_conflict candidate \<and> City loc \<noteq> None
                   then fadd score WeightHierarchy else score);
          score = (if PostalCode loc \<noteq> None then fadd score WeightPostalCode else score);
          score = (if PostalCode loc \<noteq> None then fadd score (scorePostalCodePrefix candidate)
                   else score);
          matched = getMatchedLevels candidate;
          score = (if PROVINCE \<in> matched then fadd score WeightProvince else score);
          score = (if CITY \<in> matched then fadd score WeightCity else score);
          score = (if DISTRICT \<in> matched then fadd score WeightDistrict else score);
          score = (if SUBDISTRICT \<in> matched then fadd score WeightSubDistrict else score)
      in fadd score (multiEvidenceBonus ord candidate))"

lemma scoreConfidence_raw:
  "scoreConfidence ord candidate unused hasEvidence =
     (let score = (if 1 < raw_score ord candidate then 1 else raw_score ord candidate)
      in round4 (if hasEvidence \<and> 0 < length unused
           then fsub score (fmul (float_of_int (int (length unused))) WeightUsedEvidenceBonus)
           else score))"
  unfolding scoreConfidence_def raw_score_def Let_def by (simp cong: if_cong)

lemma raw_score_inv:
  assumes "is_order ord"
  shows "score_inv 18 (raw_score ord candidate) (raw_points candidate)"
proof -
  have q: "0 \<le> postal_points candidate" "postal_points candidate \<le> 40"
    using postal_points_range [of candidate] by auto
  note b = bonus_points_bounds [of candidate]
  have eq: "raw_points candidate =
      0 + (if has_resolved candidate then 10 else 0)
      + (if \<not> has_hierarchy_conflict candidate \<and> City (Location candidate) \<noteq> None then 15 else 0)
      + (if PostalCode (Location candidate) \<noteq> None then 5 else 0)
      + (if PostalCode (Location candidate) \<noteq> None then postal_points candidate else 0)
      + (if PROVINCE \<in> getMatchedLevels candidate then 15 else 0)
      + (if CITY \<in> getMatchedLevels candidate then 12 else 0)
      + (if DISTRICT \<in> getMatchedLevels candidate then 8 else 0)
      + (if SUBDISTRICT \<in> getMatchedLevels candidate then 5 else 0)
      + bonus_points candidate"
    by (simp add: raw_points_def Let_def)
  have w: "WeightExactMatch = rnd (of_int 10 / 100)" "WeightHierarchy = rnd (of_int 15 / 100)"
    "WeightPostalCode = rnd (of_int 5 / 100)" "WeightProvince = rnd (of_int 15 / 100)"
    "WeightCity = rnd (of_int 12 / 100)" "WeightDistrict = rnd (of_int 8 / 100)"
    "WeightSubDistrict = rnd (of_int 5 / 100)"
    by (simp_all add: weight_defs)
  have eighteen: "(18::nat) = 0 + 2 + 2 + 2 + 2 + 2 + 2 + 2 + 2 + 2" by simp
  show ?thesis
    unfolding raw_score_def Let_def eq w postal_points_exact multiEvidenceBonus_exact [OF assms]
      eighteen
    by (intro score_inv_add score_inv_if score_inv_0) (use q b in simp_all)
qed

lemma capped_score:
  assumes "score_inv 18 x p"
  shows "\<bar>(if 1 < x then 1 else x) - of_int (min 100 p) / 100\<bar> \<le> 1 / 1000000000"
proof -
  have e: "\<bar>x - of_int p / 100\<bar> \<le> 1 / 1000000000"
    using assms by (simp add: score_inv_def near_def)
  consider "p \<le> 99" | "p = 100" | "101 \<le> p" by linarith
  then show ?thesis
  proof cases
    case 1
    then have "(of_int p :: rat) \<le> 99" by simp
    with e have "\<not> 1 < x" by linarith
    with e 1 show ?thesis by simp
  next
    case 2
    then have "min 100 p = 100" by simp
    then show ?thesis using e 2 by (cases "1 < x") simp_all
  next
    case 3
    then have "(101 :: rat) \<le> of_int p" by simp
    with e have "1 < x" by linarith
    with 3 show ?thesis by simp
  qed
qed

lemma unused_term:
  assumes "n \<le> 2 ^ 30"
  shows "\<bar>fmul (float_of_int (int n)) WeightUsedEvidenceBonus - of_int (3 * int n) / 100\<bar> \<le> 1 / 1000000"
proof -
  have n: "(of_nat n :: rat) \<le> 2 ^ 30" using assms by (metis of_nat_le_iff of_nat_numeral of_nat_power)
  have f: "float_of_int (int n) = of_nat n"
    using assms float_of_int_exact [of "int n"] by simp
  have w: "\<bar>WeightUsedEvidenceBonus - 3 / 100\<bar> \<le> 3 / 100 / 2 ^ 53"
    using rnd_error [of "3 / 100"] by (simp add: weight_defs)
  let ?y = "of_nat n * WeightUsedEvidenceBonus"
  have "\<bar>?y - of_nat n * (3 / 100)\<bar> = of_nat n * \<bar>WeightUsedEvidenceBonus - 3 / 100\<bar>"
    by (simp only: abs_mult abs_of_nat flip: right_diff_distrib)
  also have "\<dots> \<le> 2 ^ 30 * (3 / 100 / 2 ^ 53)" using n w by (intro mult_mono) auto
  finally have y: "\<bar>?y - of_nat n * (3 / 100)\<bar> \<le> 1 / 10000000" by simp
  moreover have "of_nat n * (3 / 100 :: rat) \<le> 2 ^ 30" using n by simp
  moreover have "(0 :: rat) \<le> of_nat n * (3 / 100)" by simp
  ultimately have "\<bar>?y\<bar> \<le> 2 ^ 30 + 1 / 10000000" by linarith
  then have "\<bar>?y\<bar> \<le> 2 ^ 31" by (rule order_trans) simp
  then have "\<bar>?y\<bar> / 2 ^ 53 \<le> 2 ^ 31 / 2 ^ 53" by (rule divide_right_mono) simp
  then have "\<bar>rnd ?y - ?y\<bar> \<le> 3 / 10000000" using rnd_error [of ?y] by simp
  with y have "\<bar>rnd ?y - of_nat n * (3 / 100)\<bar> \<le> 1 / 1000000" by linarith
  then show ?thesis by (simp add: fmul_def f mult.commute)
qed

lemma subtract_unused:
  assumes x: "\<bar>x - of_int p / 100\<bar> \<le> 1 / 1000000000" and p: "0 \<le> p" "p \<le> 100" and n: "n \<le> 2 ^ 30"
  shows "\<bar>fsub x (fmul (float_of_int (int n)) WeightUsedEvidenceBonus) - of_int (p - 3 * int n) / 100\<bar>
    \<le> 1 / 10 ^ 5"
proof -
  let ?t = "fmul (float_of_int (int n)) WeightUsedEvidenceBonus"
  define m where "m = 3 * int n"
  have t: "\<bar>?t - of_int m / 100\<bar> \<le> 1 / 1000000" unfolding m_def by (rule unused_term [OF n])
  have m: "0 \<le> m" "m \<le> 4294967296" using n by (simp_all add: m_def)
  have mr: "(0::rat) \<le> of_int m" "(of_int m::rat) \<le> 4294967296" using m by simp_all
  have pr: "(0::rat) \<le> of_int p" "(of_int p::rat) \<le> 100" using p by simp_all
  have "\<bar>x - ?t\<bar> \<le> 4294967296" using x t mr pr by linarith
  then have "\<bar>x - ?t\<bar> \<le> 2 ^ 32" by simp
  then have "\<bar>x - ?t\<bar> / 2 ^ 53 \<le> 2 ^ 32 / 2 ^ 53" by (rule divide_right_mono) simp
  then have "\<bar>fsub x ?t - (x - ?t)\<bar> \<le> 1 / 1000000"
    using rnd_error [of "x - ?t"] unfolding fsub_def by simp
  then have "\<bar>fsub x ?t - (of_int p / 100 - of_int m / 100)\<bar> \<le> 1 / 100000"
    using x t by linarith
  then show ?thesis by (simp add: m_def diff_divide_distrib)
qed

section \<open>Properties\<close>

text \<open>
  A candidate for the witnesses: Citarum in Bandung Wetan, Kota Bandung, Jawa Barat, with
  the city and the sub-district matched, the city twice, and the postal code of the input.
\<close>

definition sample_city :: entity where
  "sample_city = \<lparr>ent_ID = 2, ent_Name = ''Kota Bandung'', ent_Level = CITY, ent_PostalCode = []\<rparr>"

definition sample_subdistrict :: entity where
  "sample_subdistrict =
     \<lparr>ent_ID = 4, ent_Name = ''Citarum'', ent_Level = SUBDISTRICT, ent_PostalCode = ''40115''\<rparr>"

definition sample_location :: admin_location where
  "sample_location = empty_admin_location
     \<lparr>Province := Some \<lparr>p_ID = 1, p_Name = ''Jawa Barat'', p_NormalizedName = ''jawa barat''\<rparr>,
      City := Some \<lparr>ct_ID = 2, ct_Name = ''Kota Bandung'', ct_NormalizedName = ''bandung'', ct_PostalCode = []\<rparr>,
      District := Some \<lparr>d_ID = 3, d_Name = ''Bandung Wetan'', d_NormalizedName = ''bandung wetan''\<rparr>,
      SubDistrict := Some \<lparr>s_ID = 4, s_Name = ''Citarum'', s_NormalizedName = ''citarum'', s_PostalCode = ''40115''\<rparr>,
      PostalCode := Some \<lparr>pc_ID = 4, pc_Code = ''40115'', pc_Name = []\<rparr>\<rparr>"

definition sample_candidate :: admin_candidate where
  "sample_candidate = \<lparr>cand_UUID = ''u1'', OriginLevel = OriginSubDistrict, Location = sample_location,
     Evidence = [\<lparr>me_Evidence = \<lparr>ev_Type = EvidencePostalCode, ev_Value = ''40115''\<rparr>, me_Resolved = Some sample_subdistrict\<rparr>,
       \<lparr>me_Evidence = \<lparr>ev_Type = EvidencePlaceName, ev_Value = ''citarum''\<rparr>, me_Resolved = Some sample_subdistrict\<rparr>,
       \<lparr>me_Evidence = \<lparr>ev_Type = EvidencePlaceName, ev_Value = ''bandung''\<rparr>, me_Resolved = Some sample_city\<rparr>],
     DiscoveryStrategies = [DiscoveryTopDown]\<rparr>"

lemmas sample_defs = sample_candidate_def sample_location_def sample_city_def
  sample_subdistrict_def empty_admin_location_def

lemma confidence_exact:
  assumes "is_order ord" and "length unused \<le> 2 ^ 30"
  shows "scoreConfidence ord candidate unused hasEvidence =
    basis_points (100 * confidence_points candidate (if hasEvidence then length unused else 0))"
proof -
  let ?n = "if hasEvidence then length unused else 0"
  define x where "x = (if 1 < raw_score ord candidate then 1 else raw_score ord candidate)"
  define p where "p = min 100 (raw_points candidate)"
  have inv: "score_inv 18 (raw_score ord candidate) (raw_points candidate)"
    by (rule raw_score_inv [OF assms(1)])
  have x: "\<bar>x - of_int p / 100\<bar> \<le> 1 / 1000000000"
    unfolding x_def p_def by (rule capped_score [OF inv])
  have p: "0 \<le> p" "p \<le> 100" using inv by (simp_all add: p_def score_inv_def)
  have k: "confidence_points candidate ?n = p - 3 * int ?n"
    by (simp add: confidence_points_def p_def)
  define y where "y = (if hasEvidence \<and> 0 < length unused
      then fsub x (fmul (float_of_int (int (length unused))) WeightUsedEvidenceBonus) else x)"
  have "\<bar>y - of_int (p - 3 * int ?n) / 100\<bar> \<le> 1 / 10 ^ 5"
  proof (cases "hasEvidence \<and> 0 < length unused")
    case True
    then show ?thesis using subtract_unused [OF x p assms(2)] by (simp add: y_def)
  next
    case False
    then have "y = x" and "?n = 0" by (auto simp: y_def)
    with x show ?thesis by simp
  qed
  then have "\<bar>y - of_int (100 * confidence_points candidate ?n) / 10000\<bar> \<le> 1 / 10 ^ 5"
    unfolding k by (simp only: of_int_mult of_int_numeral)
  moreover have "\<bar>100 * confidence_points candidate ?n\<bar> \<le> 2 ^ 40"
    unfolding k using p assms(2) by auto
  ultimately have "round4 y = basis_points (100 * confidence_points candidate ?n)"
    by (rule round4_near)
  then show ?thesis unfolding scoreConfidence_raw Let_def y_def x_def .
qed

text \<open>
  C2. The floating-point score is exact: for every order in which the runtime ranges over
  the evidence counts, \<open>scoreConfidence\<close> returns the float nearest to a whole number of
  hundredths, the sum of the weights cut off at 100 minus 3 for every unused item.
\<close>

theorem scoreConfidence_exact:
  assumes "is_order ord" and "length unused \<le> 2 ^ 30"
  shows "scoreConfidence ord candidate unused hasEvidence =
    basis_points (100 * confidence_points candidate (if hasEvidence then length unused else 0))"
  using assms by (rule confidence_exact)

lemma sample_points: "confidence_points sample_candidate 1 = 69"
  by code_simp

theorem scoreConfidence_exact_witness:
  "scoreConfidence rev sample_candidate [\<lparr>ev_Type = EvidencePlaceName, ev_Value = ''supratman''\<rparr>] True
     = basis_points 6900"
  by (subst scoreConfidence_exact) (simp_all add: sample_points [simplified])

text \<open>
  Bounds: a confidence is at most 1, and at least -0.03 for every unused item of
  evidence (so it is never negative when all evidence is used).
\<close>

theorem scoreConfidence_bounds:
  assumes "is_order ord" and "length unused \<le> 2 ^ 30"
  shows "scoreConfidence ord candidate unused hasEvidence \<le> 1 \<and>
    basis_points (- 300 * int (length unused)) \<le> scoreConfidence ord candidate unused hasEvidence"
proof -
  let ?n = "if hasEvidence then length unused else 0"
  let ?k = "100 * confidence_points candidate ?n"
  have raw: "0 \<le> raw_points candidate"
    using raw_score_inv [OF assms(1)] by (simp add: score_inv_def)
  have n: "int (length unused) \<le> 2 ^ 30" using assms(2) by simp
  have k: "- 300 * int (length unused) \<le> ?k" "?k \<le> 10000"
    using raw by (simp_all add: confidence_points_def)
  have "\<not> basis_points 10000 < basis_points ?k"
    "\<not> basis_points ?k < basis_points (- 300 * int (length unused))"
    using k n by (subst basis_points_less_iff; auto)+
  with confidence_exact [OF assms] show ?thesis by simp
qed

theorem scoreConfidence_bounds_witness:
  "scoreConfidence rev sample_candidate [\<lparr>ev_Type = EvidencePlaceName, ev_Value = ''supratman''\<rparr>] True \<le> 1"
  using scoreConfidence_bounds [of rev "[\<lparr>ev_Type = EvidencePlaceName, ev_Value = ''supratman''\<rparr>]"
      sample_candidate True] by simp

end
