(* ===== verification/Evaluate_Laws.thy ===== *)
theory Evaluate_Laws
  imports Evaluate
begin

text \<open>
  What \<open>EvaluateCandidate\<close> decides, read without its loops: a declarative notion of a
  consistent candidate, the status as a function of it, the shape of the result, and the
  meaning of the reasons.
\<close>

section \<open>The level of a location\<close>

definition level_id :: "admin_location \<Rightarrow> gostring \<Rightarrow> int64 option" where
  "level_id loc l =
     (if l = PROVINCE then map_option p_ID (Province loc)
      else if l = CITY then map_option ct_ID (City loc)
      else if l = DISTRICT then map_option d_ID (District loc)
      else if l = SUBDISTRICT then map_option s_ID (SubDistrict loc)
      else None)"

lemma level_id_simps [simp]:
  "level_id loc PROVINCE = map_option p_ID (Province loc)"
  "level_id loc CITY = map_option ct_ID (City loc)"
  "level_id loc DISTRICT = map_option d_ID (District loc)"
  "level_id loc SUBDISTRICT = map_option s_ID (SubDistrict loc)"
  by (simp_all add: level_id_def)

lemma level_id_Conflicts [simp]: "level_id (loc\<lparr>Conflicts := cs\<rparr>) l = level_id loc l"
  by (simp add: level_id_def)

lemma level_id_Some_level:
  "level_id loc l = Some i \<Longrightarrow> l \<in> {PROVINCE, CITY, DISTRICT, SUBDISTRICT}"
  by (auto simp: level_id_def split: if_splits)

section \<open>The only effect is to append conflicts\<close>

definition add_conflicts :: "admin_candidate \<Rightarrow> conflict list \<Rightarrow> admin_candidate" where
  "add_conflicts c cs = c\<lparr>Location := (Location c)\<lparr>Conflicts := Conflicts (Location c) @ cs\<rparr>\<rparr>"

lemma add_conflicts_Nil [simp]: "add_conflicts c [] = c"
  by (simp add: add_conflicts_def)

lemma add_conflicts_append [simp]: "add_conflicts (add_conflicts c cs) ds = add_conflicts c (cs @ ds)"
  by (simp add: add_conflicts_def)

lemma add_conflicts_simps [simp]:
  "Province (Location (add_conflicts c cs)) = Province (Location c)"
  "City (Location (add_conflicts c cs)) = City (Location c)"
  "District (Location (add_conflicts c cs)) = District (Location c)"
  "SubDistrict (Location (add_conflicts c cs)) = SubDistrict (Location c)"
  "PostalCode (Location (add_conflicts c cs)) = PostalCode (Location c)"
  "Conflicts (Location (add_conflicts c cs)) = Conflicts (Location c) @ cs"
  "Evidence (add_conflicts c cs) = Evidence c"
  "level_id (Location (add_conflicts c cs)) l = level_id (Location c) l"
  "location_levels (Location (add_conflicts c cs)) = location_levels (Location c)"
  by (simp_all add: add_conflicts_def location_levels_def)

lemma addConflict_add: "addConflict c t m = add_conflicts c [\<lparr>c_Type = t, c_Message = m\<rparr>]"
  by (simp add: addConflict_def add_conflicts_def)

section \<open>A consistent candidate\<close>

definition broken_link ::
  "(int64 \<rightharpoonup> int64) \<Rightarrow> int64 option \<Rightarrow> int64 option \<Rightarrow> bool" where
  "broken_link parent child actual \<longleftrightarrow>
     (case (child, actual) of (Some c, Some p) \<Rightarrow> get0 parent c \<noteq> p | _ \<Rightarrow> False)"

definition links_ok :: "hierarchy_map option \<Rightarrow> admin_location \<Rightarrow> bool" where
  "links_ok hierarchy loc \<longleftrightarrow>
     (case hierarchy of None \<Rightarrow> True
      | Some h \<Rightarrow>
          \<not> broken_link (CityToProvince h) (level_id loc CITY) (level_id loc PROVINCE)
        \<and> \<not> broken_link (DistrictToCity h) (level_id loc DISTRICT) (level_id loc CITY)
        \<and> \<not> broken_link (SubDistrictToDist h) (level_id loc SUBDISTRICT) (level_id loc DISTRICT))"

definition postal_ok :: "admin_location \<Rightarrow> bool" where
  "postal_ok loc \<longleftrightarrow>
     (case (PostalCode loc, SubDistrict loc) of (Some pc, Some s) \<Rightarrow> pc_ID pc = s_ID s | _ \<Rightarrow> True)"

definition no_orphan :: "admin_location \<Rightarrow> bool" where
  "no_orphan loc \<longleftrightarrow>
     City loc = None \<or> Province loc \<noteq> None \<or> (District loc = None \<and> SubDistrict loc = None)"

definition evidence_agrees :: "admin_location \<Rightarrow> matched_evidence \<Rightarrow> bool" where
  "evidence_agrees loc me \<longleftrightarrow>
     (case me_Resolved me of None \<Rightarrow> True
      | Some e \<Rightarrow> level_id loc (ent_Level e) \<in> {None, Some (ent_ID e)})"

definition consistent :: "hierarchy_map option \<Rightarrow> admin_candidate \<Rightarrow> bool" where
  "consistent hierarchy c \<longleftrightarrow>
     links_ok hierarchy (Location c) \<and> postal_ok (Location c) \<and> no_orphan (Location c)
   \<and> list_all (evidence_agrees (Location c)) (Evidence c)"

section \<open>The hierarchy check\<close>

definition hierarchy_conflicts :: "hierarchy_map option \<Rightarrow> admin_location \<Rightarrow> conflict list" where
  "hierarchy_conflicts hierarchy loc =
     Conflicts (Location (evaluateHierarchy
       \<lparr>cand_UUID = [], OriginLevel = OriginCity, Location = loc\<lparr>Conflicts := []\<rparr>,
        Evidence = [], DiscoveryStrategies = []\<rparr> hierarchy))"

lemma evaluateHierarchy_add:
  "evaluateHierarchy c hierarchy = add_conflicts c (hierarchy_conflicts hierarchy (Location c))"
  by (auto simp: evaluateHierarchy_def hierarchy_conflicts_def addConflict_add Let_def
      split: option.split)

lemma hierarchy_conflicts_Nil: "hierarchy_conflicts hierarchy loc = [] \<longleftrightarrow> links_ok hierarchy loc"
  by (auto simp: hierarchy_conflicts_def evaluateHierarchy_def links_ok_def broken_link_def
      addConflict_add Let_def split: option.split)

lemma hierarchy_conflicts_single: "length (hierarchy_conflicts hierarchy loc) \<le> 1"
  by (auto simp: hierarchy_conflicts_def evaluateHierarchy_def addConflict_add Let_def
      split: option.split)

lemma hierarchy_conflicts_type:
  "c \<in> set (hierarchy_conflicts hierarchy loc) \<Longrightarrow> c_Type c = ''hierarchy_conflict''"
  by (auto simp: hierarchy_conflicts_def evaluateHierarchy_def addConflict_add Let_def
      split: option.splits if_splits)

section \<open>The evidence checks\<close>

text \<open>An item disagrees at the levels \<open>ls\<close> if it names another entity of such a level.\<close>

definition agrees_at :: "gostring set \<Rightarrow> admin_location \<Rightarrow> matched_evidence \<Rightarrow> bool" where
  "agrees_at ls loc me \<longleftrightarrow>
     evidence_agrees loc me
   \<or> (case me_Resolved me of None \<Rightarrow> True | Some e \<Rightarrow> ent_Level e \<notin> ls)"

definition seen_entity :: "int64 set \<Rightarrow> matched_evidence \<Rightarrow> bool" where
  "seen_entity seen me \<longleftrightarrow> (case me_Resolved me of None \<Rightarrow> False | Some e \<Rightarrow> ent_ID e \<in> seen)"

definition city_conflict :: "admin_location \<Rightarrow> entity \<Rightarrow> conflict list" where
  "city_conflict loc e =
     (case City loc of None \<Rightarrow> []
      | Some c \<Rightarrow> if ent_ID e \<noteq> ct_ID c
          then [\<lparr>c_Type = ''multiple_city'', c_Message = ''multiple city candidates: '' @ ent_Name e\<rparr>]
          else [])"

fun city_conflicts :: "int64 set \<Rightarrow> admin_location \<Rightarrow> matched_evidence list \<Rightarrow> conflict list" where
  "city_conflicts seen loc [] = []"
| "city_conflicts seen loc (me # mes) =
     (case me_Resolved me of
        None \<Rightarrow> city_conflicts seen loc mes
      | Some e \<Rightarrow>
          if ent_Level e \<noteq> CITY \<or> ent_ID e \<in> seen then city_conflicts seen loc mes
          else city_conflict loc e @ city_conflicts (insert (ent_ID e) seen) loc mes)"

lemma city_conflicts_cong:
  "City loc = City loc' \<Longrightarrow> city_conflicts seen loc mes = city_conflicts seen loc' mes"
  by (induction seen loc mes rule: city_conflicts.induct)
    (auto simp: city_conflict_def split: option.split)

lemma multipleCities_loop_add:
  "multipleCities_loop seen mes c = add_conflicts c (city_conflicts seen (Location c) mes)"
proof (induction mes arbitrary: seen c)
  case (Cons me mes)
  have cong: "city_conflicts seen (Location (add_conflicts c cs)) mes
      = city_conflicts seen (Location c) mes" for seen cs
    by (rule city_conflicts_cong) simp
  show ?case
  proof (cases "me_Resolved me")
    case (Some e)
    have "(case City (Location c) of None \<Rightarrow> c
        | Some ct \<Rightarrow> if ent_ID e \<noteq> ct_ID ct then addConflict c ''multiple_city''
            (''multiple city candidates: '' @ ent_Name e) else c)
      = add_conflicts c (city_conflict (Location c) e)"
      by (simp add: city_conflict_def addConflict_add split: option.split)
    with Some show ?thesis by (simp add: Cons.IH cong)
  qed (simp add: Cons.IH)
qed simp

lemma city_conflict_Nil:
  "me_Resolved me = Some e \<Longrightarrow> ent_Level e = CITY \<Longrightarrow>
     city_conflict loc e = [] \<longleftrightarrow> agrees_at {CITY} loc me"
  by (auto simp: city_conflict_def agrees_at_def evidence_agrees_def split: option.split)

lemma city_conflicts_Nil:
  "city_conflicts seen loc mes = [] \<longleftrightarrow>
     list_all (\<lambda>me. seen_entity seen me \<or> agrees_at {CITY} loc me) mes"
proof (induction seen loc mes rule: city_conflicts.induct)
  case (2 seen loc me mes)
  show ?case
  proof (cases "me_Resolved me")
    case None
    with 2 show ?thesis by (simp add: agrees_at_def)
  next
    case (Some e)
    show ?thesis
    proof (cases "ent_Level e \<noteq> CITY \<or> ent_ID e \<in> seen")
      case True
      with 2 Some show ?thesis by (auto simp: agrees_at_def seen_entity_def)
    next
      case False
      have same: "seen_entity (insert (ent_ID e) seen) me' \<or> agrees_at {CITY} loc me' \<longleftrightarrow>
          seen_entity seen me' \<or> agrees_at {CITY} loc me'"
        if "agrees_at {CITY} loc me" for me'
        using that Some False
        by (auto simp: seen_entity_def agrees_at_def evidence_agrees_def split: option.splits)
      from 2 Some False have IH: "city_conflicts (insert (ent_ID e) seen) loc mes = [] \<longleftrightarrow>
          list_all (\<lambda>me. seen_entity (insert (ent_ID e) seen) me \<or> agrees_at {CITY} loc me) mes"
        by simp
      have "city_conflicts seen loc (me # mes) = [] \<longleftrightarrow> agrees_at {CITY} loc me \<and>
          list_all (\<lambda>me. seen_entity (insert (ent_ID e) seen) me \<or> agrees_at {CITY} loc me) mes"
        using Some False by (simp add: IH city_conflict_Nil)
      also have "\<dots> \<longleftrightarrow> agrees_at {CITY} loc me \<and>
          list_all (\<lambda>me. seen_entity seen me \<or> agrees_at {CITY} loc me) mes"
        using same by (auto simp: list_all_iff)
      finally show ?thesis using Some False by (simp add: seen_entity_def)
    qed
  qed
qed simp

definition level_conflict :: "admin_location \<Rightarrow> entity \<Rightarrow> conflict list" where
  "level_conflict loc e =
     (case location_levels loc (ent_Level e) of None \<Rightarrow> []
      | Some i \<Rightarrow> if i \<noteq> ent_ID e
          then [\<lparr>c_Type = ''duplicate_level'',
                 c_Message = ''duplicate '' @ ent_Level e @ '': '' @ ent_Name e\<rparr>]
          else [])"

definition level_conflicts :: "admin_location \<Rightarrow> matched_evidence list \<Rightarrow> conflict list" where
  "level_conflicts loc mes =
     concat (map (\<lambda>me. case me_Resolved me of None \<Rightarrow> []
        | Some e \<Rightarrow> if ent_Level e = CITY then [] else level_conflict loc e) mes)"

lemma duplicateLevel_loop_add:
  "duplicateLevel_loop (location_levels loc) mes c = add_conflicts c (level_conflicts loc mes)"
proof (induction mes arbitrary: c)
  case (Cons me mes)
  show ?case
  proof (cases "me_Resolved me")
    case (Some e)
    have "(case location_levels loc (ent_Level e) of None \<Rightarrow> c
        | Some i \<Rightarrow> if i \<noteq> ent_ID e then addConflict c ''duplicate_level''
            (''duplicate '' @ ent_Level e @ '': '' @ ent_Name e) else c)
      = add_conflicts c (level_conflict loc e)"
      by (simp add: level_conflict_def addConflict_add split: option.split)
    with Some show ?thesis by (simp add: Cons.IH level_conflicts_def)
  qed (simp add: Cons.IH level_conflicts_def)
qed (simp add: level_conflicts_def)

lemma location_levels_level_id: "l \<noteq> CITY \<Longrightarrow> location_levels loc l = level_id loc l"
  by (simp add: location_levels_def level_id_def)

lemma level_conflicts_Nil:
  "level_conflicts loc mes = [] \<longleftrightarrow> list_all (agrees_at (- {CITY}) loc) mes"
proof -
  have "(case me_Resolved me of None \<Rightarrow> []
      | Some e \<Rightarrow> if ent_Level e = CITY then [] else level_conflict loc e) = []
    \<longleftrightarrow> agrees_at (- {CITY}) loc me" for me
    by (auto simp: agrees_at_def evidence_agrees_def level_conflict_def location_levels_level_id
        split: option.split)
  then show ?thesis by (simp add: level_conflicts_def list_all_iff)
qed

lemma agrees_at_all:
  "list_all (agrees_at {CITY} loc) mes \<and> list_all (agrees_at (- {CITY}) loc) mes
     \<longleftrightarrow> list_all (evidence_agrees loc) mes"
proof -
  have "agrees_at {CITY} loc me \<and> agrees_at (- {CITY}) loc me \<longleftrightarrow> evidence_agrees loc me" for me
    by (auto simp: agrees_at_def evidence_agrees_def split: option.split)
  then show ?thesis by (auto simp: list_all_iff)
qed

section \<open>All checks together\<close>

definition postal_conflicts :: "admin_location \<Rightarrow> conflict list" where
  "postal_conflicts loc =
     (if postal_ok loc then []
      else [\<lparr>c_Type = ''postal_code_mismatch'',
             c_Message = ''postal code does not match sub-district''\<rparr>])"

definition orphan_conflicts :: "admin_location \<Rightarrow> conflict list" where
  "orphan_conflicts loc =
     (if no_orphan loc then []
      else [\<lparr>c_Type = ''orphan_city'', c_Message = ''city resolved without province''\<rparr>])"

definition found_conflicts :: "hierarchy_map option \<Rightarrow> admin_candidate \<Rightarrow> conflict list" where
  "found_conflicts hierarchy c =
     (let loc = Location c in
      hierarchy_conflicts hierarchy loc @ postal_conflicts loc @ orphan_conflicts loc
      @ city_conflicts {} loc (Evidence c) @ level_conflicts loc (Evidence c))"

text \<open>None of these lists depends on the conflicts already recorded.\<close>

lemma conflicts_of_add [simp]:
  "postal_conflicts (Location (add_conflicts c cs)) = postal_conflicts (Location c)"
  "orphan_conflicts (Location (add_conflicts c cs)) = orphan_conflicts (Location c)"
  "city_conflicts seen (Location (add_conflicts c cs)) mes = city_conflicts seen (Location c) mes"
  "level_conflicts (Location (add_conflicts c cs)) mes = level_conflicts (Location c) mes"
proof -
  have "level_conflict (Location (add_conflicts c cs)) = level_conflict (Location c)"
    by (simp add: fun_eq_iff level_conflict_def)
  then show "level_conflicts (Location (add_conflicts c cs)) mes = level_conflicts (Location c) mes"
    unfolding level_conflicts_def by (rule ssubst) (rule refl)
  show "city_conflicts seen (Location (add_conflicts c cs)) mes = city_conflicts seen (Location c) mes"
    by (rule city_conflicts_cong) simp
qed (simp_all add: postal_conflicts_def postal_ok_def orphan_conflicts_def no_orphan_def)

lemma detectConflicts_add:
  "detectConflicts c hierarchy = add_conflicts c
     (postal_conflicts (Location c) @ orphan_conflicts (Location c)
      @ city_conflicts {} (Location c) (Evidence c) @ level_conflicts (Location c) (Evidence c))"
proof -
  let ?loc = "Location c"
  have postal: "(case (PostalCode ?loc, SubDistrict ?loc) of
      (Some pc, Some s) \<Rightarrow> if pc_ID pc \<noteq> s_ID s then addConflict c ''postal_code_mismatch''
         ''postal code does not match sub-district'' else c | _ \<Rightarrow> c)
    = add_conflicts c (postal_conflicts ?loc)"
    by (auto simp: postal_conflicts_def postal_ok_def addConflict_add split: option.split)
  have orphan: "1 < (if Province ?loc \<noteq> None then 1 else 0) + (if City ?loc \<noteq> None then 1 else 0)
      + (if District ?loc \<noteq> None then 1 else 0) + (if SubDistrict ?loc \<noteq> None then 1 else (0::nat))
      \<and> City ?loc \<noteq> None \<and> Province ?loc = None \<longleftrightarrow> \<not> no_orphan ?loc"
    by (auto simp: no_orphan_def)
  show ?thesis
    unfolding detectConflicts_def Let_def postal orphan
    by (auto simp: addConflict_add detectMultipleCities_def multipleCities_loop_add
        detectDuplicateLevel_def duplicateLevel_loop_add orphan_conflicts_def)
qed

lemma EvaluateCandidate_candidate:
  "ce_Candidate (EvaluateCandidate ord c hierarchy evs) = add_conflicts c (found_conflicts hierarchy c)"
  by (simp add: EvaluateCandidate_def Let_def evaluateCompleteness_def evaluateHierarchy_add
      detectConflicts_add found_conflicts_def)

lemma seen_entity_empty [simp]: "\<not> seen_entity {} me"
  by (simp add: seen_entity_def split: option.split)

lemma found_conflicts_Nil: "found_conflicts hierarchy c = [] \<longleftrightarrow> consistent hierarchy c"
  by (simp add: found_conflicts_def Let_def consistent_def hierarchy_conflicts_Nil
      postal_conflicts_def orphan_conflicts_def city_conflicts_Nil level_conflicts_Nil
      agrees_at_all [symmetric])

section \<open>Listed components\<close>

primrec present :: "admin_location \<Rightarrow> admin_component \<Rightarrow> bool" where
  "present loc ComponentProvince \<longleftrightarrow> Province loc \<noteq> None"
| "present loc ComponentCity \<longleftrightarrow> City loc \<noteq> None"
| "present loc ComponentDistrict \<longleftrightarrow> District loc \<noteq> None"
| "present loc ComponentSubDistrict \<longleftrightarrow> SubDistrict loc \<noteq> None"
| "present loc ComponentPostalCode \<longleftrightarrow> PostalCode loc \<noteq> None"

lemma Matched_iff: "x \<in> set (getMatchedComponents c) \<longleftrightarrow> present (Location c) x"
  by (cases x) (simp_all add: getMatchedComponents_def Let_def)

lemma Missing_iff:
  "x \<in> set (getMissingComponents c) \<longleftrightarrow> \<not> present (Location c) x \<and> x \<noteq> ComponentPostalCode"
  by (cases x) (simp_all add: getMissingComponents_def Let_def)

lemma components_sorted:
  "sorted (getMatchedComponents c) \<and> distinct (getMatchedComponents c)"
  "sorted (getMissingComponents c) \<and> distinct (getMissingComponents c)"
  by (auto simp: getMatchedComponents_def getMissingComponents_def Let_def
      less_eq_admin_component_def split: if_splits)

section \<open>The properties\<close>

text \<open>
  C27. The status is a function of the candidate alone: a conflict recorded before or any
  inconsistency (a broken hierarchy link, a postal code of another sub-district, a city
  without province above a narrower level, evidence that names another entity of a level)
  gives \<open>CONFLICT\<close>; without levels it is \<open>UNKNOWN\<close>, with a gap among the upper
  three \<open>INCOMPLETE\<close>, else \<open>VALID\<close>.
\<close>

theorem EvaluateCandidate_status:
  "Status (EvaluateCandidate ord c hierarchy evs) =
     (let loc = Location c in
      if Conflicts loc = [] \<and> consistent hierarchy c then
        (if Province loc = None \<and> City loc = None \<and> District loc = None \<and> SubDistrict loc = None
         then StatusUnknown
         else if Province loc = None \<or> City loc = None \<or> District loc = None then StatusIncomplete
         else StatusValid)
      else StatusConflict)"
proof -
  have "Status (EvaluateCandidate ord c hierarchy evs)
      = assessQuality (ce_Candidate (EvaluateCandidate ord c hierarchy evs))"
    by (simp add: EvaluateCandidate_def Let_def)
  then show ?thesis
    by (auto simp: EvaluateCandidate_candidate assessQuality_def Let_def
        found_conflicts_Nil [symmetric])
qed

text \<open>
  Evaluation only appends conflicts, at most one of them about the hierarchy; every
  other part of the candidate is left as it was, the listed components are those of the
  candidate in order, and the four levels are split between \<open>Matched\<close> and
  \<open>Missing\<close>.
\<close>

theorem EvaluateCandidate_frame:
  "let r = EvaluateCandidate ord c hierarchy evs;
       new = drop (length (Conflicts (Location c))) (ce_Conflicts r) in
     ce_Conflicts r = Conflicts (Location c) @ new
   \<and> ce_Candidate r = c\<lparr>Location := (Location c)\<lparr>Conflicts := ce_Conflicts r\<rparr>\<rparr>
   \<and> length (filter (\<lambda>x. c_Type x = ''hierarchy_conflict'') new) \<le> 1
   \<and> sorted (Matched r) \<and> distinct (Matched r) \<and> sorted (Missing r) \<and> distinct (Missing r)
   \<and> set (Matched r) \<inter> set (Missing r) = {}
   \<and> set (Matched r) \<union> set (Missing r) \<union> {ComponentPostalCode} = UNIV"
proof -
  let ?r = "EvaluateCandidate ord c hierarchy evs"
  have conf: "ce_Conflicts ?r = Conflicts (Location c) @ found_conflicts hierarchy c"
    using EvaluateCandidate_candidate [of ord c hierarchy evs]
    by (simp add: EvaluateCandidate_def Let_def extractConflicts_def)
  have cand: "ce_Candidate ?r = c\<lparr>Location := (Location c)\<lparr>Conflicts := ce_Conflicts ?r\<rparr>\<rparr>"
    by (simp add: conf EvaluateCandidate_candidate add_conflicts_def)
  have no_city: "filter (\<lambda>x. c_Type x = ''hierarchy_conflict'') (city_conflicts seen loc mes) = []"
    for seen loc mes
    by (induction seen loc mes rule: city_conflicts.induct)
      (auto simp: city_conflict_def split: option.split)
  have no_level: "filter (\<lambda>x. c_Type x = ''hierarchy_conflict'') (level_conflicts loc mes) = []"
    for loc mes
    by (auto simp: level_conflicts_def level_conflict_def filter_empty_conv split: option.splits if_splits)
  have one: "length (filter (\<lambda>x. c_Type x = ''hierarchy_conflict'') (found_conflicts hierarchy c)) \<le> 1"
    using order_trans [OF length_filter_le hierarchy_conflicts_single,
        of "\<lambda>x. c_Type x = ''hierarchy_conflict''" hierarchy "Location c"]
    by (simp add: found_conflicts_def Let_def no_city no_level postal_conflicts_def orphan_conflicts_def)
  have comps: "Matched ?r = getMatchedComponents (ce_Candidate ?r)"
    "Missing ?r = getMissingComponents (ce_Candidate ?r)"
    by (simp_all add: EvaluateCandidate_def Let_def)
  have "set (Matched ?r) \<inter> set (Missing ?r) = {}"
    "set (Matched ?r) \<union> set (Missing ?r) \<union> {ComponentPostalCode} = UNIV"
    by (auto simp: comps Matched_iff Missing_iff)
  then show ?thesis using cand one components_sorted by (simp add: Let_def conf comps)
qed

lemma matchedLevels_loop_iff:
  "l \<in> matchedLevels_loop loc levels mes \<longleftrightarrow> l \<in> levels \<or>
     list_ex (\<lambda>me. case me_Resolved me of None \<Rightarrow> False
        | Some e \<Rightarrow> ent_Level e = l \<and> level_id loc l = Some (ent_ID e)) mes"
proof (induction loc levels mes rule: matchedLevels_loop.induct)
  case (2 loc levels me mes)
  show ?case
  proof (cases "me_Resolved me")
    case None
    with 2 show ?thesis by simp
  next
    case (Some e)
    consider "ent_Level e = PROVINCE" | "ent_Level e = CITY" | "ent_Level e = DISTRICT"
      | "ent_Level e = SUBDISTRICT" | "ent_Level e \<notin> {PROVINCE, CITY, DISTRICT, SUBDISTRICT}"
      by blast
    then show ?thesis
      using 2 Some by cases (auto dest: level_id_Some_level)
  qed
qed simp

lemma getMatchedLevels_iff:
  "l \<in> getMatchedLevels c \<longleftrightarrow>
     list_ex (\<lambda>me. case me_Resolved me of None \<Rightarrow> False
        | Some e \<Rightarrow> ent_Level e = l \<and> level_id (Location c) l = Some (ent_ID e)) (Evidence c)"
  by (simp add: getMatchedLevels_def matchedLevels_loop_iff)

text \<open>
  The item that decides the postal reason: the first postal evidence that shares at least
  three leading digits with the candidate's code.
\<close>

definition postal_match :: "gostring \<Rightarrow> matched_evidence \<Rightarrow> bool" where
  "postal_match code me \<longleftrightarrow>
     ev_Type (me_Evidence me) = EvidencePostalCode \<and> 3 \<le> common_prefix_len (me_Value me) code"

definition postal_reason :: "nat \<Rightarrow> reason" where
  "postal_reason n = (if 5 \<le> n then ReasonPostalCodeExact
     else if 4 \<le> n then ReasonPostalCodePrefix4 else ReasonPostalCodePrefix3)"

definition postal_weight :: "nat \<Rightarrow> float64" where
  "postal_weight n = (if 5 \<le> n then WeightPostalCodePrefix5
     else if 4 \<le> n then WeightPostalCodePrefix4 else WeightPostalCodePrefix3)"

lemma postalPrefix_loop_find:
  "postalPrefix_loop code mes =
     (case find (postal_match code) mes of None \<Rightarrow> 0
      | Some me \<Rightarrow> postal_weight (common_prefix_len (me_Value me) code))"
  by (induction code mes rule: postalPrefix_loop.induct)
    (auto simp: Let_def postal_match_def postal_weight_def)

lemma postal_weights_less:
  "0 < WeightPostalCodePrefix3" "WeightPostalCodePrefix3 < WeightPostalCodePrefix4"
  "WeightPostalCodePrefix4 < WeightPostalCodePrefix5"
proof -
  have h: "rnd (of_int k / 100) = basis_points (100 * k)" for k
    by (simp add: basis_points_def)
  show "0 < WeightPostalCodePrefix3" "WeightPostalCodePrefix3 < WeightPostalCodePrefix4"
    "WeightPostalCodePrefix4 < WeightPostalCodePrefix5"
    using basis_points_less_iff [of 0 700] basis_points_less_iff [of 700 1000]
      basis_points_less_iff [of 1000 2000] h [of 7] h [of 10] h [of 20]
    by (simp_all add: weight_defs)
qed

text \<open>
  The reasons say what was found: a level's reason is given exactly if some evidence
  resolved to the candidate's own entity of that level, and the postal reason names the
  length of the prefix that the first matching postal evidence shares with the candidate's
  code. No reason is repeated.
\<close>

theorem BuildReasons_sound:
  "distinct (BuildReasons c)
   \<and> (ReasonExactMatch \<in> set (BuildReasons c) \<longleftrightarrow> has_resolved c)
   \<and> list_all (\<lambda>(r, l). r \<in> set (BuildReasons c) \<longleftrightarrow>
        list_ex (\<lambda>me. case me_Resolved me of None \<Rightarrow> False
           | Some e \<Rightarrow> ent_Level e = l \<and> level_id (Location c) l = Some (ent_ID e)) (Evidence c))
       [(ReasonMatchProvince, PROVINCE), (ReasonMatchCity, CITY),
        (ReasonMatchDistrict, DISTRICT), (ReasonMatchSubDistrict, SUBDISTRICT)]
   \<and> filter (\<lambda>r. r \<in> {ReasonPostalCodeExact, ReasonPostalCodePrefix4, ReasonPostalCodePrefix3,
        ReasonPostalCodeLookup, ReasonPostalCodeInferred}) (BuildReasons c) =
       (case PostalCode (Location c) of None \<Rightarrow> []
        | Some pc \<Rightarrow> (case find (postal_match (pc_Code pc)) (Evidence c) of None \<Rightarrow> []
           | Some me \<Rightarrow> [postal_reason (common_prefix_len (me_Value me) (pc_Code pc))]))"
proof -
  let ?pre = "(if has_resolved c then [ReasonExactMatch] else [])
      @ (if PROVINCE \<in> getMatchedLevels c then [ReasonMatchProvince] else [])
      @ (if CITY \<in> getMatchedLevels c then [ReasonMatchCity] else [])
      @ (if DISTRICT \<in> getMatchedLevels c then [ReasonMatchDistrict] else [])
      @ (if SUBDISTRICT \<in> getMatchedLevels c then [ReasonMatchSubDistrict] else [])"
  let ?post = "case PostalCode (Location c) of None \<Rightarrow> []
        | Some pc \<Rightarrow> (case find (postal_match (pc_Code pc)) (Evidence c) of None \<Rightarrow> []
           | Some me \<Rightarrow> [postal_reason (common_prefix_len (me_Value me) (pc_Code pc))])"
  have "BuildReasons c = ?pre @ ?post"
    using postal_weights_less
    by (auto simp: BuildReasons_def Let_def scorePostalCodePrefix_def postalPrefix_loop_find
        postal_reason_def postal_weight_def split: option.split)
  moreover have "?post \<in> {[], [ReasonPostalCodeExact], [ReasonPostalCodePrefix4], [ReasonPostalCodePrefix3]}"
    by (auto simp: postal_reason_def split: option.split)
  moreover have "distinct ?pre" by (simp split: if_split)
  moreover have "filter (\<lambda>r. r \<in> {ReasonPostalCodeExact, ReasonPostalCodePrefix4, ReasonPostalCodePrefix3,
        ReasonPostalCodeLookup, ReasonPostalCodeInferred}) ?pre = []" by simp
  ultimately show ?thesis
    unfolding getMatchedLevels_iff [symmetric] list.pred_inject case_prod_conv
    by (elim insertE emptyE) simp_all
qed

end
