(* ===== verification/Edit_Distance.thy ===== *)
theory Edit_Distance
  imports Go_Float
begin

text \<open>
  \<open>damerauLevenshtein\<close> and \<open>damerauSimilarity\<close> of
  \<open>internal/service/fuzzy_context.go\<close>. The routine keeps three rows of a table and
  rotates them; it is proved to return the least cost of a restricted edit script
  (\<open>align\<close>), by way of a plain recursion (\<open>osa\<close>). The rows hold small
  non-negative numbers, so Go's \<open>int\<close> is read as \<open>nat\<close>.
\<close>

section \<open>The routine\<close>

text \<open>One cell of the current row; \<open>i\<close> and \<open>j\<close> count from 1.\<close>

definition dl_cell ::
  "'a list \<Rightarrow> 'a list \<Rightarrow> nat \<Rightarrow> nat list \<Rightarrow> nat list \<Rightarrow> nat list \<Rightarrow> nat \<Rightarrow> nat" where
  "dl_cell ar br i prev2 prev cur j =
     (let cost = (if ar ! (i - 1) = br ! (j - 1) then 0 else 1);
          m = min (min (cur ! (j - 1) + 1) (prev ! j + 1)) (prev ! (j - 1) + cost)
      in if 1 < i \<and> 1 < j \<and> ar ! (i - 1) = br ! (j - 2) \<and> ar ! (i - 2) = br ! (j - 1)
         then let t = prev2 ! (j - 2) + 1 in if t < m then t else m
         else m)"

definition dl_row ::
  "'a list \<Rightarrow> 'a list \<Rightarrow> nat \<Rightarrow> nat list \<Rightarrow> nat list \<Rightarrow> nat list \<Rightarrow> nat list" where
  "dl_row ar br i prev2 prev cur =
     foldl (\<lambda>cur j. cur[j := dl_cell ar br i prev2 prev cur j]) (cur[0 := i]) [1..<length br + 1]"

definition dl_rows :: "'a list \<Rightarrow> 'a list \<Rightarrow> nat \<Rightarrow> nat list \<times> nat list \<times> nat list" where
  "dl_rows ar br n =
     foldl (\<lambda>(prev2, prev, cur) i. (prev, dl_row ar br i prev2 prev cur, prev2))
       (replicate (length br + 1) 0, [0..<length br + 1], replicate (length br + 1) 0) [1..<n + 1]"

definition damerauLevenshtein :: "'a list \<Rightarrow> 'a list \<Rightarrow> nat" where
  "damerauLevenshtein ar br =
     (if length ar = 0 then length br
      else if length br = 0 then length ar
      else case dl_rows ar br (length ar) of (prev2, prev, cur) \<Rightarrow> prev ! length br)"

definition damerauSimilarity :: "'a list \<Rightarrow> 'a list \<Rightarrow> float64" where
  "damerauSimilarity a b =
     (let longest = max (length a) (length b) in
      if longest = 0 then 1
      else fsub 1 (fdiv (float_of_int (int (damerauLevenshtein a b))) (float_of_int (int longest))))"

definition fuzzyMatchThreshold :: float64 where
  "fuzzyMatchThreshold = rnd (8 / 10)"

section \<open>Edit scripts\<close>

text \<open>
  \<open>align n a b\<close>: \<open>a\<close> can be rewritten to \<open>b\<close> from left to right at cost
  \<open>n\<close>, where keeping a letter is free and a substitution, an insertion, a deletion and a
  swap of two neighbours cost 1 each.
\<close>

inductive align :: "nat \<Rightarrow> 'a list \<Rightarrow> 'a list \<Rightarrow> bool" where
  empty: "align 0 [] []"
| keep: "align n a b \<Longrightarrow> align n (a @ [x]) (b @ [x])"
| subst: "align n a b \<Longrightarrow> align (Suc n) (a @ [x]) (b @ [y])"
| delete: "align n a b \<Longrightarrow> align (Suc n) (a @ [x]) b"
| insert: "align n a b \<Longrightarrow> align (Suc n) a (b @ [y])"
| swap: "align n a b \<Longrightarrow> align (Suc n) (a @ [x, y]) (b @ [y, x])"

inductive_cases align_Nil: "align n [] []"

lemma align_sym: "align n a b \<Longrightarrow> align n b a"
  by (induction rule: align.induct) (auto intro: align.intros)

lemma align_zero: "align n a b \<Longrightarrow> n = 0 \<Longrightarrow> a = b"
  by (induction rule: align.induct) auto

lemma align_refl: "align 0 a a"
  by (induction a rule: rev_induct) (auto intro: align.intros)

lemma align_length: "align n a b \<Longrightarrow> length a \<le> length b + n \<and> length b \<le> length a + n"
  by (induction rule: align.induct) auto

lemma align_deletes: "align (length a) a []"
  by (induction a rule: rev_induct) (auto intro: align.intros)

section \<open>The recursion behind the table\<close>

fun osa :: "'a list \<Rightarrow> 'a list \<Rightarrow> nat" where
  "osa [] ys = length ys"
| "osa (x # xs) [] = Suc (length xs)"
| "osa (x # xs) (y # ys) =
     (let m = min (min (osa (x # xs) ys + 1) (osa xs (y # ys) + 1))
                (osa xs ys + (if x = y then 0 else 1))
      in case (xs, ys) of
           (x' # xs', y' # ys') \<Rightarrow>
             if x = y' \<and> x' = y then min m (osa xs' ys' + 1) else m
         | _ \<Rightarrow> m)"

declare osa.simps(3) [simp del]

lemma osa_Nil2 [simp]: "osa xs [] = length xs"
  by (cases xs) auto

lemma osa_delete: "osa (x # xs) ys \<le> Suc (osa xs ys)"
  by (cases ys) (auto simp: osa.simps(3) [of x xs] Let_def split: list.split)

lemma osa_insert: "osa xs (y # ys) \<le> Suc (osa xs ys)"
  by (cases xs) (auto simp: osa.simps(3) [of _ _ y ys] Let_def split: list.split)

lemma osa_subst: "osa (x # xs) (y # ys) \<le> osa xs ys + (if x = y then 0 else 1)"
  unfolding osa.simps(3) [of x xs y ys] Let_def by (auto split: list.split)

lemma osa_swap: "osa (y # x # xs) (x # y # ys) \<le> Suc (osa xs ys)"
  unfolding osa.simps(3) [of y "x # xs" x "y # ys"] Let_def by simp

lemma osa_le: "align n a b \<Longrightarrow> osa (rev a) (rev b) \<le> n"
proof (induction rule: align.induct)
  case (keep n a b x)
  then show ?case using osa_subst [of x "rev a" x "rev b"] by simp
next
  case (subst n a b x y)
  then show ?case using osa_subst [of x "rev a" y "rev b"] by (simp split: if_splits)
next
  case (delete n a b x)
  then show ?case using osa_delete [of x "rev a" "rev b"] by simp
next
  case (insert n a b y)
  then show ?case using osa_insert [of "rev a" y "rev b"] by simp
next
  case (swap n a b x y)
  then show ?case using osa_swap [of y x "rev a" "rev b"] by simp
qed simp

lemma align_osa: "align (osa xs ys) (rev xs) (rev ys)"
proof (induction xs ys rule: osa.induct)
  case (1 ys)
  then show ?case using align_sym [OF align_deletes [of "rev ys"]] by simp
next
  case (2 x xs)
  then show ?case using align_deletes [of "rev (x # xs)"] by simp
next
  case (3 x xs y ys)
  have del: "align (Suc (osa xs (y # ys))) (rev (x # xs)) (rev (y # ys))"
    using 3(2) align.delete by fastforce
  have ins: "align (Suc (osa (x # xs) ys)) (rev (x # xs)) (rev (y # ys))"
    using 3(1) align.insert by fastforce
  have sub: "align (osa xs ys + (if x = y then 0 else 1)) (rev (x # xs)) (rev (y # ys))"
    using align.keep [OF 3(3)] align.subst [OF 3(3)] by simp
  let ?m = "min (min (osa (x # xs) ys + 1) (osa xs (y # ys) + 1)) (osa xs ys + (if x = y then 0 else 1))"
  have m: "align ?m (rev (x # xs)) (rev (y # ys))"
    using del ins sub by (simp add: min_def)
  show ?case
  proof (cases "\<exists>x' xs' y' ys'. xs = x' # xs' \<and> ys = y' # ys' \<and> x = y' \<and> x' = y")
    case True
    then obtain xs' ys' where eq: "xs = y # xs'" "ys = x # ys'" by auto
    have "align (osa xs' ys') (rev xs') (rev ys')"
      using 3(4) eq by blast
    from align.swap [OF this, of y x] have "align (Suc (osa xs' ys')) (rev (x # xs)) (rev (y # ys))"
      by (simp add: eq)
    then have "align (min ?m (osa xs' ys' + 1)) (rev (x # xs)) (rev (y # ys))"
      using m by (simp add: min_def)
    then show ?thesis unfolding osa.simps(3) [of x xs y ys] by (simp add: eq Let_def)
  next
    case False
    then have "osa (x # xs) (y # ys) = ?m"
      unfolding osa.simps(3) [of x xs y ys] Let_def by (auto split: list.split)
    then show ?thesis using m by simp
  qed
qed

section \<open>The table\<close>

text \<open>\<open>D i j\<close>: the distance of the first \<open>i\<close> letters to the first \<open>j\<close>.\<close>

definition D :: "'a list \<Rightarrow> 'a list \<Rightarrow> nat \<Rightarrow> nat \<Rightarrow> nat" where
  "D ar br i j = osa (rev (take i ar)) (rev (take j br))"

lemma D_0 [simp]: "j \<le> length br \<Longrightarrow> D ar br 0 j = j"
  by (simp add: D_def)

lemma D_0' [simp]: "i \<le> length ar \<Longrightarrow> D ar br i 0 = i"
  by (simp add: D_def)

lemma rev_take_Suc: "i < length xs \<Longrightarrow> rev (take (Suc i) xs) = xs ! i # rev (take i xs)"
  by (simp add: take_Suc_conv_app_nth)

lemma D_Suc:
  assumes "i < length ar" and "j < length br"
  shows "D ar br (Suc i) (Suc j) =
     (let m = min (min (D ar br (Suc i) j + 1) (D ar br i (Suc j) + 1))
                (D ar br i j + (if ar ! i = br ! j then 0 else 1))
      in if 0 < i \<and> 0 < j \<and> ar ! i = br ! (j - 1) \<and> ar ! (i - 1) = br ! j
         then min m (D ar br (i - 1) (j - 1) + 1) else m)"
proof -
  have pre: "rev (take i ar) = (if i = 0 then [] else ar ! (i - 1) # rev (take (i - 1) ar))"
    "rev (take j br) = (if j = 0 then [] else br ! (j - 1) # rev (take (j - 1) br))"
    using rev_take_Suc [of "i - 1" ar] rev_take_Suc [of "j - 1" br] assms by auto
  have "D ar br (Suc i) (Suc j) = osa (ar ! i # rev (take i ar)) (br ! j # rev (take j br))"
    using assms by (simp add: D_def rev_take_Suc)
  also have "\<dots> = (let m = min (min (D ar br (Suc i) j + 1) (D ar br i (Suc j) + 1))
                (D ar br i j + (if ar ! i = br ! j then 0 else 1))
      in case (rev (take i ar), rev (take j br)) of
           (x' # xs', y' # ys') \<Rightarrow>
             if ar ! i = y' \<and> x' = br ! j then min m (osa xs' ys' + 1) else m
         | _ \<Rightarrow> m)"
    using assms unfolding osa.simps(3) by (simp add: D_def rev_take_Suc)
  also have "\<dots> = (let m = min (min (D ar br (Suc i) j + 1) (D ar br i (Suc j) + 1))
                (D ar br i j + (if ar ! i = br ! j then 0 else 1))
      in if 0 < i \<and> 0 < j \<and> ar ! i = br ! (j - 1) \<and> ar ! (i - 1) = br ! j
         then min m (D ar br (i - 1) (j - 1) + 1) else m)"
    unfolding pre by (simp add: D_def Let_def)
  finally show ?thesis .
qed

definition row_is :: "'a list \<Rightarrow> 'a list \<Rightarrow> nat \<Rightarrow> nat \<Rightarrow> nat list \<Rightarrow> bool" where
  "row_is ar br i n row \<longleftrightarrow> length row = Suc (length br) \<and> (\<forall>j<n. row ! j = D ar br i j)"

lemma dl_row_upto:
  assumes "i < length ar" and prev: "row_is ar br i (Suc (length br)) prev"
    and prev2: "0 < i \<Longrightarrow> row_is ar br (i - 1) (Suc (length br)) prev2"
    and "length cur = Suc (length br)" and "k \<le> length br"
  shows "row_is ar br (Suc i) (Suc k)
     (foldl (\<lambda>cur j. cur[j := dl_cell ar br (Suc i) prev2 prev cur j]) (cur[0 := Suc i]) [1..<Suc k])"
  using assms(5)
proof (induction k)
  case 0
  then show ?case using assms by (simp add: row_is_def)
next
  case (Suc k)
  define row where
    "row = foldl (\<lambda>cur j. cur[j := dl_cell ar br (Suc i) prev2 prev cur j]) (cur[0 := Suc i]) [1..<Suc k]"
  have row: "row_is ar br (Suc i) (Suc k) row" using Suc unfolding row_def by simp
  have c: "row ! k = D ar br (Suc i) k" "prev ! Suc k = D ar br i (Suc k)" "prev ! k = D ar br i k"
    using row prev Suc.prems by (simp_all add: row_is_def)
  have t: "0 < i \<Longrightarrow> 0 < k \<Longrightarrow> prev2 ! (k - 1) = D ar br (i - 1) (k - 1)"
    using prev2 Suc.prems by (simp add: row_is_def)
  have "dl_cell ar br (Suc i) prev2 prev row (Suc k) = D ar br (Suc i) (Suc k)"
    using t Suc.prems unfolding dl_cell_def D_Suc [OF assms(1), of k br, simplified Suc_le_eq]
    by (auto simp: Let_def c D_Suc [OF assms(1)] min_def)
  moreover have "foldl (\<lambda>cur j. cur[j := dl_cell ar br (Suc i) prev2 prev cur j]) (cur[0 := Suc i])
      [1..<Suc (Suc k)] = row[Suc k := dl_cell ar br (Suc i) prev2 prev row (Suc k)]"
    by (simp add: row_def)
  ultimately have eq: "foldl (\<lambda>cur j. cur[j := dl_cell ar br (Suc i) prev2 prev cur j]) (cur[0 := Suc i])
      [1..<Suc (Suc k)] = row[Suc k := D ar br (Suc i) (Suc k)]"
    by (simp only:)
  show ?case
    unfolding eq using row Suc.prems by (auto simp: row_is_def nth_list_update elim!: less_SucE)
qed

lemma dl_row_correct:
  assumes "i < length ar" and "row_is ar br i (Suc (length br)) prev"
    and "0 < i \<Longrightarrow> row_is ar br (i - 1) (Suc (length br)) prev2"
    and "length cur = Suc (length br)"
  shows "row_is ar br (Suc i) (Suc (length br)) (dl_row ar br (Suc i) prev2 prev cur)"
  using dl_row_upto [OF assms order_refl] by (simp add: dl_row_def)

lemma dl_rows_correct:
  "n \<le> length ar \<Longrightarrow> dl_rows ar br n = (prev2, prev, cur) \<Longrightarrow>
     row_is ar br n (Suc (length br)) prev
   \<and> (0 < n \<longrightarrow> row_is ar br (n - 1) (Suc (length br)) prev2)
   \<and> length prev2 = Suc (length br) \<and> length cur = Suc (length br)"
proof (induction n arbitrary: prev2 prev cur)
  case 0
  then show ?case by (auto simp: dl_rows_def row_is_def nth_append less_Suc_eq)
next
  case (Suc n)
  obtain p2 p c where eq: "dl_rows ar br n = (p2, p, c)" by (cases "dl_rows ar br n")
  have "dl_rows ar br (Suc n) = (p, dl_row ar br (Suc n) p2 p c, p2)"
    using eq by (simp add: dl_rows_def)
  then have new: "prev2 = p" "prev = dl_row ar br (Suc n) p2 p c" "cur = p2"
    using Suc.prems(2) by simp_all
  have IH: "row_is ar br n (Suc (length br)) p"
    "0 < n \<Longrightarrow> row_is ar br (n - 1) (Suc (length br)) p2"
    "length p2 = Suc (length br)" "length c = Suc (length br)"
    using Suc.IH [OF _ eq] Suc.prems by simp_all
  then have "row_is ar br (Suc n) (Suc (length br)) prev"
    unfolding new using Suc.prems by (intro dl_row_correct) auto
  then show ?case using IH new by (simp add: row_is_def)
qed

lemma damerauLevenshtein_osa: "damerauLevenshtein a b = osa (rev a) (rev b)"
proof -
  obtain prev2 prev cur where r: "dl_rows a b (length a) = (prev2, prev, cur)"
    by (cases "dl_rows a b (length a)")
  then have "prev ! length b = D a b (length a) (length b)"
    using dl_rows_correct [OF order_refl r] by (simp add: row_is_def)
  then show ?thesis using r by (simp add: damerauLevenshtein_def D_def)
qed

lemma damerauLevenshtein_least: "align n a b \<Longrightarrow> damerauLevenshtein a b \<le> n"
  by (simp add: damerauLevenshtein_osa osa_le)

lemma damerauLevenshtein_align: "align (damerauLevenshtein a b) a b"
  using align_osa [of "rev a" "rev b"] by (simp add: damerauLevenshtein_osa)

section \<open>Properties of the distance\<close>

text \<open>
  C3. The three-row routine computes the least cost of a restricted edit script: it is the
  cost of some script, and no script is cheaper.
\<close>

theorem damerauLevenshtein_optimal:
  "damerauLevenshtein a b = (LEAST n. align n a b)"
  by (rule Least_equality [symmetric]) (fact damerauLevenshtein_align, fact damerauLevenshtein_least)

lemma align_max: "\<exists>n\<le>max (length a) (length b). align n a b"
proof -
  have same: "length a = length b \<Longrightarrow> \<exists>n\<le>length a. align n a b" for a b :: "'a list"
  proof (induction a b rule: rev_induct2)
    case (4 x xs y ys)
    then show ?case using align.subst by fastforce
  qed (auto intro: align.intros)
  have longer: "length b \<le> length a \<Longrightarrow> \<exists>n\<le>length a. align n a b" for a b :: "'a list"
  proof (induction a rule: rev_induct)
    case Nil
    then show ?case by (auto intro: align.intros)
  next
    case (snoc x a)
    show ?case
    proof (cases "length b \<le> length a")
      case True
      then show ?thesis using snoc align.delete by fastforce
    next
      case False
      with snoc.prems have "length (a @ [x]) = length b" by simp
      then show ?thesis using same by blast
    qed
  qed
  show ?thesis
  proof (cases "length b \<le> length a")
    case True
    then show ?thesis using longer [of b a] by (simp add: max_def)
  next
    case False
    then obtain n where "n \<le> length b" "align n b a" using longer [of a b] by auto
    with False show ?thesis using align_sym by (auto simp: max_def)
  qed
qed

text \<open>
  The distance is symmetric, zero exactly on equal words, at least the difference of
  the lengths and at most the longer length.
\<close>

theorem damerauLevenshtein_laws:
  "damerauLevenshtein a b = damerauLevenshtein b a
   \<and> (damerauLevenshtein a b = 0 \<longleftrightarrow> a = b)
   \<and> length a - length b \<le> damerauLevenshtein a b
   \<and> length b - length a \<le> damerauLevenshtein a b
   \<and> damerauLevenshtein a b \<le> max (length a) (length b)"
proof -
  have sym: "damerauLevenshtein a b \<le> damerauLevenshtein b a" for a b :: "'a list"
    by (rule damerauLevenshtein_least) (rule align_sym, rule damerauLevenshtein_align)
  have "damerauLevenshtein a a = 0"
    using damerauLevenshtein_least [OF align_refl [of a]] by simp
  moreover have "damerauLevenshtein a b = 0 \<Longrightarrow> a = b"
    using align_zero damerauLevenshtein_align by metis
  moreover obtain n where "n \<le> max (length a) (length b)" "align n a b" using align_max by blast
  then have "damerauLevenshtein a b \<le> max (length a) (length b)"
    using damerauLevenshtein_least order_trans by blast
  ultimately show ?thesis
    using sym [of a b] sym [of b a] align_length [OF damerauLevenshtein_align [of a b]] by auto
qed

section \<open>The similarity\<close>

text \<open>
  The similarity is computed with two roundings. On words of up to \<open>2^20\<close> letters
  neither changes an order: distinct fractions with denominators of that size differ by at
  least \<open>2^-40\<close>, far more than the rounding error.
\<close>

definition longest :: "'a list \<Rightarrow> 'a list \<Rightarrow> nat" where
  "longest a b = max (length a) (length b)"

definition ratio :: "'a list \<Rightarrow> 'a list \<Rightarrow> rat" where
  "ratio a b = of_nat (damerauLevenshtein a b) / of_nat (longest a b)"

lemma damerau_le_longest: "damerauLevenshtein a b \<le> longest a b"
proof -
  obtain n where "n \<le> longest a b" "align n a b" using align_max unfolding longest_def by blast
  then show ?thesis using damerauLevenshtein_least order_trans by blast
qed

lemma ratio_bounds: "0 \<le> ratio a b" "ratio a b \<le> 1"
  using damerau_le_longest [of a b] by (auto simp: ratio_def divide_le_eq_1)

lemma damerauSimilarity_ratio:
  assumes "longest a b \<le> 2 ^ 20"
  shows "damerauSimilarity a b = rnd (1 - rnd (ratio a b))"
proof (cases "longest a b = 0")
  case True
  then show ?thesis by (simp add: damerauSimilarity_def Let_def longest_def ratio_def)
next
  case False
  have "int (damerauLevenshtein a b) < 2 ^ 53" "int (longest a b) < 2 ^ 53"
    using assms damerau_le_longest [of a b] by simp_all
  with False show ?thesis
    by (simp add: damerauSimilarity_def Let_def longest_def ratio_def fsub_def fdiv_def
        float_of_int_exact)
qed

lemma similarity_error:
  assumes "0 \<le> r" and "r \<le> 1"
  shows "\<bar>rnd (1 - rnd r) - (1 - r)\<bar> \<le> 1 / 2 ^ 49"
proof -
  have r: "\<bar>rnd r - r\<bar> \<le> 1 / 2 ^ 50" using assms by (intro rnd_near1) simp
  have "\<bar>rnd r - r\<bar> \<le> 1 / 1000" by (rule order_trans [OF r]) simp
  with assms have "\<bar>1 - rnd r\<bar> \<le> 8" by linarith
  then have "\<bar>rnd (1 - rnd r) - (1 - rnd r)\<bar> \<le> 1 / 2 ^ 50" by (rule rnd_near1)
  moreover have "(1::rat) / 2 ^ 49 = 1 / 2 ^ 50 + 1 / 2 ^ 50" by simp
  ultimately show ?thesis using r by linarith
qed

lemma fraction_gap:
  assumes "0 < l" "0 < m" "l \<le> 2 ^ 20" "m \<le> 2 ^ 20" and "of_nat c / of_nat l < (of_nat d / of_nat m :: rat)"
  shows "1 / 2 ^ 40 \<le> of_nat d / of_nat m - (of_nat c / of_nat l :: rat)"
proof -
  have "(of_nat (c * m) :: rat) < of_nat (d * l)" using assms by (simp add: field_simps)
  then have "c * m + 1 \<le> d * l" by (simp only: of_nat_less_iff Suc_eq_plus1 [symmetric] Suc_le_eq)
  then have num: "(of_nat (c * m) :: rat) + 1 \<le> of_nat (d * l)"
    by (metis of_nat_1 of_nat_add of_nat_le_iff)
  have "l * m \<le> 2 ^ 20 * 2 ^ 20" using assms by (intro mult_mono) auto
  then have den: "(of_nat (l * m) :: rat) \<le> 2 ^ 40"
    by (simp only: power_add [symmetric]) (metis numeral_Bit0 of_nat_le_iff of_nat_numeral of_nat_power)
  have "1 / 2 ^ 40 \<le> 1 / (of_nat (l * m) :: rat)"
    using den assms by (intro divide_left_mono) simp_all
  also have "\<dots> \<le> (of_nat (d * l) - of_nat (c * m)) / of_nat (l * m)"
    using num assms by (intro divide_right_mono) simp_all
  also have "\<dots> = of_nat d / of_nat m - of_nat c / of_nat l"
    using assms by (simp add: field_simps)
  finally show ?thesis .
qed

lemma similarity_less:
  assumes "0 \<le> q" "q + 1 / 2 ^ 40 \<le> r" "r \<le> 1"
  shows "rnd (1 - rnd r) < rnd (1 - rnd q)"
proof -
  have r: "0 \<le> r" using assms(1,2) order_trans [of 0 "q + 1 / 2 ^ 40" r] by simp
  have q: "q \<le> 1" using assms(2,3) by simp
  have "rnd (1 - rnd r) \<le> 1 - r + 1 / 2 ^ 49" using similarity_error [OF r assms(3)] by linarith
  moreover have "1 - q - 1 / 2 ^ 49 \<le> rnd (1 - rnd q)" using similarity_error [OF assms(1) q] by linarith
  moreover have "(1 :: rat) / 2 ^ 49 + 1 / 2 ^ 49 < 1 / 2 ^ 40" by simp
  ultimately show ?thesis using assms(2) by linarith
qed

lemma similarity_mono:
  assumes "q \<le> r" "0 \<le> q" "r \<le> 1"
  shows "rnd (1 - rnd r) \<le> rnd (1 - rnd q)"
proof -
  have "rnd q \<le> rnd r" using assms by (intro rnd_mono) simp_all
  moreover have "rnd r \<le> rnd 1" using assms by (intro rnd_mono) simp_all
  ultimately show ?thesis by (intro rnd_mono) simp_all
qed

lemma similarity_eq_1_5: "rnd (1 - rnd (1 / 5)) = fuzzyMatchThreshold"
proof -
  have a: "rnd (1 / 5) = 3602879701896397 / 18014398509481984" by code_simp
  have b: "fuzzyMatchThreshold = 3602879701896397 / 4503599627370496"
    unfolding fuzzyMatchThreshold_def by code_simp
  have "rnd (1 - 3602879701896397 / 18014398509481984)
      = of_int (round_even ((1 - 3602879701896397 / 18014398509481984) / 2 powi - 53)) * 2 powi - 53"
    by (rule rnd_unfold) (simp_all add: power_int_def)
  also have "\<dots> = 3602879701896397 / 4503599627370496" by code_simp
  finally show ?thesis by (simp only: a b)
qed

text \<open>Evaluating the routine on short words.\<close>

lemmas dl_eval = damerauLevenshtein_def dl_rows_def dl_row_def dl_cell_def upt_conv_Cons Let_def
  numeral_eq_Suc

lemma dl_examples:
  "damerauLevenshtein ''ciwdy'' ''ciwidy'' = 1"
  "damerauLevenshtein ''coba'' ''cobo'' = 1"
  by (simp_all add: dl_eval)

lemma similarity_le_iff:
  assumes "longest a b \<le> 2 ^ 20"
  shows "fuzzyMatchThreshold \<le> damerauSimilarity a b
     \<longleftrightarrow> 5 * damerauLevenshtein a b \<le> max (length a) (length b)"
proof (cases "longest a b = 0")
  case True
  then have "a = []" "b = []" by (simp_all add: longest_def)
  moreover have "fuzzyMatchThreshold \<le> 1" unfolding fuzzyMatchThreshold_def
    using rnd_mono [of "8 / 10" 1] by simp
  ultimately show ?thesis by (simp add: damerauSimilarity_def damerauLevenshtein_def)
next
  case False
  let ?d = "damerauLevenshtein a b" and ?l = "longest a b"
  have s: "damerauSimilarity a b = rnd (1 - rnd (ratio a b))"
    by (rule damerauSimilarity_ratio [OF assms])
  show ?thesis
  proof (cases "5 * ?d \<le> ?l")
    case True
    then have "(of_nat (5 * ?d) :: rat) \<le> of_nat ?l" by (simp only: of_nat_le_iff)
    then have "ratio a b \<le> 1 / 5" using False by (simp add: ratio_def field_simps)
    then have "fuzzyMatchThreshold \<le> rnd (1 - rnd (ratio a b))"
      unfolding similarity_eq_1_5 [symmetric] by (intro similarity_mono ratio_bounds) simp_all
    with True s show ?thesis by (simp add: longest_def)
  next
    case above: False
    then have "(of_nat ?l :: rat) < of_nat (5 * ?d)" by (simp only: of_nat_less_iff linorder_not_le)
    then have "of_nat 1 / of_nat 5 < (of_nat ?d / of_nat ?l :: rat)" using False by (simp add: field_simps)
    from fraction_gap [OF _ _ _ assms this] False
    have "1 / 2 ^ 40 \<le> ratio a b - 1 / 5" by (simp add: ratio_def)
    then have "1 / 5 + 1 / 2 ^ 40 \<le> ratio a b" by linarith
    then have "rnd (1 - rnd (ratio a b)) < rnd (1 - rnd (1 / 5))"
      by (intro similarity_less ratio_bounds) simp_all
    with above s show ?thesis by (simp add: similarity_eq_1_5 longest_def)
  qed
qed

text \<open>
  C33. A span passes the threshold of \<open>0.8\<close>, in floating point and with both roundings,
  exactly if its edit distance is at most a fifth of the longer length.
\<close>

theorem similarity_threshold:
  assumes "longest a b \<le> 2 ^ 20"
  shows "fuzzyMatchThreshold \<le> damerauSimilarity a b
     \<longleftrightarrow> 5 * damerauLevenshtein a b \<le> max (length a) (length b)"
  using assms by (rule similarity_le_iff)

theorem similarity_threshold_witness:
  "fuzzyMatchThreshold \<le> damerauSimilarity ''ciwdy'' ''ciwidy'' \<and>
   \<not> fuzzyMatchThreshold \<le> damerauSimilarity ''coba'' ''cobo''"
  using similarity_threshold [of "''ciwdy''" "''ciwidy''"]
    similarity_threshold [of "''coba''" "''cobo''"]
  by (simp add: longest_def dl_examples)

lemma similarity_less_iff:
  fixes a b c d :: "'a list"
  assumes "longest a b \<le> 2 ^ 20" and "longest c d \<le> 2 ^ 20"
  shows "damerauSimilarity a b < damerauSimilarity c d \<longleftrightarrow> ratio c d < ratio a b"
proof -
  have less: "damerauSimilarity a b < damerauSimilarity c d"
    if "longest a b \<le> 2 ^ 20" "longest c d \<le> 2 ^ 20" "ratio c d < ratio a b" for a b c d :: "'a list"
  proof -
    have "ratio a b \<noteq> 0" using that(3) ratio_bounds(1) [of c d] by linarith
    then have l: "0 < longest a b" by (auto simp: ratio_def intro: gr0I)
    have "ratio c d + 1 / 2 ^ 40 \<le> ratio a b"
    proof (cases "longest c d = 0")
      case True
      have "0 < ratio a b" using that(3) ratio_bounds(1) [of c d] by linarith
      then show ?thesis
        using fraction_gap [of 1 "longest a b" 0 "damerauLevenshtein a b"] that l True by (simp add: ratio_def)
    next
      case False
      then have "1 / 2 ^ 40 \<le> ratio a b - ratio c d"
        unfolding ratio_def using False that l by (intro fraction_gap) (simp_all add: ratio_def)
      then show ?thesis by linarith
    qed
    then show ?thesis
      unfolding damerauSimilarity_ratio [OF that(1)] damerauSimilarity_ratio [OF that(2)]
      by (intro similarity_less ratio_bounds)
  qed
  have "damerauSimilarity c d \<le> damerauSimilarity a b" if "ratio a b \<le> ratio c d"
    unfolding damerauSimilarity_ratio [OF assms(1)] damerauSimilarity_ratio [OF assms(2)]
    using that by (intro similarity_mono ratio_bounds)
  with less [OF assms(1,2)] show ?thesis by (meson linorder_not_le)
qed

text \<open>
  Comparing two similarities in floating point is comparing the exact ratios of
  distance and length, so the best match and its ties are those of exact arithmetic.
\<close>

theorem similarity_order:
  fixes a b c d :: "'a list"
  assumes "longest a b \<le> 2 ^ 20" and "longest c d \<le> 2 ^ 20"
  shows "damerauSimilarity a b < damerauSimilarity c d \<longleftrightarrow> ratio c d < ratio a b"
  using assms by (rule similarity_less_iff)

theorem similarity_order_witness:
  "damerauSimilarity ''coba'' ''cobo'' < damerauSimilarity ''ciwdy'' ''ciwidy''"
  using similarity_order [of "''coba''" "''cobo''" "''ciwdy''" "''ciwidy''"]
  by (simp add: longest_def ratio_def dl_examples)

end
