(* ===== verification/Dedup.thy ===== *)
theory Dedup
  imports Address_Model Go_Strings "HOL-Library.Signed_Division"
begin

text \<open>
  \<open>internal/service/dedup.go\<close>: the decimal rendering of an \<open>int64\<close>, the key of a
  candidate and the merge of candidates with equal keys. \<open>itoa\<close> fills a buffer of 20
  bytes from the right; the model conses onto the part already written, and
  \<open>itoa_length\<close> shows that the buffer is never too short.
\<close>

section \<open>itoa\<close>

text \<open>Go's \<open>/\<close> and \<open>%\<close> on \<open>int64\<close>, which truncate towards zero.\<close>

definition int64_div :: "int64 \<Rightarrow> int64 \<Rightarrow> int64" where
  "int64_div a b = word_of_int (sint a sdiv sint b)"

definition int64_mod :: "int64 \<Rightarrow> int64 \<Rightarrow> int64" where
  "int64_mod a b = word_of_int (sint a smod sint b)"

definition digit_byte :: "int64 \<Rightarrow> char" where
  "digit_byte n = char_of (unat (48 + int64_mod n 10))"

lemma sint_word_of_int_self:
  assumes "- (2 ^ 63) \<le> k" and "k < 2 ^ 63"
  shows "sint (word_of_int k :: int64) = k"
proof -
  have "signed_take_bit 63 k = k" using assms by (intro signed_take_bit_int_eq_self) auto
  then show ?thesis by (simp add: signed_of_int)
qed

lemma sint_range: "- (2 ^ 63) \<le> sint (n :: int64)" "sint (n :: int64) < 2 ^ 63"
  using sint_ge [of n] sint_lt [of n] by simp_all

lemma sint_div10: "0 < sint n \<Longrightarrow> sint (int64_div n 10) = sint n div 10"
proof -
  assume n: "0 < sint n"
  have "sint n sdiv 10 = sint n div 10" using n by (simp add: signed_divide_int_def)
  then show ?thesis
    using n sint_range [of n] by (simp add: int64_div_def sint_word_of_int_self)
qed

lemma digit_byte_digit: "0 < sint n \<Longrightarrow> digit_byte n = char_of (48 + nat (sint n mod 10))"
proof -
  assume n: "0 < sint n"
  have "sint n smod 10 = sint n mod 10" using n by (simp add: signed_modulo_int_def)
  then have w: "48 + int64_mod n 10 = word_of_int (48 + sint n mod 10)"
    by (simp add: int64_mod_def)
  moreover have "0 \<le> sint n mod 10" "sint n mod 10 < 10" by simp_all
  then have "take_bit 64 (48 + sint n mod 10) = 48 + sint n mod 10"
    by (intro take_bit_int_eq_self) auto
  ultimately have "unat (48 + int64_mod n 10) = nat (48 + sint n mod 10)"
    unfolding w by (simp only: unsigned_of_int) simp
  then show ?thesis by (simp add: digit_byte_def nat_add_distrib)
qed

function itoa_loop :: "int64 \<Rightarrow> gostring \<Rightarrow> gostring" where
  "itoa_loop n buf = (if 0 < sint n then itoa_loop (int64_div n 10) (digit_byte n # buf) else buf)"
  by auto

termination itoa_loop
  by (relation "measure (\<lambda>(n, buf). nat (sint n))") (auto simp: sint_div10)

declare itoa_loop.simps [simp del]

definition itoa :: "int64 \<Rightarrow> gostring" where
  "itoa n =
     (if n = 0 then ''0''
      else let neg = sint n < 0;
               m = (if neg then - n else n);
               buf = itoa_loop m []
           in if neg then CHR ''-'' # buf else buf)"

text \<open>The value of a string of digits, and of such a string after a sign.\<close>

definition dec_value :: "gostring \<Rightarrow> int" where
  "dec_value s = foldl (\<lambda>v c. 10 * v + (of_char c - 48)) 0 s"

definition parse_int :: "gostring \<Rightarrow> int" where
  "parse_int s = (case s of [] \<Rightarrow> 0 | c # cs \<Rightarrow> if c = CHR ''-'' then - dec_value cs else dec_value s)"

lemma foldl_dec:
  "foldl (\<lambda>v c. 10 * v + (of_char c - 48)) a s = a * 10 ^ length s + dec_value s"
proof (induction s arbitrary: a)
  case (Cons c s)
  have "dec_value (c # s) = (of_char c - 48) * 10 ^ length s + dec_value s"
    using Cons [of "of_char c - 48"] by (simp add: dec_value_def)
  then show ?case using Cons [of "10 * a + (of_char c - 48)"] by (simp add: algebra_simps)
qed (simp add: dec_value_def)

lemma dec_value_Cons: "dec_value (c # s) = (of_char c - 48) * 10 ^ length s + dec_value s"
  using foldl_dec [of "of_char c - 48" s] by (simp add: dec_value_def)

lemma of_char_digit: "k < 10 \<Longrightarrow> (of_char (char_of (48 + k) :: char) :: int) = 48 + int k"
proof -
  assume "k < 10"
  then have "(of_char (char_of (48 + k) :: char) :: nat) = 48 + k" by simp
  then show ?thesis by (metis of_nat_add of_nat_numeral of_nat_of_char)
qed

lemma of_char_digit_byte: "0 < sint n \<Longrightarrow> (of_char (digit_byte n) :: int) - 48 = sint n mod 10"
  using of_char_digit [of "nat (sint n mod 10)"] by (simp add: digit_byte_digit nat_less_iff)

lemma itoa_loop_value:
  "0 \<le> sint n \<Longrightarrow> dec_value (itoa_loop n buf) = sint n * 10 ^ length buf + dec_value buf"
proof (induction n buf rule: itoa_loop.induct)
  case (1 n buf)
  have gen: "q * 10 ^ Suc l + (r * 10 ^ l + d) = (q * 10 + r) * 10 ^ l + d" for q r d :: int and l :: nat
    by (simp add: algebra_simps)
  show ?case
  proof (cases "0 < sint n")
    case True
    then have "dec_value (itoa_loop n buf) = dec_value (itoa_loop (int64_div n 10) (digit_byte n # buf))"
      by (simp add: itoa_loop.simps [of n])
    also have "\<dots> = (sint n div 10) * 10 ^ Suc (length buf) + dec_value (digit_byte n # buf)"
      using True 1 by (simp add: sint_div10)
    also have "\<dots> = (sint n div 10 * 10 + sint n mod 10) * 10 ^ length buf + dec_value buf"
      using True by (simp only: dec_value_Cons of_char_digit_byte) (simp only: gen)
    finally show ?thesis by (simp only: div_mult_mod_eq)
  next
    case False
    with 1 show ?thesis by (simp add: itoa_loop.simps [of n])
  qed
qed

lemma itoa_loop_length:
  "0 \<le> sint n \<Longrightarrow> sint n < 10 ^ k \<Longrightarrow> length (itoa_loop n buf) \<le> k + length buf"
proof (induction n buf arbitrary: k rule: itoa_loop.induct)
  case (1 n buf)
  show ?case
  proof (cases "0 < sint n")
    case True
    with 1 obtain j where k: "k = Suc j" by (cases k) auto
    then have "sint n div 10 < 10 ^ j" using 1 by simp
    with 1(1) [of j] True k show ?thesis by (simp add: itoa_loop.simps [of n] sint_div10)
  next
    case False
    then show ?thesis by (simp add: itoa_loop.simps [of n])
  qed
qed

lemma itoa_loop_chars:
  "c \<in> set (itoa_loop n buf) \<Longrightarrow> c \<in> set buf \<or> (\<exists>k<10. c = char_of (48 + k :: nat))"
proof (induction n buf rule: itoa_loop.induct)
  case (1 n buf)
  show ?case
  proof (cases "0 < sint n")
    case True
    have "\<exists>k<10. digit_byte n = char_of (48 + k :: nat)"
      using digit_byte_digit [OF True] by (intro exI [of _ "nat (sint n mod 10)"]) (simp add: nat_less_iff)
    with 1 True show ?thesis by (auto simp: itoa_loop.simps [of n])
  next
    case False
    with 1 show ?thesis by (simp add: itoa_loop.simps [of n])
  qed
qed

lemma sint_uminus: "sint (n :: int64) \<noteq> - (2 ^ 63) \<Longrightarrow> sint (- n) = - sint n"
proof -
  assume n: "sint n \<noteq> - (2 ^ 63)"
  have "- n = word_of_int (- sint n)" by simp
  moreover have "sint (word_of_int (- sint n) :: int64) = - sint n"
    using n sint_range [of n] by (intro sint_word_of_int_self) simp_all
  ultimately show ?thesis by metis
qed

lemma min_int64: "sint (n :: int64) = - (2 ^ 63) \<longleftrightarrow> n = 2 ^ 63"
proof
  assume "sint n = - (2 ^ 63)"
  then have "sint n = sint (2 ^ 63 :: int64)" by simp
  then show "n = 2 ^ 63" by (rule signed_word_eqI)
next
  assume "n = 2 ^ 63"
  then show "sint n = - (2 ^ 63)" by simp
qed

lemma itoa_min: "itoa (2 ^ 63) = ''-''"
  by (simp add: itoa_def itoa_loop.simps)

lemma itoa_loop_digits: "c \<in> set (itoa_loop n []) \<Longrightarrow> is_digit c"
  using itoa_loop_chars [of c n "[]"] by (auto simp: is_digit_def)

lemma itoa_chars: "c \<in> set (itoa n) \<Longrightarrow> is_digit c \<or> c = CHR ''-''"
  using itoa_loop_digits by (auto simp: itoa_def Let_def is_digit_def split: if_splits)

lemma itoa_nonempty: "itoa n \<noteq> []"
proof -
  have "itoa_loop m [] \<noteq> []" if "0 < sint m" for m
    using itoa_loop_value [of m "[]"] that by (auto simp: dec_value_def)
  moreover have "0 < sint n" if "n \<noteq> 0" "\<not> sint n < 0"
    using that by (metis linorder_neqE_linordered_idom signed_eq_0_iff)
  ultimately show ?thesis by (auto simp: itoa_def Let_def)
qed

lemma itoa_value:
  assumes "n \<noteq> 2 ^ 63"
  shows "parse_int (itoa n) = sint n" and "itoa n \<noteq> ''-''" and "length (itoa n) \<le> 20"
proof -
  have "parse_int (itoa n) = sint n \<and> itoa n \<noteq> ''-'' \<and> length (itoa n) \<le> 20"
  proof (cases "n = 0")
    case True
    then show ?thesis by (simp add: parse_int_def dec_value_def itoa_def)
  next
    case False
    then have n: "sint n \<noteq> 0" "sint n \<noteq> - (2 ^ 63)"
      using assms by (simp_all only: min_int64 signed_eq_0_iff not_False_eq_True)
    define m where "m = (if sint n < 0 then - n else n)"
    have m: "sint m = \<bar>sint n\<bar>" using n sint_uminus [of n] by (simp add: m_def)
    have "sint m < 10 ^ 19" using m sint_range [of n] by simp
    then have len: "length (itoa_loop m []) \<le> 19"
      using itoa_loop_length [of m 19 "[]"] m by simp
    have val: "dec_value (itoa_loop m []) = \<bar>sint n\<bar>"
      using itoa_loop_value [of m "[]"] m by (simp add: dec_value_def)
    have eq: "itoa n = (if sint n < 0 then CHR ''-'' # itoa_loop m [] else itoa_loop m [])"
      using False by (auto simp: itoa_def m_def Let_def)
    have ne: "itoa_loop m [] \<noteq> []" using val n by (auto simp: dec_value_def)
    have "hd (itoa_loop m []) \<noteq> CHR ''-''"
      using itoa_loop_digits [of "hd (itoa_loop m [])" m] ne by (auto simp: is_digit_def)
    then have "parse_int (itoa n) = sint n"
      using val ne by (cases "itoa_loop m []") (auto simp: eq parse_int_def)
    moreover have "itoa n \<noteq> ''-''"
      using ne itoa_loop_digits [of "CHR ''-''" m] by (auto simp: eq is_digit_def)
    ultimately show ?thesis using len by (simp add: eq)
  qed
  then show "parse_int (itoa n) = sint n" and "itoa n \<noteq> ''-''" and "length (itoa n) \<le> 20"
    by simp_all
qed

text \<open>
  \<open>itoa\<close> writes at most the 20 bytes of its buffer, and what it writes reads back
  as the number; the one exception is the least \<open>int64\<close>, whose negation wraps to itself,
  so that only the sign is written.
\<close>

theorem itoa_roundtrip:
  "length (itoa n) \<le> 20 \<and> parse_int (itoa n) = (if n = 2 ^ 63 then 0 else sint n)
   \<and> (n = 2 ^ 63 \<longleftrightarrow> itoa n = ''-'')"
proof (cases "n = 2 ^ 63")
  case True
  have "parse_int ''-'' = 0" by (simp add: parse_int_def dec_value_def)
  with True itoa_min show ?thesis by simp
next
  case False
  then show ?thesis using itoa_value [OF False] by simp
qed

lemma itoa_inj: "itoa m = itoa n \<longleftrightarrow> m = n"
proof
  assume eq: "itoa m = itoa n"
  show "m = n"
  proof (cases "m = 2 ^ 63 \<or> n = 2 ^ 63")
    case True
    then show ?thesis using eq itoa_value(2) itoa_min by metis
  next
    case False
    then have "sint m = sint n" using eq itoa_value(1) by metis
    then show ?thesis by (rule signed_word_eqI)
  qed
qed simp

section \<open>Keys\<close>

definition key :: "int64 list \<Rightarrow> gostring" where
  "key ids = join '':'' (map itoa ids)"

definition loc_id :: "('a \<Rightarrow> int64) \<Rightarrow> 'a option \<Rightarrow> int64" where
  "loc_id f x = (case x of None \<Rightarrow> 0 | Some y \<Rightarrow> f y)"

definition location_ids :: "admin_location \<Rightarrow> int64 list" where
  "location_ids loc = [loc_id p_ID (Province loc), loc_id ct_ID (City loc),
     loc_id d_ID (District loc), loc_id s_ID (SubDistrict loc)]"

definition candidateKey :: "admin_candidate \<Rightarrow> gostring" where
  "candidateKey c = key (location_ids (Location c))"

lemma colon_itoa: "CHR '':'' \<notin> set (itoa n)"
  using itoa_chars [of "CHR '':''" n] by (auto simp: is_digit_def)

lemma key_inj: "length us = length vs \<Longrightarrow> key us = key vs \<longleftrightarrow> us = vs"
proof (cases "us = []")
  case False
  assume len: "length us = length vs"
  have "split_on (CHR '':'') (key ks) = map itoa ks" if "ks \<noteq> []" for ks
    unfolding key_def using that colon_itoa by (intro split_on_join) auto
  moreover have "inj itoa" by (simp add: inj_def itoa_inj)
  ultimately show ?thesis using False len by (metis inj_map_eq_map length_0_conv)
qed simp

lemma candidateKey_eq:
  "candidateKey a = candidateKey b \<longleftrightarrow> location_ids (Location a) = location_ids (Location b)"
  by (simp add: candidateKey_def key_inj location_ids_def)

section \<open>Merging\<close>

text \<open>
  Both merges collect into a map and range over it. The runtime may choose another order for
  every range, so the loop takes one pair of orders per candidate.
\<close>

definition evidenceKey :: "matched_evidence \<Rightarrow> gostring" where
  "evidenceKey me =
     (case me_Resolved me of
        Some e \<Rightarrow> me_Value me @ '':'' @ ent_Level e @ '':'' @ itoa (ent_ID e)
      | None \<Rightarrow> me_Value me)"

fun strategy_set :: "discovery_strategy list \<Rightarrow> discovery_strategy list \<Rightarrow> discovery_strategy list" where
  "strategy_set acc [] = acc"
| "strategy_set acc (s # ss) = strategy_set (if s \<in> set acc then acc else acc @ [s]) ss"

fun evidence_set ::
  "(gostring \<times> matched_evidence) list \<Rightarrow> matched_evidence list \<Rightarrow> (gostring \<times> matched_evidence) list" where
  "evidence_set acc [] = acc"
| "evidence_set acc (me # mes) = evidence_set (AList.update (evidenceKey me) me acc) mes"

record merge_order =
  mo_strategies :: "discovery_strategy order"
  mo_evidence :: "(gostring \<times> matched_evidence) order"

definition is_merge_order :: "merge_order \<Rightarrow> bool" where
  "is_merge_order mo \<longleftrightarrow> is_order (mo_strategies mo) \<and> is_order (mo_evidence mo)"

definition mergeCandidates ::
  "merge_order \<Rightarrow> admin_candidate \<Rightarrow> admin_candidate \<Rightarrow> admin_candidate" where
  "mergeCandidates mo a b =
     (let strategySet = strategy_set (strategy_set [] (DiscoveryStrategies a)) (DiscoveryStrategies b);
          evidenceSet = evidence_set (evidence_set [] (Evidence a)) (Evidence b)
      in a\<lparr>DiscoveryStrategies := mo_strategies mo strategySet,
           Evidence := map snd (mo_evidence mo evidenceSet)\<rparr>)"

fun dedup_loop ::
  "(gostring \<rightharpoonup> nat) \<Rightarrow> admin_candidate list \<Rightarrow> merge_order list \<Rightarrow> admin_candidate list
     \<Rightarrow> admin_candidate list" where
  "dedup_loop seen deduped mos [] = deduped"
| "dedup_loop seen deduped mos (c # cs) =
     (let k = candidateKey c; mo = hd mos in
      case seen k of
        Some idx \<Rightarrow> dedup_loop seen (deduped[idx := mergeCandidates mo (deduped ! idx) c]) (tl mos) cs
      | None \<Rightarrow> dedup_loop (seen(k \<mapsto> length deduped)) (deduped @ [c]) (tl mos) cs)"

definition DeduplicateCandidates ::
  "merge_order list \<Rightarrow> admin_candidate list \<Rightarrow> admin_candidate list" where
  "DeduplicateCandidates mos candidates =
     (if length candidates \<le> 1 then candidates else dedup_loop Map.empty [] mos candidates)"

subsection \<open>One merge\<close>

lemma set_strategy_set: "set (strategy_set acc ss) = set acc \<union> set ss"
  by (induction acc ss rule: strategy_set.induct) auto

lemma distinct_strategy_set: "distinct acc \<Longrightarrow> distinct (strategy_set acc ss)"
  by (induction acc ss rule: strategy_set.induct) auto

lemma map_of_evidence_set:
  "map_of (evidence_set acc mes) k =
     (case find (\<lambda>me. evidenceKey me = k) (rev mes) of None \<Rightarrow> map_of acc k | Some me \<Rightarrow> Some me)"
proof (induction acc mes rule: evidence_set.induct)
  case (2 acc me mes)
  then show ?case by (auto simp: find_append split: option.split)
qed simp

lemma keys_evidence_set:
  "fst ` set (evidence_set acc mes) = fst ` set acc \<union> evidenceKey ` set mes"
  by (induction acc mes rule: evidence_set.induct) (auto simp: dom_update)

lemma evidence_set_keyed:
  "\<forall>(k, me)\<in>set acc. evidenceKey me = k \<Longrightarrow> \<forall>(k, me)\<in>set (evidence_set acc mes). evidenceKey me = k"
proof (induction acc mes rule: evidence_set.induct)
  case (2 acc me mes)
  have "set (AList.update (evidenceKey me) me acc) \<subseteq> insert (evidenceKey me, me) (set acc)"
    by (induction acc) auto
  with 2 show ?case by (fastforce simp: subset_iff)
qed simp

definition core :: "admin_candidate \<Rightarrow> gostring \<times> origin_level \<times> admin_location" where
  "core c = (cand_UUID c, OriginLevel c, Location c)"

lemma merge_core [simp]: "core (mergeCandidates mo a b) = core a"
  by (simp add: mergeCandidates_def Let_def core_def)

lemma core_key: "core a = core b \<Longrightarrow> candidateKey a = candidateKey b"
  by (simp add: core_def candidateKey_def)

lemma merge_sets:
  assumes "is_merge_order mo"
  shows "set (DiscoveryStrategies (mergeCandidates mo a b))
           = set (DiscoveryStrategies a) \<union> set (DiscoveryStrategies b)"
    and "evidenceKey ` set (Evidence (mergeCandidates mo a b))
           = evidenceKey ` set (Evidence a) \<union> evidenceKey ` set (Evidence b)"
proof -
  have o: "is_order (mo_strategies mo)" "is_order (mo_evidence mo)"
    using assms by (simp_all add: is_merge_order_def)
  show "set (DiscoveryStrategies (mergeCandidates mo a b))
      = set (DiscoveryStrategies a) \<union> set (DiscoveryStrategies b)"
    using o by (simp add: mergeCandidates_def Let_def is_order_set set_strategy_set)
  let ?m = "evidence_set (evidence_set [] (Evidence a)) (Evidence b)"
  have "\<forall>(k, me)\<in>set ?m. evidenceKey me = k" by (intro evidence_set_keyed) simp
  then have "evidenceKey ` snd ` set ?m = fst ` set ?m" by (force simp: image_iff)
  then show "evidenceKey ` set (Evidence (mergeCandidates mo a b))
      = evidenceKey ` set (Evidence a) \<union> evidenceKey ` set (Evidence b)"
    using o by (simp add: mergeCandidates_def Let_def is_order_set keys_evidence_set)
qed

subsection \<open>The loop\<close>

text \<open>What the processed candidates \<open>xs\<close> have become.\<close>

definition gathers :: "admin_candidate list \<Rightarrow> admin_candidate \<Rightarrow> bool" where
  "gathers xs d \<longleftrightarrow>
     set (DiscoveryStrategies d)
       = \<Union> (set ` DiscoveryStrategies ` {c \<in> set xs. candidateKey c = candidateKey d})
   \<and> evidenceKey ` set (Evidence d)
       = \<Union> ((\<lambda>c. evidenceKey ` set (Evidence c)) ` {c \<in> set xs. candidateKey c = candidateKey d})"

definition dedup_inv ::
  "admin_candidate list \<Rightarrow> (gostring \<rightharpoonup> nat) \<Rightarrow> admin_candidate list \<Rightarrow> bool" where
  "dedup_inv xs seen out \<longleftrightarrow>
     map core out = map core (dedup_by candidateKey {} xs)
   \<and> (\<forall>k i. seen k = Some i \<longleftrightarrow> i < length out \<and> candidateKey (out ! i) = k)
   \<and> list_all (gathers xs) out"

lemma dedup_inv_keys:
  "dedup_inv xs seen out \<Longrightarrow> map candidateKey out = map candidateKey (dedup_by candidateKey {} xs)"
proof -
  assume "dedup_inv xs seen out"
  then have "map core out = map core (dedup_by candidateKey {} xs)" by (simp add: dedup_inv_def)
  then have "map (\<lambda>x. key (location_ids (snd (snd x)))) (map core out)
      = map (\<lambda>x. key (location_ids (snd (snd x)))) (map core (dedup_by candidateKey {} xs))"
    by (rule arg_cong)
  then show ?thesis by (simp add: core_def candidateKey_def [abs_def] comp_def)
qed

lemma dedup_inv_new:
  assumes "dedup_inv xs seen out" and "seen (candidateKey c) = None"
  shows "dedup_inv (xs @ [c]) (seen(candidateKey c \<mapsto> length out)) (out @ [c])"
proof -
  have keys: "candidateKey ` set out = candidateKey ` set xs"
    using dedup_inv_keys [OF assms(1)] dedup_by_keys [of candidateKey "{}" xs]
    by (metis Diff_empty list.set_map)
  have fresh: "candidateKey c \<notin> candidateKey ` set out"
  proof
    assume "candidateKey c \<in> candidateKey ` set out"
    then obtain i where "i < length out" "candidateKey (out ! i) = candidateKey c"
      by (auto simp: in_set_conv_nth)
    with assms(1) have "seen (candidateKey c) = Some i" by (simp add: dedup_inv_def)
    with assms(2) show False by simp
  qed
  then have fresh': "i < length out \<Longrightarrow> candidateKey (out ! i) \<noteq> candidateKey c" for i
    by (metis image_eqI nth_mem)
  have "dedup_by candidateKey {} (xs @ [c]) = dedup_by candidateKey {} xs @ [c]"
    using fresh keys by (simp add: dedup_by_snoc)
  moreover have "(seen(candidateKey c \<mapsto> length out)) k = Some i \<longleftrightarrow>
      i < length (out @ [c]) \<and> candidateKey ((out @ [c]) ! i) = k" for k i
    using assms fresh' by (auto simp: dedup_inv_def nth_append less_Suc_eq)
  moreover have "gathers (xs @ [c]) d" if "d \<in> set out" for d
  proof -
    have "{x \<in> set (xs @ [c]). candidateKey x = candidateKey d} = {x \<in> set xs. candidateKey x = candidateKey d}"
      using that fresh by auto
    moreover have "gathers xs d" using assms(1) that by (simp add: dedup_inv_def list_all_iff)
    ultimately show ?thesis by (simp only: gathers_def)
  qed
  moreover have "gathers (xs @ [c]) c"
  proof -
    have "{x \<in> set (xs @ [c]). candidateKey x = candidateKey c} = {c}"
      using fresh keys by (auto simp: image_iff)
    then show ?thesis by (simp only: gathers_def) simp
  qed
  ultimately show ?thesis using assms(1) by (simp add: dedup_inv_def list_all_iff)
qed

lemma dedup_inv_merge:
  assumes inv: "dedup_inv xs seen out" and i: "seen (candidateKey c) = Some i" and "is_merge_order mo"
  shows "dedup_inv (xs @ [c]) seen (out[i := mergeCandidates mo (out ! i) c])"
proof -
  let ?d = "mergeCandidates mo (out ! i) c"
  have len: "i < length out" and k: "candidateKey (out ! i) = candidateKey c"
    using inv i by (auto simp: dedup_inv_def)
  have kd: "candidateKey ?d = candidateKey c" using k core_key merge_core by metis
  have same: "candidateKey (out[i := ?d] ! j) = candidateKey (out ! j)" for j
    using len k kd by (cases "j = i") simp_all
  have keys: "candidateKey ` set out = candidateKey ` set xs"
    using dedup_inv_keys [OF inv] dedup_by_keys [of candidateKey "{}" xs]
    by (metis Diff_empty list.set_map)
  have "candidateKey c \<in> candidateKey ` set xs"
    using keys len k by (metis image_eqI nth_mem)
  then have "dedup_by candidateKey {} (xs @ [c]) = dedup_by candidateKey {} xs"
    by (simp add: dedup_by_snoc)
  moreover have "map core (out[i := ?d]) = map core out"
    using len by (simp add: map_update) (metis list_update_id map_update nth_map)
  moreover have "gathers (xs @ [c]) (out[i := ?d] ! j)" if j: "j < length out" for j
  proof (cases "j = i")
    case True
    have "gathers xs (out ! i)" using inv len by (simp add: dedup_inv_def list_all_length)
    moreover have "{x \<in> set (xs @ [c]). candidateKey x = candidateKey c}
        = insert c {x \<in> set xs. candidateKey x = candidateKey c}" by auto
    ultimately have "gathers (xs @ [c]) ?d"
      using merge_sets [OF assms(3), of "out ! i" c] by (simp only: gathers_def kd k) auto
    with True len show ?thesis by simp
  next
    case False
    have "gathers xs (out ! j)" using inv j by (simp add: dedup_inv_def list_all_length)
    moreover have "candidateKey c \<noteq> candidateKey (out ! j)"
      using inv i j False by (metis dedup_inv_def option.inject)
    then have "{x \<in> set (xs @ [c]). candidateKey x = candidateKey (out ! j)}
        = {x \<in> set xs. candidateKey x = candidateKey (out ! j)}" by auto
    ultimately show ?thesis using False by (simp add: gathers_def)
  qed
  ultimately show ?thesis
    using inv unfolding dedup_inv_def same by (simp add: list_all_length)
qed

lemma dedup_loop_inv:
  "dedup_inv xs seen out \<Longrightarrow> list_all is_merge_order mos \<Longrightarrow> length cs \<le> length mos \<Longrightarrow>
     \<exists>seen'. dedup_inv (xs @ cs) seen' (dedup_loop seen out mos cs)"
proof (induction seen out mos cs arbitrary: xs rule: dedup_loop.induct)
  case (2 seen out mos c cs)
  from "2.prems" obtain mo mos' where mos: "mos = mo # mos'" "is_merge_order mo" by (cases mos) auto
  show ?case
  proof (cases "seen (candidateKey c)")
    case None
    then have "dedup_inv (xs @ [c]) (seen(candidateKey c \<mapsto> length out)) (out @ [c])"
      using 2 by (intro dedup_inv_new)
    from "2.IH"(1) [OF refl refl None this] "2.prems" mos None show ?thesis by (simp add: fun_upd_def)
  next
    case (Some i)
    then have "dedup_inv (xs @ [c]) seen (out[i := mergeCandidates mo (out ! i) c])"
      using 2 mos by (intro dedup_inv_merge)
    with "2.IH"(2) [OF refl refl Some, of "xs @ [c]"] "2.prems" mos Some show ?thesis by simp
  qed
qed auto

text \<open>
  C34. Deduplication keeps, for every combination of level identifiers, the first candidate
  with it, in the order of first appearance, and that candidate gathers the strategies and
  the evidence of all candidates with the same identifiers, whatever the map orders are.
\<close>

theorem DeduplicateCandidates_merges:
  assumes "list_all is_merge_order mos" and "length cs \<le> length mos"
  shows "let out = DeduplicateCandidates mos cs in
     map core out = map core (dedup_by (\<lambda>c. location_ids (Location c)) {} cs)
   \<and> list_all (gathers cs) out"
proof -
  let ?out = "DeduplicateCandidates mos cs"
  have by_ids: "dedup_by (\<lambda>c. location_ids (Location c)) S xs = dedup_by candidateKey T xs"
    if "\<forall>c. location_ids (Location c) \<in> S \<longleftrightarrow> candidateKey c \<in> T" for S T xs
    using that
  proof (induction xs arbitrary: S T)
    case (Cons c xs)
    have "\<forall>d. location_ids (Location d) \<in> insert (location_ids (Location c)) S \<longleftrightarrow>
        candidateKey d \<in> insert (candidateKey c) T"
      using Cons.prems by (simp add: candidateKey_eq)
    with Cons show ?case by simp
  qed simp
  have "map core ?out = map core (dedup_by candidateKey {} cs) \<and> list_all (gathers cs) ?out"
  proof (cases "length cs \<le> 1")
    case True
    then show ?thesis by (cases cs) (auto simp: DeduplicateCandidates_def gathers_def)
  next
    case False
    have "dedup_inv [] Map.empty []" by (simp add: dedup_inv_def)
    from dedup_loop_inv [OF this assms] False show ?thesis
      by (auto simp: DeduplicateCandidates_def dedup_inv_def)
  qed
  then show ?thesis by (simp add: Let_def by_ids [of "{}" "{}"])
qed

text \<open>Nothing happens where the keys differ.\<close>

lemma dedup_loop_distinct:
  "distinct (map candidateKey cs) \<Longrightarrow> \<forall>c\<in>set cs. seen (candidateKey c) = None \<Longrightarrow>
     dedup_loop seen out mos cs = out @ cs"
proof (induction cs arbitrary: seen out mos)
  case (Cons c cs)
  have "dedup_loop seen out mos (c # cs)
      = dedup_loop (seen(candidateKey c \<mapsto> length out)) (out @ [c]) (tl mos) cs"
    using Cons.prems by simp
  also have "\<dots> = (out @ [c]) @ cs"
    using Cons.prems by (intro Cons.IH) (auto simp: image_iff)
  finally show ?case by simp
qed simp

lemma DeduplicateCandidates_distinct:
  "distinct (map candidateKey cs) \<Longrightarrow> DeduplicateCandidates mos cs = cs"
  by (simp add: DeduplicateCandidates_def dedup_loop_distinct)

definition dup_candidate :: "discovery_strategy \<Rightarrow> gostring \<Rightarrow> admin_candidate" where
  "dup_candidate s v = \<lparr>cand_UUID = v, OriginLevel = OriginCity,
     Location = empty_admin_location\<lparr>City := Some \<lparr>ct_ID = 7, ct_Name = ''Bandung'',
       ct_NormalizedName = ''bandung'', ct_PostalCode = []\<rparr>\<rparr>,
     Evidence = [\<lparr>me_Evidence = \<lparr>ev_Type = EvidencePlaceName, ev_Value = v\<rparr>, me_Resolved = None\<rparr>],
     DiscoveryStrategies = [s]\<rparr>"

theorem DeduplicateCandidates_merges_witness:
  "let cs = [dup_candidate DiscoveryTopDown ''bandung'', dup_candidate DiscoveryAlias ''bdg''];
       out = DeduplicateCandidates (replicate 2 \<lparr>mo_strategies = rev, mo_evidence = rev\<rparr>) cs in
     length out = 1 \<and> set (DiscoveryStrategies (hd out)) = {DiscoveryTopDown, DiscoveryAlias}"
proof -
  let ?cs = "[dup_candidate DiscoveryTopDown ''bandung'', dup_candidate DiscoveryAlias ''bdg'']"
  let ?out = "DeduplicateCandidates (replicate 2 \<lparr>mo_strategies = rev, mo_evidence = rev\<rparr>) ?cs"
  have spec: "map core ?out = map core (dedup_by (\<lambda>c. location_ids (Location c)) {} ?cs)"
    "list_all (gathers ?cs) ?out"
    using DeduplicateCandidates_merges [of "replicate 2 \<lparr>mo_strategies = rev, mo_evidence = rev\<rparr>" ?cs]
    by (simp_all add: Let_def is_merge_order_def numeral_2_eq_2)
  have "map core ?out = [core (dup_candidate DiscoveryTopDown ''bandung'')]"
    using spec(1) by (simp add: dup_candidate_def)
  then obtain d where d: "?out = [d]" "core d = core (dup_candidate DiscoveryTopDown ''bandung'')" by auto
  have key: "candidateKey d = candidateKey (dup_candidate DiscoveryTopDown ''bandung'')"
    "candidateKey (dup_candidate DiscoveryAlias ''bdg'') = candidateKey (dup_candidate DiscoveryTopDown ''bandung'')"
    using core_key [OF d(2)] by (simp_all add: candidateKey_def dup_candidate_def)
  have "{c \<in> set ?cs. candidateKey c = candidateKey d} = set ?cs" using key by auto
  then have "set (DiscoveryStrategies d) = \<Union> (set ` DiscoveryStrategies ` set ?cs)"
    using spec(2) unfolding d by (simp only: gathers_def list.pred_inject simp_thms)
  then have "set (DiscoveryStrategies d) = {DiscoveryTopDown, DiscoveryAlias}"
    by (auto simp: dup_candidate_def)
  then show ?thesis by (simp only: Let_def d) simp
qed

end
