(* ===== verification/Evidence_Extraction.thy ===== *)
theory Evidence_Extraction
  imports Address_Model Normalizer
begin

text \<open>
  \<open>internal/service/evidence.go\<close> and \<open>extractPostalCode\<close> of
  \<open>validate_helper.go\<close>: road names that must not count as location evidence, and the
  evidence that a normalised address offers. A regular expression is a matcher that carries
  whether the byte before is a word character; what the engine tries in which order is
  written out at each of them.
\<close>

section \<open>The regular expressions\<close>

text \<open>\<open>\b(\d{5})\b\<close>, the first match.\<close>

definition postalCodePattern_find :: "gostring \<Rightarrow> gostring option" where
  "postalCodePattern_find s =
     (case find_all_postal False s of [] \<Rightarrow> None | p # ps \<Rightarrow> Some p)"

definition extractPostalCode :: "gostring \<Rightarrow> gostring" where
  "extractPostalCode s = (case postalCodePattern_find s of None \<Rightarrow> [] | Some p \<Rightarrow> p)"

text \<open>\<open>\b(jl|jalan|gg|gang)\b\<close>: the length of a match at the current byte.\<close>

definition road_words :: "gostring list" where
  "road_words = [''jl'', ''jalan'', ''gg'', ''gang'']"

definition roadPrefix_at :: "bool \<Rightarrow> gostring \<Rightarrow> nat option" where
  "roadPrefix_at prev_word s =
     (if prev_word then None
      else map_option length
        (find (\<lambda>w. prefix w s \<and> \<not> next_word (drop (length w) s)) road_words))"

fun roadPrefix_remove :: "bool \<Rightarrow> gostring \<Rightarrow> gostring" where
  "roadPrefix_remove prev_word [] = []"
| "roadPrefix_remove prev_word (c # cs) =
     (case roadPrefix_at prev_word (c # cs) of
        Some n \<Rightarrow> roadPrefix_remove True (drop (n - 1) cs)
      | None \<Rightarrow> c # roadPrefix_remove (is_word_char c) cs)"

fun roadPrefix_matches :: "bool \<Rightarrow> gostring \<Rightarrow> bool" where
  "roadPrefix_matches prev_word [] = False"
| "roadPrefix_matches prev_word (c # cs) =
     (roadPrefix_at prev_word (c # cs) \<noteq> None \<or> roadPrefix_matches (is_word_char c) cs)"

text \<open>
  \<open>(?i)\b(jl\.?|jalan|gg\.?|gang)\s+([a-z][a-z\s]*)\<close>: the alternatives are tried from
  left to right, the optional dot first with and then without the dot; blanks and the phrase
  are greedy. A match yields the phrase and the rest of the text.
\<close>

definition ci_prefix :: "gostring \<Rightarrow> gostring \<Rightarrow> bool" where
  "ci_prefix w s \<longleftrightarrow> prefix w (to_lower s)"

definition with_dot :: "gostring \<Rightarrow> gostring \<Rightarrow> gostring list" where
  "with_dot w s =
     (if ci_prefix w s
      then (case drop (length w) s of
              d # r \<Rightarrow> if d = CHR ''.'' then [r, d # r] else [d # r]
            | [] \<Rightarrow> [[]])
      else [])"

definition plain :: "gostring \<Rightarrow> gostring \<Rightarrow> gostring list" where
  "plain w s = (if ci_prefix w s then [drop (length w) s] else [])"

definition road_phrase :: "gostring \<Rightarrow> (gostring \<times> gostring) option" where
  "road_phrase r =
     (let r' = dropWhile re_space r in
      if r \<noteq> [] \<and> re_space (hd r) \<and> r' \<noteq> [] \<and> is_letter (hd r')
      then Some (takeWhile keeps r', dropWhile keeps r') else None)"

definition roadContext_at :: "bool \<Rightarrow> gostring \<Rightarrow> (gostring \<times> gostring) option" where
  "roadContext_at prev_word s =
     (if prev_word then None
      else case List.map_filter road_phrase
             (with_dot ''jl'' s @ plain ''jalan'' s @ with_dot ''gg'' s @ plain ''gang'' s) of
             [] \<Rightarrow> None | m # ms \<Rightarrow> Some m)"

lemma road_phrase_shorter: "road_phrase r = Some (p, t) \<Longrightarrow> p \<noteq> [] \<and> length t < length r"
proof -
  assume "road_phrase r = Some (p, t)"
  then have r: "dropWhile re_space r \<noteq> []" "is_letter (hd (dropWhile re_space r))"
    "p = takeWhile keeps (dropWhile re_space r)" "t = dropWhile keeps (dropWhile re_space r)"
    by (auto simp: road_phrase_def Let_def split: if_splits)
  then have p: "p \<noteq> []" by (cases "dropWhile re_space r") (auto simp: keeps_def)
  have "length p + length t = length (dropWhile re_space r)"
    unfolding r(3,4) by (metis length_append takeWhile_dropWhile_id)
  moreover have "length (dropWhile re_space r) \<le> length r" by (rule length_dropWhile_le)
  ultimately show ?thesis using p by (cases p) auto
qed

lemma set_map_filter_iff: "y \<in> set (List.map_filter f xs) \<longleftrightarrow> (\<exists>x\<in>set xs. f x = Some y)"
  by (induction xs) (auto simp: map_filter_def split: option.splits)

lemma road_heads_suffix:
  assumes "r \<in> set (with_dot ''jl'' s @ plain ''jalan'' s @ with_dot ''gg'' s @ plain ''gang'' s)"
  shows "suffix r s"
proof -
  have dot: "suffix r s" if "r \<in> set (with_dot w s)" for w
  proof -
    have "suffix r (drop (length w) s)"
      using that by (auto simp: with_dot_def suffix_def split: if_splits list.splits)
    then show ?thesis using suffix_drop suffix_order.trans by blast
  qed
  have nodot: "suffix r s" if "r \<in> set (plain w s)" for w
    using that by (simp add: plain_def suffix_drop split: if_splits)
  show ?thesis using assms dot nodot by (simp only: set_append Un_iff) (elim disjE; assumption?)
qed

lemma roadContext_at_head:
  assumes "roadContext_at b s = Some (p, t)"
  obtains r where "suffix r s" and "road_phrase r = Some (p, t)"
proof -
  let ?hs = "with_dot ''jl'' s @ plain ''jalan'' s @ with_dot ''gg'' s @ plain ''gang'' s"
  have "(p, t) \<in> set (List.map_filter road_phrase ?hs)"
    using assms by (auto simp: roadContext_at_def split: if_splits list.splits)
  then obtain r where "r \<in> set ?hs" "road_phrase r = Some (p, t)"
    unfolding set_map_filter_iff by blast
  then show ?thesis using road_heads_suffix that by blast
qed

lemma roadContext_at_shorter: "roadContext_at b s = Some (p, t) \<Longrightarrow> p \<noteq> [] \<and> length t < length s"
  by (elim roadContext_at_head) (use road_phrase_shorter suffix_length_le order_less_le_trans in blast)

function roadContext_find_all :: "bool \<Rightarrow> gostring \<Rightarrow> gostring list" where
  "roadContext_find_all prev_word s =
     (case s of [] \<Rightarrow> []
      | c # cs \<Rightarrow>
          (case roadContext_at prev_word s of
             Some (phrase, rest) \<Rightarrow> phrase # roadContext_find_all (is_word_char (last phrase)) rest
           | None \<Rightarrow> roadContext_find_all (is_word_char c) cs))"
  by auto

termination roadContext_find_all
  by (relation "measure (\<lambda>(b, s). length s)") (auto dest: roadContext_at_shorter)

function roadContext_replace ::
  "(gostring \<Rightarrow> gostring) \<Rightarrow> bool \<Rightarrow> gostring \<Rightarrow> gostring" where
  "roadContext_replace f prev_word s =
     (case s of [] \<Rightarrow> []
      | c # cs \<Rightarrow>
          (case roadContext_at prev_word s of
             Some (phrase, rest) \<Rightarrow>
               f (take (length s - length rest) s)
               @ roadContext_replace f (is_word_char (last phrase)) rest
           | None \<Rightarrow> c # roadContext_replace f (is_word_char c) cs))"
  by auto

termination roadContext_replace
  by (relation "measure (\<lambda>(f, b, s). length s)") (auto dest: roadContext_at_shorter)

declare roadContext_find_all.simps [simp del] roadContext_replace.simps [simp del]

text \<open>
  \<open>(?i)\b(no\.?|rt\.?|rw\.?|\d+|,)\b\<close>: only the start of a match is used, so the
  matcher says whether one starts here. The letters and digits are word characters, so the
  first boundary asks for no word character before; for the comma it asks for one.
\<close>

definition cut_word :: "gostring \<Rightarrow> gostring \<Rightarrow> bool" where
  "cut_word w s \<longleftrightarrow> ci_prefix w s \<and>
     (let r = drop (length w) s in
      (r \<noteq> [] \<and> hd r = CHR ''.'' \<and> next_word (tl r)) \<or> \<not> next_word r)"

definition cut_here :: "bool \<Rightarrow> gostring \<Rightarrow> bool" where
  "cut_here prev_word s \<longleftrightarrow>
     (\<not> prev_word \<and> (cut_word ''no'' s \<or> cut_word ''rt'' s \<or> cut_word ''rw'' s))
   \<or> (\<not> prev_word \<and> s \<noteq> [] \<and> is_digit (hd s) \<and> \<not> next_word (dropWhile is_digit s))
   \<or> (prev_word \<and> s \<noteq> [] \<and> hd s = CHR '','' \<and> next_word (tl s))"

fun roadContextCut_index :: "bool \<Rightarrow> gostring \<Rightarrow> nat option" where
  "roadContextCut_index prev_word [] = None"
| "roadContextCut_index prev_word (c # cs) =
     (if cut_here prev_word (c # cs) then Some 0
      else map_option Suc (roadContextCut_index (is_word_char c) cs))"

section \<open>Road names\<close>

definition cut_phrase :: "gostring \<Rightarrow> gostring" where
  "cut_phrase phrase =
     (case roadContextCut_index False phrase of Some i \<Rightarrow> take i phrase | None \<Rightarrow> phrase)"

definition detectRoadContextTokens :: "gostring \<Rightarrow> gostring set" where
  "detectRoadContextTokens raw =
     (let lower = to_lower raw in
      \<Union> (set (map (\<lambda>m.
        let phrase = trim_space (cut_phrase (trim_space m))
        in if phrase = [] then {} else Normalize ` set (fields phrase))
        (filter (\<lambda>m. m \<noteq> []) (roadContext_find_all False lower)))))"

definition stripRoadContext :: "gostring \<Rightarrow> gostring" where
  "stripRoadContext raw =
     roadContext_replace
       (\<lambda>match. case roadContext_find_all False match of
          [] \<Rightarrow> match
        | phrase # phrases \<Rightarrow>
            (case roadContextCut_index False phrase of Some i \<Rightarrow> drop i phrase | None \<Rightarrow> []))
       False raw"

lemma road_examples:
  "detectRoadContextTokens ''Jl. Aceh, Bandung'' = {''aceh''}"
  "detectRoadContextTokens ''Jl. Gatot Subroto No.86'' = {''gatot'', ''subroto''}"
  "stripRoadContext ''Jl. Gatot Subroto No 86 Bandung'' = ''No 86 Bandung''"
  by code_simp+

section \<open>Evidence\<close>

definition ExtractEvidence :: "gostring \<Rightarrow> evidence list" where
  "ExtractEvidence normalized =
     (let postal = (case postalCodePattern_find normalized of
                      Some p \<Rightarrow> [\<lparr>ev_Type = EvidencePostalCode, ev_Value = p\<rparr>]
                    | None \<Rightarrow> []);
          rest = trim_space (roadPrefix_remove False normalized);
          words = filter (\<lambda>w. \<not> (postalCodePattern_find w \<noteq> None \<or> roadPrefix_matches False w))
                    (fields rest)
      in postal @ map (\<lambda>w. \<lparr>ev_Type = EvidencePlaceName, ev_Value = w\<rparr>) (dedup_by to_lower {} words))"

section \<open>Road prefixes in words\<close>

lemma roadPrefix_at_word:
  assumes "list_all is_word_char w" and "s = [] \<or> hd s = space"
  shows "roadPrefix_at False (w @ s) = (if w \<in> set road_words then Some (length w) else None)"
proof -
  have word: "prefix v (w @ s) \<and> \<not> next_word (drop (length v) (w @ s)) \<longleftrightarrow> v = w"
    if "v \<in> set road_words" for v
  proof
    have v: "list_all is_word_char v" using that by (auto simp: road_words_def char_class_defs)
    assume m: "prefix v (w @ s) \<and> \<not> next_word (drop (length v) (w @ s))"
    then obtain t where t: "w @ s = v @ t" by (auto simp: prefix_def)
    then consider us where "w = v @ us" "us @ s = t" | us where "w @ us = v" "s = us @ t"
      by (auto simp: append_eq_append_conv2)
    then show "v = w"
    proof cases
      case 1
      then have "\<not> next_word (us @ s)" using m by simp
      moreover have "list_all is_word_char us" using assms(1) 1 by simp
      ultimately show ?thesis using 1 by (cases us) auto
    next
      case 2
      then have "list_all is_word_char us" using v by auto
      then show ?thesis using 2 assms(2) by (cases us) (auto simp: char_class_defs)
    qed
  next
    assume "v = w"
    then show "prefix v (w @ s) \<and> \<not> next_word (drop (length v) (w @ s))"
      using assms(2) by (cases s) (auto simp: char_class_defs)
  qed
  have "find (\<lambda>v. prefix v (w @ s) \<and> \<not> next_word (drop (length v) (w @ s))) road_words
      = find (\<lambda>v. v = w) road_words"
    using word by (intro find_cong) auto
  also have "\<dots> = (if w \<in> set road_words then Some w else None)"
    by (auto simp: road_words_def)
  finally show ?thesis by (simp add: roadPrefix_at_def)
qed

lemma roadPrefix_remove_tail:
  "list_all is_word_char w \<Longrightarrow> roadPrefix_remove True (w @ s) = w @ roadPrefix_remove True s"
  by (induction w) (auto simp: roadPrefix_at_def)

lemma roadPrefix_remove_word:
  assumes "list_all is_word_char w" and "w \<noteq> []" and "s = [] \<or> hd s = space"
  shows "roadPrefix_remove False (w @ s)
    = (if w \<in> set road_words then [] else w) @ roadPrefix_remove True s"
proof -
  obtain c cs where w: "w = c # cs" using assms(2) by (cases w) auto
  have at: "roadPrefix_at False (c # cs @ s) = (if w \<in> set road_words then Some (length w) else None)"
    using roadPrefix_at_word [OF assms(1,3)] by (simp add: w)
  show ?thesis
    using assms(1) roadPrefix_remove_tail [of cs s] by (simp add: w at)
qed

lemma roadPrefix_at_space: "roadPrefix_at b (space # s) = None"
  by (auto simp: roadPrefix_at_def road_words_def)

lemma roadPrefix_remove_join:
  assumes "\<forall>w\<in>set ws. w \<noteq> [] \<and> list_all is_word_char w"
  shows "fields (roadPrefix_remove False (join [space] ws)) = filter (\<lambda>w. w \<notin> set road_words) ws"
proof -
  have word: "list_all is_word_char w \<Longrightarrow> w \<noteq> [] \<Longrightarrow> is_word w" for w
    by (auto simp: is_word_def list_all_iff dest: is_space_not_word)
  have nsp: "\<not> is_word_char space" by (simp add: char_class_defs)
  show ?thesis
    using assms
  proof (induction ws)
    case (Cons w ws)
    let ?J = "join [space] ws"
    have w: "list_all is_word_char w" "w \<noteq> []" using Cons.prems by auto
    show ?case
    proof (cases "ws = []")
      case True
      then show ?thesis
        using roadPrefix_remove_word [OF w, of "[]"] w word by (simp add: fields_word)
    next
      case False
      have sp: "roadPrefix_remove True (space # ?J) = space # roadPrefix_remove False ?J"
        using nsp by (simp add: roadPrefix_at_space)
      have "roadPrefix_remove False (join [space] (w # ws))
          = (if w \<in> set road_words then [] else w) @ space # roadPrefix_remove False ?J"
        using False roadPrefix_remove_word [OF w, of "space # ?J"] by (simp add: join_Cons sp del: roadPrefix_remove.simps)
      with Cons w word show ?thesis by (simp add: fields_word_space)
    qed
  qed simp
qed

lemma roadPrefix_matches_tail: "list_all is_word_char w \<Longrightarrow> \<not> roadPrefix_matches True w"
  by (induction w) (auto simp: roadPrefix_at_def)

lemma roadPrefix_matches_word:
  "list_all is_word_char w \<Longrightarrow> w \<noteq> [] \<Longrightarrow> roadPrefix_matches False w \<longleftrightarrow> w \<in> set road_words"
  using roadPrefix_at_word [of w "[]"] roadPrefix_matches_tail [of "tl w"]
  by (cases w) auto

section \<open>The evidence of a normalised address\<close>

lemma norm_word_chars: "w \<in> set (norm_words t) \<Longrightarrow> list_all is_word_char w"
proof -
  assume "w \<in> set (norm_words t)"
  then consider "letter_word w" | "postal_word w"
    unfolding norm_words_def rePostalCode_FindAllString_def
    using norm_words_letters find_all_postal_words by auto
  then show ?thesis
    by cases (auto simp: letter_word_def postal_word_def list_all_iff
        intro: is_letter_word is_lower_letter is_digit_word)
qed

lemma postal_find_word: "list_all is_word_char w \<Longrightarrow> postalCodePattern_find w \<noteq> None \<longleftrightarrow> postal_word w"
proof -
  have tail: "list_all is_word_char v \<Longrightarrow> find_all_postal True v = []" for v
    by (induction v) auto
  assume w: "list_all is_word_char w"
  show ?thesis
  proof (cases w)
    case Nil
    then show ?thesis by (simp add: postalCodePattern_find_def postal_word_def)
  next
    case (Cons c cs)
    have "next_word (drop 5 w) \<longleftrightarrow> drop 5 w \<noteq> []"
      using w by (cases "drop 5 w") (auto dest: in_set_dropD simp: list_all_iff, metis in_set_dropD list.set_intros(1))
    then have "postal_at w \<longleftrightarrow> postal_word w"
      by (auto simp: postal_at_def postal_word_def)
    with Cons w tail [of cs] show ?thesis by (auto simp: postalCodePattern_find_def)
  qed
qed

text \<open>
  C36. On a normalised address the evidence is the first postal code, if there is one, and
  then every word once, in order, that is neither a postal code nor a road prefix.
\<close>

theorem ExtractEvidence_Normalize:
  "ExtractEvidence (Normalize t) =
     (let words = fields (Normalize t) in
        (case filter postal_word words of [] \<Rightarrow> []
         | p # _ \<Rightarrow> [\<lparr>ev_Type = EvidencePostalCode, ev_Value = p\<rparr>])
      @ map (\<lambda>w. \<lparr>ev_Type = EvidencePlaceName, ev_Value = w\<rparr>)
          (dedup_by (\<lambda>w. w) {} (filter (\<lambda>w. \<not> postal_word w \<and> w \<notin> set road_words) words)))"
proof -
  let ?W = "letter_words (filtered_words t)"
  let ?P = "rePostalCode_FindAllString (join [space] (filtered_words t))"
  have W: "w \<in> set ?W \<Longrightarrow> letter_word w" for w by (rule norm_words_letters)
  have P: "p \<in> set ?P \<Longrightarrow> postal_word p" for p
    unfolding rePostalCode_FindAllString_def by (rule find_all_postal_words)
  have not_postal: "letter_word w \<Longrightarrow> \<not> postal_word w" for w
    by (cases w) (auto simp: letter_word_def postal_word_def char_class_defs)
  have words: "fields (Normalize t) = ?W @ ?P" by (simp add: fields_Normalize norm_words_def)
  have chars: "\<forall>w\<in>set (norm_words t). w \<noteq> [] \<and> list_all is_word_char w"
    using norm_word_chars norm_words_is_word by (auto simp: is_word_def)
  have rest: "fields (trim_space (roadPrefix_remove False (Normalize t)))
      = filter (\<lambda>w. w \<notin> set road_words) (norm_words t)"
    using roadPrefix_remove_join [OF chars] by (simp add: Normalize_join)
  have "filter (\<lambda>w. \<not> (postalCodePattern_find w \<noteq> None \<or> roadPrefix_matches False w))
        (filter (\<lambda>w. w \<notin> set road_words) (norm_words t))
      = filter (\<lambda>w. \<not> postal_word w \<and> w \<notin> set road_words) (norm_words t)"
    unfolding filter_filter
    by (rule filter_cong) (use chars postal_find_word roadPrefix_matches_word in auto)
  moreover have lower: "to_lower w = w" if w: "w \<in> set (norm_words t)" for w
  proof (rule to_lower_id)
    fix c assume c: "c \<in> set w"
    consider "letter_word w" | "postal_word w" using w W P by (auto simp: norm_words_def)
    then show "\<not> is_upper c"
      by cases (use c in \<open>fastforce simp: letter_word_def postal_word_def list_all_iff char_class_defs\<close>)+
  qed
  moreover have "dedup_by to_lower S ws = dedup_by (\<lambda>w. w) S ws" if "\<forall>w\<in>set ws. to_lower w = w" for S ws
    using that by (induction ws arbitrary: S) auto
  moreover have "filter postal_word (?W @ ?P) = ?P"
    using W P not_postal by (simp add: filter_empty_conv)
  moreover have "postalCodePattern_find (Normalize t) = (case ?P of [] \<Rightarrow> None | p # ps \<Rightarrow> Some p)"
    by (simp add: postalCodePattern_find_def find_all_postal_Normalize)
  ultimately show ?thesis
    unfolding ExtractEvidence_def Let_def rest words
    by (simp add: norm_words_def [symmetric] split: list.split)
qed

section \<open>Road tokens stop at a house number\<close>

text \<open>
  A word of a phrase that is one of the terminators starts a match of the cut pattern, so it
  cannot survive in front of the cut.
\<close>

definition terminators :: "gostring set" where
  "terminators = {''no'', ''rt'', ''rw''}"

lemma cut_index_word:
  assumes "w \<in> terminators" and "t = [] \<or> is_space (hd t)"
  shows "roadContextCut_index False (w @ t) = Some 0"
proof -
  have "\<not> next_word t" using assms(2) is_space_not_word by (cases t) auto
  moreover have "ci_prefix w (w @ t)" using assms(1) by (auto simp: ci_prefix_def terminators_def to_lower_char_id char_class_defs)
  ultimately have "cut_word w (w @ t)" by (simp add: cut_word_def)
  with assms(1) show ?thesis by (auto simp: terminators_def cut_here_def)
qed

lemma cut_index_le: "roadContextCut_index b s = Some i \<Longrightarrow> i < length s"
  by (induction b s arbitrary: i rule: roadContextCut_index.induct) (auto split: if_splits)

lemma cut_word_letter: "cut_word w s \<Longrightarrow> w \<in> terminators \<Longrightarrow> s \<noteq> [] \<and> is_letter (hd s)"
proof -
  assume "cut_word w s" and w: "w \<in> terminators"
  then have p: "prefix w (to_lower s)" by (simp add: cut_word_def ci_prefix_def)
  have "w \<noteq> []" "is_letter (hd w)" using w by (auto simp: terminators_def char_class_defs)
  then obtain c cs where w': "w = c # cs" "is_letter c" by (cases w) auto
  then obtain d ds where s: "s = d # ds" using p by (cases s) auto
  then have "to_lower_char d = c" using p w' by simp
  with w' s show ?thesis using is_letter_to_lower_char [of d] by simp
qed

lemma cut_here_boundary:
  assumes "cut_here b s" and "list_all keeps s"
  shows "\<not> b"
  using assms by (auto simp: cut_here_def keeps_def char_class_defs neq_Nil_conv)

definition flag_after :: "bool \<Rightarrow> gostring \<Rightarrow> bool" where
  "flag_after b u = (if u = [] then b else is_word_char (last u))"

lemma cut_index_here:
  "roadContextCut_index b s = Some i \<Longrightarrow> cut_here (flag_after b (take i s)) (drop i s)"
proof (induction b s arbitrary: i rule: roadContextCut_index.induct)
  case (2 b c cs)
  show ?case
  proof (cases "cut_here b (c # cs)")
    case True
    with 2 show ?thesis by (simp add: flag_after_def)
  next
    case False
    with "2.prems" obtain j where j: "roadContextCut_index (is_word_char c) cs = Some j" "i = Suc j"
      by auto
    with "2.IH" [OF False j(1)] show ?thesis by (cases "take j cs") (simp_all add: flag_after_def)
  qed
qed simp

lemma cut_index_append:
  "roadContextCut_index (flag_after b u) t = Some 0 \<Longrightarrow> \<exists>j\<le>length u. roadContextCut_index b (u @ t) = Some j"
proof (induction u arbitrary: b)
  case (Cons c u)
  have "flag_after b (c # u) = flag_after (is_word_char c) u" by (simp add: flag_after_def)
  with Cons obtain j where "j \<le> length u" "roadContextCut_index (is_word_char c) (u @ t) = Some j" by auto
  then show ?case by auto
qed (simp add: flag_after_def)

lemma cut_phrase_words:
  assumes "list_all keeps p"
  shows "set (fields (cut_phrase p)) \<inter> terminators = {}"
proof (rule ccontr)
  assume "set (fields (cut_phrase p)) \<inter> terminators \<noteq> {}"
  then obtain w where w: "w \<in> set (fields (cut_phrase p))" "w \<in> terminators" by blast
  obtain u v where uv: "cut_phrase p = u @ w @ v" "u = [] \<or> is_space (last u)" "v = [] \<or> is_space (hd v)"
    using fields_split [OF w(1)] by blast
  obtain r where r: "p = cut_phrase p @ r" "r = [] \<or> (\<exists>i. roadContextCut_index False p = Some i \<and> r = drop i p \<and> i = length (cut_phrase p))"
  proof (cases "roadContextCut_index False p")
    case None
    then show ?thesis using that [of "[]"] by (simp add: cut_phrase_def)
  next
    case (Some i)
    then show ?thesis using that [of "drop i p"] cut_index_le [OF Some] by (simp add: cut_phrase_def)
  qed
  have last: "is_word_char (last w)" "w \<noteq> []" using w(2) by (auto simp: terminators_def char_class_defs)
  have "v @ r = [] \<or> is_space (hd (v @ r))"
  proof (cases "v = []")
    case True
    have "r = []"
    proof (rule ccontr)
      assume "r \<noteq> []"
      then obtain i where i: "roadContextCut_index False p = Some i" "r = drop i p" "i = length (cut_phrase p)"
        using r(2) by blast
      have "take i p = u @ w" using r(1) i(3) uv(1) True by (metis append_Nil2 append_eq_conv_conj)
      with cut_index_here [OF i(1)] last have "cut_here True r"
        by (simp add: i(2) flag_after_def)
      moreover have "list_all keeps r" using assms r(1) by (metis list_all_append)
      ultimately show False using cut_here_boundary by blast
    qed
    with True show ?thesis by simp
  next
    case False
    with uv(3) show ?thesis by simp
  qed
  then have "roadContextCut_index False (w @ v @ r) = Some 0" by (rule cut_index_word [OF w(2)])
  moreover have "flag_after False u = False" using uv(2) is_space_not_word by (auto simp: flag_after_def)
  ultimately obtain j where j: "j \<le> length u" "roadContextCut_index False (u @ w @ v @ r) = Some j"
    using cut_index_append [of False u] by metis
  have "p = u @ w @ v @ r" using r(1) uv(1) by simp
  with j have "cut_phrase p = take j p" by (simp add: cut_phrase_def)
  then have "length (cut_phrase p) \<le> length u" using j(1) by simp
  with uv(1) last(2) show False by simp
qed

lemma roadContext_at_chars:
  assumes "roadContext_at b s = Some (q, t)"
  shows "list_all keeps q" and "set q \<subseteq> set s" and "set t \<subseteq> set s"
proof -
  obtain r where r: "suffix r s" "road_phrase r = Some (q, t)" using assms by (rule roadContext_at_head)
  have rs: "set r \<subseteq> set s" by (rule set_mono_suffix [OF r(1)])
  have q: "q = takeWhile keeps (dropWhile re_space r)" and t: "t = dropWhile keeps (dropWhile re_space r)"
    using r(2) by (simp_all add: road_phrase_def Let_def split: if_splits)
  have "list_all keeps (takeWhile keeps r')" for r' by (induction r') simp_all
  then show "list_all keeps q" by (simp only: q)
  have tw: "set (takeWhile keeps (dropWhile re_space r)) \<subseteq> set r"
    by (auto dest!: set_takeWhileD set_dropWhileD)
  have dw: "set (dropWhile keeps (dropWhile re_space r)) \<subseteq> set r"
    by (auto dest!: set_dropWhileD)
  show "set q \<subseteq> set s" unfolding q by (rule order_trans [OF tw rs])
  show "set t \<subseteq> set s" unfolding t by (rule order_trans [OF dw rs])
qed

lemma roadContext_phrase_chars:
  "p \<in> set (roadContext_find_all b s) \<Longrightarrow> list_all keeps p \<and> set p \<subseteq> set s"
proof (induction b s rule: roadContext_find_all.induct)
  case (1 b s)
  show ?case
  proof (cases s)
    case Nil
    with 1 show ?thesis by (simp add: roadContext_find_all.simps [of b "[]"])
  next
    case (Cons c cs)
    show ?thesis
    proof (cases "roadContext_at b s")
      case None
      have "p \<in> set (roadContext_find_all (is_word_char c) cs)"
        using "1.prems" None Cons by (simp add: roadContext_find_all.simps [of b "c # cs"])
      with "1.IH"(1) [OF Cons None] Cons show ?thesis by auto
    next
      case (Some m)
      obtain q t where m: "m = (q, t)" by (cases m)
      have "p = q \<or> p \<in> set (roadContext_find_all (is_word_char (last q)) t)"
        using "1.prems" Some m Cons by (simp add: roadContext_find_all.simps [of b "c # cs"])
      moreover have "list_all keeps p \<and> set p \<subseteq> set t"
        if "p \<in> set (roadContext_find_all (is_word_char (last q)) t)"
        using "1.IH"(2) [OF Cons Some m [symmetric]] that by blast
      ultimately show ?thesis using roadContext_at_chars [OF Some [unfolded m]] by auto
    qed
  qed
qed

lemma Normalize_word: "letter_word w \<Longrightarrow> Normalize w = (if w \<in> adminSet then [] else w)"
proof -
  assume w: "letter_word w"
  have no_back: "CHR 0x5C \<notin> set w" using w by (auto simp: letter_word_def list_all_iff char_class_defs)
  then have rep: "replace_all backslash_n [space] w = w"
    by (intro replace_all_absent) (auto simp: backslash_n_def)
  have low: "to_lower w = w" using w by (intro to_lower_id) (auto simp: letter_word_def list_all_iff char_class_defs)
  have word: "is_word w" by (rule letter_word_is_word [OF w])
  have "filtered_words w = (if w \<in> adminSet then [] else [w])"
    by (simp add: filtered_words_def rep low trim_space_word [OF word] fields_word [OF word])
  moreover have "find_all_postal b w = []" for b
    using letter_word_no_digit [OF w] by (rule find_all_postal_no_digit)
  ultimately show ?thesis
    using letter_words_id [of "[w]"] w
    by (simp add: Normalize_join norm_words_def rePostalCode_FindAllString_def letter_words_def)
qed

text \<open>
  Road tokens are single lower-case words (or empty, for an administrative prefix), and
  never the words that introduce a house or block number.
\<close>

theorem detectRoadContextTokens_words:
  "detectRoadContextTokens raw \<subseteq> {t. t = [] \<or> letter_word t} - {''no'', ''rt'', ''rw''}"
proof
  fix t assume "t \<in> detectRoadContextTokens raw"
  then obtain m w where m: "m \<in> set (roadContext_find_all False (to_lower raw))"
    and w: "w \<in> set (fields (trim_space (cut_phrase (trim_space m))))" and t: "t = Normalize w"
    by (auto simp: detectRoadContextTokens_def Let_def split: if_splits)
  have m': "list_all keeps (trim_space m)" "set (trim_space m) \<subseteq> set (to_lower raw)"
    using roadContext_phrase_chars [OF m] set_trim_space [of m] by (auto simp: list_all_iff)
  have w': "w \<in> set (fields (cut_phrase (trim_space m)))" using w by simp
  have "set (cut_phrase p) \<subseteq> set p" for p
    by (auto simp: cut_phrase_def dest: in_set_takeD split: option.splits)
  then have sub: "set w \<subseteq> set (trim_space m)" using fields_set [OF w'] by blast
  have "is_lower c" if "c \<in> set w" for c
  proof -
    have "keeps c" "\<not> is_upper c" using that sub m' to_lower_no_upper by (auto simp: list_all_iff)
    moreover have "\<not> is_space c" using fields_words [OF w'] that by (simp add: is_word_def)
    ultimately show ?thesis by (auto simp: keeps_def is_letter_def dest: re_space_is_space)
  qed
  then have "letter_word w" using fields_words [OF w'] by (simp add: letter_word_def is_word_def list_all_iff)
  moreover have "w \<notin> terminators" using cut_phrase_words [OF m'(1)] w' by blast
  ultimately show "t \<in> {t. t = [] \<or> letter_word t} - {''no'', ''rt'', ''rw''}"
    by (auto simp: t Normalize_word terminators_def split: if_splits)
qed

end
