(* ===== verification/Service_State.thy ===== *)
theory Service_State
  imports Address_Model
begin

text \<open>
  The \<open>Service\<close> struct of \<open>internal/service/service.go\<close> as far as the validation
  pipeline uses it: the rows and entries of the location tables, the caches with their
  \<open>sync.Once\<close> guards and the indexes. A Go map that is ranged over somewhere is an
  association list, one that is only looked up a partial function.
\<close>

type_synonym go_error = gostring

section \<open>Entries\<close>

record province_entry =
  pe_ID :: int64
  pe_Name :: gostring
  pe_Kode :: gostring

record city_entry =
  ce_ID :: int64
  ce_Name :: gostring
  ce_Kode :: gostring
  ce_PostalCode :: gostring

record district_entry =
  de_ID :: int64
  de_Name :: gostring
  de_Kode :: gostring

record sub_district_entry =
  se_ID :: int64
  se_Name :: gostring
  se_Kode :: gostring
  se_PostalCode :: gostring

type_synonym phrase_dict = "(gostring \<times> (gostring \<times> entity list) list) list"

section \<open>The service\<close>

record service =
  maxAddressLength :: int
  sourceCode :: gostring
  enableStoreRequest :: bool
  provinceCache :: "(gostring \<times> province_entry list) list"
  provinceOnce :: bool
  provinceErr :: "go_error option"
  provinceKodeToEntry :: "gostring \<rightharpoonup> province_entry"
  provinceByID :: "int64 \<rightharpoonup> province_entry"
  cityCache :: "(gostring \<times> city_entry list) list"
  cityOnce :: bool
  cityErr :: "go_error option"
  cityByID :: "(int64 \<times> city_entry) list"
  districtCache :: "(gostring \<times> district_entry list) list"
  districtOnce :: bool
  districtErr :: "go_error option"
  districtByID :: "(int64 \<times> district_entry) list"
  subDistrictCache :: "(gostring \<times> sub_district_entry list) list"
  subDistrictOnce :: bool
  subDistrictErr :: "go_error option"
  subDistrictByID :: "(int64 \<times> sub_district_entry) list"
  cityPrioritySet :: "(gostring \<times> gostring) list"
  cityPriorityOnce :: bool
  cityPriorityErr :: "go_error option"
  hierarchyCache :: "hierarchy_map option"
  hierarchyOnce :: bool
  hierarchyErr :: "go_error option"
  phraseDict :: phrase_dict
  compactPhraseDict :: "phrase_dict option"
  phraseDictOnce :: bool
  phraseDictErr :: "go_error option"
  childrenOnce :: bool
  citiesByProvince :: "int64 \<Rightarrow> city_entry list"
  districtsByCity :: "int64 \<Rightarrow> district_entry list"
  subDistrictsByDistrict :: "int64 \<Rightarrow> sub_district_entry list"

text \<open>The service as \<open>New\<close> returns it: no cache loaded, every map nil.\<close>

definition new_service :: "int \<Rightarrow> gostring \<Rightarrow> bool \<Rightarrow> service" where
  "new_service maxLen code store = \<lparr>
     maxAddressLength = maxLen, sourceCode = code, enableStoreRequest = store,
     provinceCache = [], provinceOnce = False, provinceErr = None,
     provinceKodeToEntry = Map.empty, provinceByID = Map.empty,
     cityCache = [], cityOnce = False, cityErr = None, cityByID = [],
     districtCache = [], districtOnce = False, districtErr = None, districtByID = [],
     subDistrictCache = [], subDistrictOnce = False, subDistrictErr = None, subDistrictByID = [],
     cityPrioritySet = [], cityPriorityOnce = False, cityPriorityErr = None,
     hierarchyCache = None, hierarchyOnce = False, hierarchyErr = None,
     phraseDict = [], compactPhraseDict = None, phraseDictOnce = False, phraseDictErr = None,
     childrenOnce = False, citiesByProvince = (\<lambda>_. []), districtsByCity = (\<lambda>_. []),
     subDistrictsByDistrict = (\<lambda>_. [])\<rparr>"

text \<open>An identifier index holds every entry under its own identifier.\<close>

definition indexed :: "('e \<Rightarrow> int64) \<Rightarrow> (int64 \<rightharpoonup> 'e) \<Rightarrow> bool" where
  "indexed id_of m \<longleftrightarrow> (\<forall>i e. m i = Some e \<longrightarrow> id_of e = i)"

definition indexes_ok :: "service \<Rightarrow> bool" where
  "indexes_ok svc \<longleftrightarrow>
     indexed pe_ID (provinceByID svc) \<and> indexed ce_ID (map_of (cityByID svc))
   \<and> indexed de_ID (map_of (districtByID svc)) \<and> indexed se_ID (map_of (subDistrictByID svc))"

lemma indexedD: "indexed f m \<Longrightarrow> m i = Some e \<Longrightarrow> f e = i"
  by (simp add: indexed_def)

lemma indexed_empty [simp]: "indexed f Map.empty"
  by (simp add: indexed_def)

lemma indexed_upd: "indexed f m \<Longrightarrow> f e = i \<Longrightarrow> indexed f (m(i \<mapsto> e))"
  by (simp add: indexed_def)

lemma indexes_ok_new: "indexes_ok (new_service n code store)"
  by (simp add: indexes_ok_def new_service_def)

section \<open>The orders of map ranges\<close>

text \<open>
  One order for every kind of map that the validation pipeline ranges over. A property that
  speaks of every \<open>ro\<close> with \<open>is_range_orders\<close> holds whatever order the runtime picks
  for each content.
\<close>

record range_orders =
  ro_levels :: "(gostring \<times> entity list) order"
  ro_phrases :: "(gostring \<times> (gostring \<times> entity list) list) order"
  ro_provinces :: "(gostring \<times> province_entry list) order"
  ro_cities :: "(gostring \<times> city_entry list) order"
  ro_districts :: "(gostring \<times> district_entry list) order"
  ro_subDistricts :: "(gostring \<times> sub_district_entry list) order"
  ro_cityByID :: "(int64 \<times> city_entry) order"
  ro_districtByID :: "(int64 \<times> district_entry) order"
  ro_subDistrictByID :: "(int64 \<times> sub_district_entry) order"
  ro_targets :: "(gostring \<times> entity list) order"
  ro_counts :: "(int64 \<times> nat) order"
  ro_corrections :: "(gostring \<times> gostring) order"
  ro_groups :: "(gostring \<times> location list) order"

definition is_range_orders :: "range_orders \<Rightarrow> bool" where
  "is_range_orders ro \<longleftrightarrow>
     is_order (ro_levels ro) \<and> is_order (ro_phrases ro) \<and> is_order (ro_provinces ro)
   \<and> is_order (ro_cities ro) \<and> is_order (ro_districts ro) \<and> is_order (ro_subDistricts ro)
   \<and> is_order (ro_cityByID ro) \<and> is_order (ro_districtByID ro) \<and> is_order (ro_subDistrictByID ro)
   \<and> is_order (ro_targets ro) \<and> is_order (ro_counts ro) \<and> is_order (ro_corrections ro)
   \<and> is_order (ro_groups ro)"

text \<open>The order of insertion, for evaluating examples.\<close>

definition insertion_orders :: range_orders where
  "insertion_orders = \<lparr>ro_levels = (\<lambda>x. x), ro_phrases = (\<lambda>x. x), ro_provinces = (\<lambda>x. x),
     ro_cities = (\<lambda>x. x), ro_districts = (\<lambda>x. x), ro_subDistricts = (\<lambda>x. x), ro_cityByID = (\<lambda>x. x),
     ro_districtByID = (\<lambda>x. x), ro_subDistrictByID = (\<lambda>x. x), ro_targets = (\<lambda>x. x),
     ro_counts = (\<lambda>x. x), ro_corrections = (\<lambda>x. x), ro_groups = (\<lambda>x. x)\<rparr>"

lemma insertion_orders_ok: "is_range_orders insertion_orders"
  by (simp add: is_range_orders_def insertion_orders_def)

end
