(* ===== verification/Go_Sort.thy ===== *)
theory Go_Sort
  imports AQ_Prelude
begin

text \<open>
  \<open>sort.Slice\<close> and \<open>sort.SliceStable\<close>. The first promises a permutation in which no
  element is less than one before it, provided the comparison is a strict weak order, and
  says nothing about equal elements; the service's stages take it as an argument and rest on
  the locale \<open>go_sort\<close>. The stable sort is determined by its contract and written out as
  an insertion sort, which also is the instance that shows \<open>go_sort\<close> can be met.
\<close>

section \<open>Strict weak orders\<close>

definition strict_weak :: "('a \<Rightarrow> 'a \<Rightarrow> bool) \<Rightarrow> bool" where
  "strict_weak lt \<longleftrightarrow>
     (\<forall>x. \<not> lt x x) \<and> (\<forall>x y z. lt x y \<longrightarrow> lt y z \<longrightarrow> lt x z)
   \<and> (\<forall>x y z. \<not> lt x y \<longrightarrow> \<not> lt y z \<longrightarrow> \<not> lt x z)"

lemma strict_weak_asym: "strict_weak lt \<Longrightarrow> lt x y \<Longrightarrow> \<not> lt y x"
  unfolding strict_weak_def by blast

lemma strict_weak_trans_le:
  "strict_weak lt \<Longrightarrow> \<not> lt y x \<Longrightarrow> \<not> lt z y \<Longrightarrow> \<not> lt z x"
  unfolding strict_weak_def by blast

lemma strict_weak_key: "strict_weak (\<lambda>x y. (key x :: 'k :: linorder) < key y)"
  unfolding strict_weak_def by auto

text \<open>Comparing by one order and, on ties, by another.\<close>

lemma strict_weak_lex:
  assumes a: "strict_weak a" and b: "strict_weak b"
  shows "strict_weak (\<lambda>x y. if a x y \<or> a y x then a x y else b x y)"
proof -
  have t: "\<And>x y z. a x y \<Longrightarrow> a y z \<Longrightarrow> a x z" "\<And>x y z. \<not> a x y \<Longrightarrow> \<not> a y z \<Longrightarrow> \<not> a x z"
    "\<And>x. \<not> a x x" using a unfolding strict_weak_def by blast+
  have u: "\<And>x y z. b x y \<Longrightarrow> b y z \<Longrightarrow> b x z" "\<And>x y z. \<not> b x y \<Longrightarrow> \<not> b y z \<Longrightarrow> \<not> b x z"
    "\<And>x. \<not> b x x" using b unfolding strict_weak_def by blast+
  show ?thesis
    unfolding strict_weak_def by (intro conjI allI impI) (metis t u)+
qed

section \<open>The contract of sort.Slice\<close>

locale go_sort =
  fixes sort_slice :: "('a \<Rightarrow> 'a \<Rightarrow> bool) \<Rightarrow> 'a list \<Rightarrow> 'a list"
  assumes permutes: "mset (sort_slice lt xs) = mset xs"
    and ordered: "strict_weak lt \<Longrightarrow> sorted_wrt (\<lambda>x y. \<not> lt y x) (sort_slice lt xs)"
begin

lemma set_sort: "set (sort_slice lt xs) = set xs"
  by (metis permutes set_mset_mset)

lemma length_sort: "length (sort_slice lt xs) = length xs"
  by (metis permutes size_mset)

lemma sort_Nil: "sort_slice lt xs = [] \<longleftrightarrow> xs = []"
  by (metis length_0_conv length_sort)

lemma hd_least:
  assumes "strict_weak lt" and "x \<in> set xs"
  shows "\<not> lt x (hd (sort_slice lt xs))"
proof -
  have "sort_slice lt xs \<noteq> []" using assms(2) by (auto simp: sort_Nil)
  then obtain y ys where s: "sort_slice lt xs = y # ys" by (cases "sort_slice lt xs") auto
  have "x \<in> set (y # ys)" using assms(2) by (simp only: s [symmetric] set_sort)
  then have "x = y \<or> x \<in> set ys" by simp
  moreover have "\<not> lt x y" if "x \<in> set ys"
    using ordered [OF assms(1), of xs] s that by simp
  moreover have "\<not> lt y y" using assms(1) unfolding strict_weak_def by blast
  ultimately show ?thesis unfolding s list.sel by blast
qed

lemma hd_in: "xs \<noteq> [] \<Longrightarrow> hd (sort_slice lt xs) \<in> set xs"
  by (metis hd_in_set set_sort sort_Nil)

end

section \<open>The stable sort\<close>

fun insert_by :: "('a \<Rightarrow> 'a \<Rightarrow> bool) \<Rightarrow> 'a \<Rightarrow> 'a list \<Rightarrow> 'a list" where
  "insert_by lt x [] = [x]"
| "insert_by lt x (y # ys) = (if lt y x then y # insert_by lt x ys else x # y # ys)"

definition stable_sort :: "('a \<Rightarrow> 'a \<Rightarrow> bool) \<Rightarrow> 'a list \<Rightarrow> 'a list" where
  "stable_sort lt xs = foldr (insert_by lt) xs []"

lemma mset_insert_by: "mset (insert_by lt x ys) = add_mset x (mset ys)"
  by (induction ys) auto

lemma mset_stable_sort: "mset (stable_sort lt xs) = mset xs"
  by (induction xs) (simp_all add: stable_sort_def mset_insert_by)

lemma insert_by_sorted:
  assumes "strict_weak lt" and "sorted_wrt (\<lambda>x y. \<not> lt y x) ys"
  shows "sorted_wrt (\<lambda>x y. \<not> lt y x) (insert_by lt x ys)"
  using assms(2)
proof (induction ys)
  case (Cons y ys)
  have set: "set (insert_by lt x ys) = insert x (set ys)"
    by (metis mset_insert_by set_mset_add_mset_insert set_mset_mset)
  show ?case
  proof (cases "lt y x")
    case True
    then show ?thesis using Cons strict_weak_asym [OF assms(1)] by (simp add: set)
  next
    case False
    then show ?thesis using Cons strict_weak_trans_le [OF assms(1)] by auto
  qed
qed simp

lemma stable_sort_sorted: "strict_weak lt \<Longrightarrow> sorted_wrt (\<lambda>x y. \<not> lt y x) (stable_sort lt xs)"
  by (induction xs) (simp_all add: stable_sort_def insert_by_sorted)

interpretation stable: go_sort stable_sort
  by unfold_locales (simp_all add: mset_stable_sort stable_sort_sorted)

text \<open>Equal elements keep their order.\<close>

lemma insert_by_filter:
  assumes "strict_weak lt" and "\<And>y z. P y \<Longrightarrow> P z \<Longrightarrow> \<not> lt y z"
    and "sorted_wrt (\<lambda>x y. \<not> lt y x) ys"
  shows "filter P (insert_by lt x ys) = (if P x then x # filter P ys else filter P ys)"
  using assms(3)
proof (induction ys)
  case (Cons y ys)
  show ?case
  proof (cases "lt y x")
    case True
    then have "\<not> (P y \<and> P x)" using assms(2) by blast
    then show ?thesis using Cons True by auto
  qed simp
qed simp

lemma stable_sort_stable:
  assumes "strict_weak lt" and "\<And>y z. P y \<Longrightarrow> P z \<Longrightarrow> \<not> lt y z"
  shows "filter P (stable_sort lt xs) = filter P xs"
proof (induction xs)
  case (Cons x xs)
  then show ?case
    using insert_by_filter [OF assms stable_sort_sorted [OF assms(1)], of P x xs]
    by (simp add: stable_sort_def)
qed (simp add: stable_sort_def)

end
