(* ===== verification/Candidates.thy ===== *)
theory Candidates
  imports Service_State Normalizer Dedup Go_Sort Evaluate_Laws
begin

text \<open>
  \<open>internal/service/builder.go\<close> and \<open>enrich.go\<close>: from resolved evidence to candidates.
  Discovery starts one candidate per distinct entity, enrichment walks up the hierarchy,
  conclusions drop duplicates, attach the evidence that lies on the candidate and order by
  depth. Unique identifiers and the unstable sort are arguments.
\<close>

section \<open>Discovery\<close>

definition collect_entity ::
  "int64 set \<times> (gostring \<Rightarrow> entity list) \<Rightarrow> entity \<Rightarrow> int64 set \<times> (gostring \<Rightarrow> entity list)" where
  "collect_entity st c =
     (case st of (seen, entities) \<Rightarrow>
        if ent_ID c \<in> seen then (seen, entities)
        else (insert (ent_ID c) seen, entities(ent_Level c := entities (ent_Level c) @ [c])))"

definition collectUniqueEntities :: "resolved_evidence list \<Rightarrow> gostring \<Rightarrow> entity list" where
  "collectUniqueEntities evidence =
     snd (foldl (\<lambda>st re. if ev_Type (re_Evidence re) = EvidencePostalCode then st
                 else foldl collect_entity st (re_Candidates re))
            ({}, \<lambda>level. []) evidence)"

definition new_candidate :: "origin_level \<Rightarrow> admin_location \<Rightarrow> admin_candidate" where
  "new_candidate origin loc =
     \<lparr>cand_UUID = [], OriginLevel = origin, Location = loc, Evidence = [], DiscoveryStrategies = []\<rparr>"

definition buildFromProvince :: "entity list \<Rightarrow> admin_candidate list" where
  "buildFromProvince entities = map (\<lambda>e. new_candidate OriginProvince
     (empty_admin_location\<lparr>Province := Some \<lparr>p_ID = ent_ID e, p_Name = ent_Name e,
        p_NormalizedName = Normalize (ent_Name e)\<rparr>\<rparr>)) entities"

definition buildFromCity :: "entity list \<Rightarrow> admin_candidate list" where
  "buildFromCity entities = map (\<lambda>e. new_candidate OriginCity
     (empty_admin_location\<lparr>City := Some \<lparr>ct_ID = ent_ID e, ct_Name = ent_Name e,
        ct_NormalizedName = Normalize (ent_Name e), ct_PostalCode = ent_PostalCode e\<rparr>\<rparr>)) entities"

definition buildFromDistrict :: "entity list \<Rightarrow> admin_candidate list" where
  "buildFromDistrict entities = map (\<lambda>e. new_candidate OriginDistrict
     (empty_admin_location\<lparr>District := Some \<lparr>d_ID = ent_ID e, d_Name = ent_Name e,
        d_NormalizedName = Normalize (ent_Name e)\<rparr>\<rparr>)) entities"

definition buildFromSubdistrict :: "entity list \<Rightarrow> admin_candidate list" where
  "buildFromSubdistrict entities = map (\<lambda>e. new_candidate OriginSubDistrict
     (empty_admin_location\<lparr>SubDistrict := Some \<lparr>s_ID = ent_ID e, s_Name = ent_Name e,
        s_NormalizedName = Normalize (ent_Name e), s_PostalCode = ent_PostalCode e\<rparr>\<rparr>)) entities"

definition DiscoverCandidates ::
  "(nat \<Rightarrow> gostring) \<Rightarrow> resolved_evidence list \<Rightarrow> discovery_strategy list \<Rightarrow> admin_candidate list" where
  "DiscoverCandidates uuids resolved strategies =
     (let entities = collectUniqueEntities resolved;
          candidates = buildFromProvince (entities PROVINCE) @ buildFromCity (entities CITY)
            @ buildFromDistrict (entities DISTRICT) @ buildFromSubdistrict (entities SUBDISTRICT)
      in map (\<lambda>(i, c). c\<lparr>DiscoveryStrategies := strategies, cand_UUID := uuids i\<rparr>)
           (enumerate 0 candidates))"

section \<open>Enrichment\<close>

definition enrich_district :: "service \<Rightarrow> hierarchy_map \<Rightarrow> admin_location \<Rightarrow> admin_location" where
  "enrich_district svc h loc =
     (case (SubDistrict loc, District loc) of
        (Some s, None) \<Rightarrow>
          (case SubDistrictToDist h (s_ID s) of
             None \<Rightarrow> loc
           | Some distID \<Rightarrow>
               (case map_of (districtByID svc) distID of
                  None \<Rightarrow> loc
                | Some entry \<Rightarrow> loc\<lparr>District := Some \<lparr>d_ID = de_ID entry, d_Name = de_Name entry,
                    d_NormalizedName = Normalize (de_Name entry)\<rparr>\<rparr>))
      | _ \<Rightarrow> loc)"

definition enrich_city :: "service \<Rightarrow> hierarchy_map \<Rightarrow> admin_location \<Rightarrow> admin_location" where
  "enrich_city svc h loc =
     (case (District loc, City loc) of
        (Some d, None) \<Rightarrow>
          (case DistrictToCity h (d_ID d) of
             None \<Rightarrow> loc
           | Some cityID \<Rightarrow>
               (case map_of (cityByID svc) cityID of
                  None \<Rightarrow> loc
                | Some entry \<Rightarrow> loc\<lparr>City := Some \<lparr>ct_ID = ce_ID entry, ct_Name = ce_Name entry,
                    ct_NormalizedName = Normalize (ce_Name entry), ct_PostalCode = ce_PostalCode entry\<rparr>\<rparr>))
      | _ \<Rightarrow> loc)"

definition enrich_province :: "service \<Rightarrow> hierarchy_map \<Rightarrow> admin_location \<Rightarrow> admin_location" where
  "enrich_province svc h loc =
     (case (City loc, Province loc) of
        (Some c, None) \<Rightarrow>
          (case CityToProvince h (ct_ID c) of
             None \<Rightarrow> loc
           | Some provID \<Rightarrow>
               (case provinceByID svc provID of
                  None \<Rightarrow> loc
                | Some entry \<Rightarrow> loc\<lparr>Province := Some \<lparr>p_ID = pe_ID entry, p_Name = pe_Name entry,
                    p_NormalizedName = Normalize (pe_Name entry)\<rparr>\<rparr>))
      | _ \<Rightarrow> loc)"

definition enrich_postal :: "admin_location \<Rightarrow> admin_location" where
  "enrich_postal loc =
     (case (SubDistrict loc, PostalCode loc) of
        (Some s, None) \<Rightarrow>
          if s_PostalCode s \<noteq> []
          then loc\<lparr>PostalCode := Some \<lparr>pc_ID = s_ID s, pc_Code = s_PostalCode s, pc_Name = []\<rparr>\<rparr>
          else loc
      | _ \<Rightarrow> loc)"

definition EnrichCandidates :: "service \<Rightarrow> admin_candidate list \<Rightarrow> admin_candidate list" where
  "EnrichCandidates svc candidates =
     (case hierarchyCache svc of
        None \<Rightarrow> candidates
      | Some h \<Rightarrow> map (\<lambda>c. c\<lparr>Location :=
          enrich_postal (enrich_province svc h (enrich_city svc h (enrich_district svc h (Location c))))\<rparr>)
          candidates)"

section \<open>Conclusions\<close>

definition entityInCandidate :: "admin_candidate \<Rightarrow> entity \<Rightarrow> bool" where
  "entityInCandidate candidate entity =
     (let loc = Location candidate; l = ent_Level entity in
      if l = PROVINCE then (case Province loc of None \<Rightarrow> False | Some p \<Rightarrow> p_ID p = ent_ID entity)
      else if l = CITY then (case City loc of None \<Rightarrow> False | Some c \<Rightarrow> ct_ID c = ent_ID entity)
      else if l = DISTRICT then (case District loc of None \<Rightarrow> False | Some d \<Rightarrow> d_ID d = ent_ID entity)
      else if l = SUBDISTRICT then (case SubDistrict loc of None \<Rightarrow> False | Some s \<Rightarrow> s_ID s = ent_ID entity)
      else False)"

definition matchEvidenceToCandidate ::
  "admin_candidate \<Rightarrow> resolved_evidence list \<Rightarrow> matched_evidence list" where
  "matchEvidenceToCandidate candidate resolved =
     concat (map (\<lambda>re. map (\<lambda>e. \<lparr>me_Evidence = re_Evidence re, me_Resolved = Some e\<rparr>)
       (filter (entityInCandidate candidate) (re_Candidates re))) resolved)"

definition countNonNil :: "admin_location \<Rightarrow> nat" where
  "countNonNil loc =
     (if Province loc \<noteq> None then 1 else 0) + (if City loc \<noteq> None then 1 else 0)
   + (if District loc \<noteq> None then 1 else 0) + (if SubDistrict loc \<noteq> None then 1 else 0)"

definition conclusion_key :: "admin_location \<Rightarrow> gostring" where
  "conclusion_key loc =
     (let p = loc_id p_ID (Province loc); c = loc_id ct_ID (City loc);
          d = loc_id d_ID (District loc); s = loc_id s_ID (SubDistrict loc)
      in itoa p @ '':'' @ itoa c @ '':'' @ itoa d @ '':'' @ itoa s)"

definition deeper :: "admin_candidate \<Rightarrow> admin_candidate \<Rightarrow> bool" where
  "deeper a b =
     (let iCount = countNonNil (Location a); jCount = countNonNil (Location b) in
      if iCount \<noteq> jCount then jCount < iCount else False)"

text \<open>The slice \<open>resolved\<close> is nil only where the phrase dictionary failed to load.\<close>

definition BuildConclusions ::
  "((admin_candidate \<Rightarrow> admin_candidate \<Rightarrow> bool) \<Rightarrow> admin_candidate list \<Rightarrow> admin_candidate list)
   \<Rightarrow> admin_candidate list \<Rightarrow> hierarchy_map option \<Rightarrow> resolved_evidence list option
   \<Rightarrow> admin_candidate list" where
  "BuildConclusions sort_slice flat hierarchy resolved =
     (if hierarchy = None then flat
      else let combined = dedup_by (\<lambda>c. conclusion_key (Location c)) {} flat;
               combined = (case resolved of
                  None \<Rightarrow> combined
                | Some res \<Rightarrow> map (\<lambda>c. c\<lparr>Evidence := matchEvidenceToCandidate c res\<rparr>) combined)
           in sort_slice deeper combined)"

text \<open>\<open>buildCandidates\<close> of \<open>validate_v1.go\<close>.\<close>

definition buildCandidates ::
  "(nat \<Rightarrow> gostring) \<Rightarrow> merge_order list
   \<Rightarrow> ((admin_candidate \<Rightarrow> admin_candidate \<Rightarrow> bool) \<Rightarrow> admin_candidate list \<Rightarrow> admin_candidate list)
   \<Rightarrow> service \<Rightarrow> resolved_evidence list option \<Rightarrow> admin_candidate list" where
  "buildCandidates uuids mos sort_slice svc res =
     (let cands = DiscoverCandidates uuids (case res of None \<Rightarrow> [] | Some r \<Rightarrow> r)
                    [DiscoveryTopDown, DiscoveryAnyLevel];
          cands = DeduplicateCandidates mos cands;
          cands = EnrichCandidates svc cands
      in BuildConclusions sort_slice cands (hierarchyCache svc) res)"

section \<open>What discovery yields\<close>

definition location_entities :: "resolved_evidence list \<Rightarrow> entity list" where
  "location_entities evidence = dedup_by ent_ID {}
     (concat (map re_Candidates (filter (\<lambda>re. ev_Type (re_Evidence re) \<noteq> EvidencePostalCode) evidence)))"

lemma foldl_collect:
  "foldl collect_entity (seen, m) cs =
     (seen \<union> ent_ID ` set cs, \<lambda>l. m l @ filter (\<lambda>e. ent_Level e = l) (dedup_by ent_ID seen cs))"
proof (induction cs arbitrary: seen m)
  case (Cons c cs)
  show ?case
  proof (cases "ent_ID c \<in> seen")
    case True
    with Cons show ?thesis by (auto simp: collect_entity_def)
  next
    case False
    with Cons show ?thesis by (auto simp: collect_entity_def fun_eq_iff)
  qed
qed simp

lemma collectUniqueEntities_filter:
  "collectUniqueEntities evidence l = filter (\<lambda>e. ent_Level e = l) (location_entities evidence)"
proof -
  let ?np = "\<lambda>re. ev_Type (re_Evidence re) \<noteq> EvidencePostalCode"
  have "foldl (\<lambda>st re. if ev_Type (re_Evidence re) = EvidencePostalCode then st
      else foldl collect_entity st (re_Candidates re)) st evidence
    = foldl collect_entity st (concat (map re_Candidates (filter ?np evidence)))" for st
    by (induction evidence arbitrary: st) auto
  then show ?thesis
    by (simp add: collectUniqueEntities_def location_entities_def foldl_collect)
qed

definition location_of :: "entity \<Rightarrow> admin_location" where
  "location_of e =
     (if ent_Level e = PROVINCE then empty_admin_location\<lparr>Province := Some \<lparr>p_ID = ent_ID e,
         p_Name = ent_Name e, p_NormalizedName = Normalize (ent_Name e)\<rparr>\<rparr>
      else if ent_Level e = CITY then empty_admin_location\<lparr>City := Some \<lparr>ct_ID = ent_ID e,
         ct_Name = ent_Name e, ct_NormalizedName = Normalize (ent_Name e),
         ct_PostalCode = ent_PostalCode e\<rparr>\<rparr>
      else if ent_Level e = DISTRICT then empty_admin_location\<lparr>District := Some \<lparr>d_ID = ent_ID e,
         d_Name = ent_Name e, d_NormalizedName = Normalize (ent_Name e)\<rparr>\<rparr>
      else empty_admin_location\<lparr>SubDistrict := Some \<lparr>s_ID = ent_ID e,
         s_Name = ent_Name e, s_NormalizedName = Normalize (ent_Name e),
         s_PostalCode = ent_PostalCode e\<rparr>\<rparr>)"

definition at_level :: "gostring \<Rightarrow> resolved_evidence list \<Rightarrow> entity list" where
  "at_level l evidence = filter (\<lambda>e. ent_Level e = l) (location_entities evidence)"

lemma map_snd_enumerate: "map (f \<circ> snd) (enumerate n xs) = map f xs"
  by (simp add: map_map [symmetric] del: map_map)

lemma DiscoverCandidates_locations:
  "map Location (DiscoverCandidates uuids evidence strategies) =
     map location_of (at_level PROVINCE evidence @ at_level CITY evidence @ at_level DISTRICT evidence
       @ at_level SUBDISTRICT evidence)"
proof -
  have "map Location (DiscoverCandidates uuids evidence strategies)
      = map Location (buildFromProvince (at_level PROVINCE evidence) @ buildFromCity (at_level CITY evidence)
          @ buildFromDistrict (at_level DISTRICT evidence) @ buildFromSubdistrict (at_level SUBDISTRICT evidence))"
    by (simp add: DiscoverCandidates_def Let_def collectUniqueEntities_filter at_level_def
        comp_def case_prod_beta map_snd_enumerate [unfolded comp_def])
  also have "map Location (buildFromProvince (at_level PROVINCE evidence)) = map location_of (at_level PROVINCE evidence)"
    "map Location (buildFromCity (at_level CITY evidence)) = map location_of (at_level CITY evidence)"
    "map Location (buildFromDistrict (at_level DISTRICT evidence)) = map location_of (at_level DISTRICT evidence)"
    "map Location (buildFromSubdistrict (at_level SUBDISTRICT evidence)) = map location_of (at_level SUBDISTRICT evidence)"
    by (auto simp: buildFromProvince_def buildFromCity_def buildFromDistrict_def buildFromSubdistrict_def
        new_candidate_def location_of_def at_level_def)
  ultimately show ?thesis by simp
qed

lemma DiscoverCandidates_blank:
  "c \<in> set (DiscoverCandidates uuids evidence strategies) \<Longrightarrow> Evidence c = []"
  by (auto simp: DiscoverCandidates_def Let_def buildFromProvince_def buildFromCity_def
      buildFromDistrict_def buildFromSubdistrict_def new_candidate_def in_set_enumerate_eq nth_append
      split: if_splits dest!: nth_mem)

lemma sum_location_ids: "sum_list (location_ids (location_of e)) = ent_ID e"
  by (simp add: location_of_def location_ids_def loc_id_def empty_admin_location_def)

lemma location_entities_distinct: "distinct (map ent_ID (location_entities evidence))"
  by (simp add: location_entities_def dedup_by_distinct)

lemma at_levels_distinct:
  "distinct (map ent_ID (at_level PROVINCE evidence @ at_level CITY evidence
     @ at_level DISTRICT evidence @ at_level SUBDISTRICT evidence))"
proof -
  have "distinct (location_entities evidence)" "inj_on ent_ID (set (location_entities evidence))"
    using location_entities_distinct [of evidence] by (simp_all add: distinct_map)
  then show ?thesis
    unfolding distinct_map
    by (auto simp: at_level_def intro: inj_on_subset)
qed

lemma discovered_unmerged:
  "DeduplicateCandidates mos (DiscoverCandidates uuids evidence strategies)
     = DiscoverCandidates uuids evidence strategies"
proof -
  let ?cs = "DiscoverCandidates uuids evidence strategies"
  have "map (\<lambda>c. sum_list (location_ids (Location c))) ?cs
      = map (sum_list \<circ> location_ids) (map Location ?cs)" by simp
  also have "\<dots> = map ent_ID (at_level PROVINCE evidence @ at_level CITY evidence
      @ at_level DISTRICT evidence @ at_level SUBDISTRICT evidence)"
    by (simp only: DiscoverCandidates_locations map_map comp_def sum_location_ids)
  finally have "distinct (map (\<lambda>c. sum_list (location_ids (Location c))) ?cs)"
    using at_levels_distinct by simp
  then have "distinct (map candidateKey ?cs)"
    unfolding distinct_map inj_on_def by (metis candidateKey_eq)
  then show ?thesis by (rule DeduplicateCandidates_distinct)
qed

text \<open>
  No two discovered candidates agree in their level identifiers, so the deduplication
  that follows returns them unchanged, and the pipeline does not depend on the map orders of
  the merge.
\<close>

theorem DiscoverCandidates_no_duplicates:
  "DeduplicateCandidates mos (DiscoverCandidates uuids evidence strategies)
     = DiscoverCandidates uuids evidence strategies"
  by (rule discovered_unmerged)

section \<open>Enrichment agrees with the hierarchy\<close>

definition origin_only :: "admin_location \<Rightarrow> bool" where
  "origin_only loc \<longleftrightarrow> PostalCode loc = None \<and> Conflicts loc = [] \<and> countNonNil loc = 1"

lemma location_of_origin: "origin_only (location_of e)"
  by (simp add: origin_only_def location_of_def countNonNil_def empty_admin_location_def)

definition enriched :: "service \<Rightarrow> hierarchy_map \<Rightarrow> admin_location \<Rightarrow> admin_location" where
  "enriched svc h loc =
     enrich_postal (enrich_province svc h (enrich_city svc h (enrich_district svc h loc)))"

lemma enrich_district_link:
  assumes "indexes_ok svc"
  shows "\<not> broken_link (SubDistrictToDist h) (level_id (enrich_district svc h loc) SUBDISTRICT)
             (level_id (enrich_district svc h loc) DISTRICT)
       \<or> District loc \<noteq> None"
  using assms
  by (auto simp: enrich_district_def broken_link_def indexes_ok_def dest: indexedD split: option.splits)

lemma enrich_city_link:
  assumes "indexes_ok svc"
  shows "\<not> broken_link (DistrictToCity h) (level_id (enrich_city svc h loc) DISTRICT)
             (level_id (enrich_city svc h loc) CITY)
       \<or> City loc \<noteq> None"
  using assms
  by (auto simp: enrich_city_def broken_link_def indexes_ok_def dest: indexedD split: option.splits)

lemma enrich_province_link:
  assumes "indexes_ok svc"
  shows "\<not> broken_link (CityToProvince h) (level_id (enrich_province svc h loc) CITY)
             (level_id (enrich_province svc h loc) PROVINCE)
       \<or> Province loc \<noteq> None"
  using assms
  by (auto simp: enrich_province_def broken_link_def indexes_ok_def dest: indexedD split: option.splits)

text \<open>Each step touches its own level only.\<close>

lemma enrich_frame [simp]:
  "Province (enrich_district svc h loc) = Province loc" "City (enrich_district svc h loc) = City loc"
  "SubDistrict (enrich_district svc h loc) = SubDistrict loc"
  "PostalCode (enrich_district svc h loc) = PostalCode loc"
  "Conflicts (enrich_district svc h loc) = Conflicts loc"
  "Province (enrich_city svc h loc) = Province loc" "District (enrich_city svc h loc) = District loc"
  "SubDistrict (enrich_city svc h loc) = SubDistrict loc"
  "PostalCode (enrich_city svc h loc) = PostalCode loc"
  "Conflicts (enrich_city svc h loc) = Conflicts loc"
  "City (enrich_province svc h loc) = City loc" "District (enrich_province svc h loc) = District loc"
  "SubDistrict (enrich_province svc h loc) = SubDistrict loc"
  "PostalCode (enrich_province svc h loc) = PostalCode loc"
  "Conflicts (enrich_province svc h loc) = Conflicts loc"
  "Province (enrich_postal loc) = Province loc" "City (enrich_postal loc) = City loc"
  "District (enrich_postal loc) = District loc" "SubDistrict (enrich_postal loc) = SubDistrict loc"
  "Conflicts (enrich_postal loc) = Conflicts loc"
  by (simp_all add: enrich_district_def enrich_city_def enrich_province_def enrich_postal_def
      split: option.split)

lemma enrich_keeps:
  "District loc \<noteq> None \<Longrightarrow> enrich_district svc h loc = loc"
  "City loc \<noteq> None \<Longrightarrow> enrich_city svc h loc = loc"
  "Province loc \<noteq> None \<Longrightarrow> enrich_province svc h loc = loc"
  "SubDistrict loc = None \<Longrightarrow> enrich_district svc h loc = loc"
  "District loc = None \<Longrightarrow> enrich_city svc h loc = loc"
  "City loc = None \<Longrightarrow> enrich_province svc h loc = loc"
  by (auto simp: enrich_district_def enrich_city_def enrich_province_def split: option.splits)

lemma enriched_links:
  assumes "indexes_ok svc" and "origin_only loc"
  shows "links_ok (Some h) (enriched svc h loc)"
proof -
  let ?d = "enrich_district svc h loc" let ?c = "enrich_city svc h ?d" let ?p = "enrich_province svc h ?c"
  have none: "SubDistrict loc \<noteq> None \<Longrightarrow> District loc = None \<and> City loc = None \<and> Province loc = None"
    "District loc \<noteq> None \<Longrightarrow> SubDistrict loc = None \<and> City loc = None \<and> Province loc = None"
    "City loc \<noteq> None \<Longrightarrow> SubDistrict loc = None \<and> District loc = None \<and> Province loc = None"
    "Province loc \<noteq> None \<Longrightarrow> SubDistrict loc = None \<and> District loc = None \<and> City loc = None"
    using assms(2) by (auto simp: origin_only_def countNonNil_def split: if_splits)
  have "\<not> broken_link (SubDistrictToDist h) (level_id ?d SUBDISTRICT) (level_id ?d DISTRICT)"
  proof (cases "District loc = None")
    case True
    then show ?thesis using enrich_district_link [OF assms(1), of h loc] by simp
  next
    case False
    then show ?thesis using none(2) by (simp add: enrich_keeps broken_link_def)
  qed
  moreover have "\<not> broken_link (DistrictToCity h) (level_id ?c DISTRICT) (level_id ?c CITY)"
  proof (cases "City loc = None")
    case True
    then show ?thesis using enrich_city_link [OF assms(1), of h ?d] by simp
  next
    case False
    then show ?thesis using none(3) by (simp add: enrich_keeps broken_link_def)
  qed
  moreover have "\<not> broken_link (CityToProvince h) (level_id ?p CITY) (level_id ?p PROVINCE)"
  proof (cases "Province loc = None")
    case True
    then show ?thesis using enrich_province_link [OF assms(1), of h ?c] by simp
  next
    case False
    then have "SubDistrict loc = None" "District loc = None" "City loc = None" using none(4) by simp_all
    then show ?thesis by (simp add: enrich_keeps broken_link_def)
  qed
  ultimately show ?thesis by (simp add: links_ok_def enriched_def)
qed

lemma enriched_postal: "origin_only loc \<Longrightarrow> postal_ok (enriched svc h loc)"
  by (auto simp: enriched_def postal_ok_def enrich_postal_def origin_only_def split: option.split)

lemma matched_agrees: "list_all (evidence_agrees (Location c)) (matchEvidenceToCandidate c res)"
  by (auto simp: matchEvidenceToCandidate_def list_all_iff evidence_agrees_def entityInCandidate_def
      level_id_def Let_def split: option.splits if_splits)

section \<open>The conflicts that can remain\<close>

lemma discovered_origin:
  "c \<in> set (DiscoverCandidates uuids evidence strategies) \<Longrightarrow> origin_only (Location c)"
proof -
  assume "c \<in> set (DiscoverCandidates uuids evidence strategies)"
  then have "Location c \<in> set (map Location (DiscoverCandidates uuids evidence strategies))" by simp
  then obtain e where "Location c = location_of e"
    unfolding DiscoverCandidates_locations by auto
  then show ?thesis by (simp add: location_of_origin)
qed

lemma no_evidence_agrees: "Evidence c = [] \<Longrightarrow> list_all (evidence_agrees loc) (Evidence c)"
  by simp

lemma found_conflicts_orphan:
  assumes "links_ok hierarchy (Location c)" "postal_ok (Location c)"
    "list_all (evidence_agrees (Location c)) (Evidence c)"
  shows "found_conflicts hierarchy c = orphan_conflicts (Location c)"
proof -
  have "list_all (agrees_at {CITY} (Location c)) (Evidence c)"
    "list_all (agrees_at (- {CITY}) (Location c)) (Evidence c)"
    using assms(3) by (auto simp: list_all_iff agrees_at_def)
  then show ?thesis
    using assms(1,2) hierarchy_conflicts_Nil [of hierarchy "Location c"]
      city_conflicts_Nil [of "{}" "Location c" "Evidence c"]
      level_conflicts_Nil [of "Location c" "Evidence c"]
    by (simp add: found_conflicts_def Let_def postal_conflicts_def)
qed

text \<open>The pipeline before it orders its candidates, by the cases of the hierarchy cache.\<close>

lemma buildCandidates_cases:
  "buildCandidates uuids mos sort_slice svc res =
     (let cands = DiscoverCandidates uuids (case res of None \<Rightarrow> [] | Some r \<Rightarrow> r)
                    [DiscoveryTopDown, DiscoveryAnyLevel] in
      case hierarchyCache svc of
        None \<Rightarrow> cands
      | Some h \<Rightarrow>
          (let combined = dedup_by (\<lambda>c. conclusion_key (Location c)) {}
                 (map (\<lambda>c. c\<lparr>Location := enriched svc h (Location c)\<rparr>) cands)
           in sort_slice deeper (case res of None \<Rightarrow> combined
                | Some r \<Rightarrow> map (\<lambda>c. c\<lparr>Evidence := matchEvidenceToCandidate c r\<rparr>) combined)))"
  by (simp add: buildCandidates_def discovered_unmerged EnrichCandidates_def BuildConclusions_def
      Let_def enriched_def split: option.split)

text \<open>
  C25. Of the checks of \<open>EvaluateCandidate\<close> only the one for a city without province can
  fire on the pipeline's own candidates: enrichment follows the hierarchy that the check
  reads, the postal code is copied from the sub-district, and only evidence that lies on the
  candidate is attached. The identifier indexes have to hold every entry under its own
  identifier.
\<close>

theorem buildCandidates_conflicts:
  assumes "go_sort sort_slice" and "indexes_ok svc"
  shows "list_all (\<lambda>c. Conflicts (Location c) = [] \<and>
       ce_Conflicts (EvaluateCandidate ord c (hierarchyCache svc) evs) = orphan_conflicts (Location c))
     (buildCandidates uuids mos sort_slice svc res)"
proof -
  let ?cs = "DiscoverCandidates uuids (case res of None \<Rightarrow> [] | Some r \<Rightarrow> r)
    [DiscoveryTopDown, DiscoveryAnyLevel]"
  have ok: "Conflicts (Location c) = [] \<and> links_ok (hierarchyCache svc) (Location c)
      \<and> postal_ok (Location c) \<and> list_all (evidence_agrees (Location c)) (Evidence c)"
    if c: "c \<in> set (buildCandidates uuids mos sort_slice svc res)" for c
  proof (cases "hierarchyCache svc")
    case None
    then have "c \<in> set ?cs" using c by (simp add: buildCandidates_cases Let_def)
    then have "origin_only (Location c)" "Evidence c = []"
      by (auto dest: discovered_origin DiscoverCandidates_blank)
    then show ?thesis by (simp add: None links_ok_def origin_only_def postal_ok_def)
  next
    case (Some h)
    let ?enriched = "map (\<lambda>c. c\<lparr>Location := enriched svc h (Location c)\<rparr>) ?cs"
    have "c \<in> set (case res of None \<Rightarrow> dedup_by (\<lambda>c. conclusion_key (Location c)) {} ?enriched
        | Some r \<Rightarrow> map (\<lambda>c. c\<lparr>Evidence := matchEvidenceToCandidate c r\<rparr>)
            (dedup_by (\<lambda>c. conclusion_key (Location c)) {} ?enriched))"
      using c go_sort.set_sort [OF assms(1)] by (simp add: buildCandidates_cases Let_def Some)
    then obtain d where d: "d \<in> set ?enriched"
      and c': "(res = None \<and> c = d) \<or> (\<exists>r. c = d\<lparr>Evidence := matchEvidenceToCandidate d r\<rparr>)"
      using dedup_by_subset by (cases res) fastforce+
    obtain b where b: "b \<in> set ?cs" "d = b\<lparr>Location := enriched svc h (Location b)\<rparr>" using d by auto
    have loc: "Location c = enriched svc h (Location b)" using c' b(2) by auto
    have "origin_only (Location b)" using b(1) by (rule discovered_origin)
    moreover from this have "Conflicts (Location c) = []" by (simp add: loc enriched_def origin_only_def)
    moreover have "list_all (evidence_agrees (Location c)) (Evidence c)"
      using c'
    proof
      assume "res = None \<and> c = d"
      then show ?thesis using DiscoverCandidates_blank [OF b(1)] b(2) by simp
    next
      assume "\<exists>r. c = d\<lparr>Evidence := matchEvidenceToCandidate d r\<rparr>"
      then show ?thesis using matched_agrees [of d] by auto
    qed
    ultimately show ?thesis
      using enriched_links [OF assms(2)] enriched_postal by (simp add: Some loc)
  qed
  have "ce_Conflicts (EvaluateCandidate ord c (hierarchyCache svc) evs)
      = Conflicts (Location c) @ found_conflicts (hierarchyCache svc) c" for c
    using EvaluateCandidate_candidate [of ord c "hierarchyCache svc" evs]
    by (simp add: EvaluateCandidate_def Let_def extractConflicts_def)
  then show ?thesis
    using ok found_conflicts_orphan by (fastforce simp: list_all_iff)
qed

text \<open>A service that knows one sub-district with its whole chain.\<close>

definition demo_service :: service where
  "demo_service = (new_service 500 ''kemendagri'' True)\<lparr>
     hierarchyCache := Some \<lparr>CityToProvince = [3 \<mapsto> 1], DistrictToCity = [5 \<mapsto> 3],
       SubDistrictToDist = [9 \<mapsto> 5]\<rparr>,
     provinceByID := [1 \<mapsto> \<lparr>pe_ID = 1, pe_Name = ''Jawa Barat'', pe_Kode = ''32''\<rparr>],
     cityByID := [(3, \<lparr>ce_ID = 3, ce_Name = ''Kota Bandung'', ce_Kode = ''32.73'', ce_PostalCode = []\<rparr>)],
     districtByID := [(5, \<lparr>de_ID = 5, de_Name = ''Coblong'', de_Kode = ''32.73.02''\<rparr>)]\<rparr>"

definition demo_resolved :: "resolved_evidence list" where
  "demo_resolved = [\<lparr>re_Evidence = \<lparr>ev_Type = EvidencePlaceName, ev_Value = ''dago''\<rparr>,
     re_Candidates = [\<lparr>ent_ID = 9, ent_Name = ''Dago'', ent_Level = SUBDISTRICT,
       ent_PostalCode = ''40135''\<rparr>]\<rparr>]"

lemma demo_indexes: "indexes_ok demo_service"
  by (simp add: demo_service_def new_service_def indexes_ok_def indexed_def)

definition demo_hierarchy :: hierarchy_map where
  "demo_hierarchy = \<lparr>CityToProvince = [3 \<mapsto> 1], DistrictToCity = [5 \<mapsto> 3], SubDistrictToDist = [9 \<mapsto> 5]\<rparr>"

lemma demo_caches:
  "hierarchyCache demo_service = Some demo_hierarchy"
  "provinceByID demo_service = [1 \<mapsto> \<lparr>pe_ID = 1, pe_Name = ''Jawa Barat'', pe_Kode = ''32''\<rparr>]"
  "cityByID demo_service = [(3, \<lparr>ce_ID = 3, ce_Name = ''Kota Bandung'', ce_Kode = ''32.73'', ce_PostalCode = []\<rparr>)]"
  "districtByID demo_service = [(5, \<lparr>de_ID = 5, de_Name = ''Coblong'', de_Kode = ''32.73.02''\<rparr>)]"
  by (simp_all add: demo_service_def demo_hierarchy_def)

lemma demo_enriched:
  "SubDistrict loc = Some s \<Longrightarrow> s_ID s = 9 \<Longrightarrow> District loc = None \<Longrightarrow> City loc = None \<Longrightarrow>
     Province loc = None \<Longrightarrow> PostalCode loc = None \<Longrightarrow>
     countNonNil (enriched demo_service demo_hierarchy loc) = 4"
  by (simp add: enriched_def enrich_district_def enrich_city_def enrich_province_def enrich_postal_def
      demo_caches demo_hierarchy_def countNonNil_def)

lemma demo_discovered:
  "map Location (DiscoverCandidates uuids demo_resolved ss) = [location_of (hd (re_Candidates (hd demo_resolved)))]"
  by (simp add: DiscoverCandidates_locations at_level_def location_entities_def demo_resolved_def)

lemma demo_candidates:
  "map (\<lambda>c. countNonNil (Location c))
     (buildCandidates (\<lambda>i. []) [] stable_sort demo_service (Some demo_resolved)) = [4]"
proof -
  obtain c where c: "DiscoverCandidates (\<lambda>i. []) demo_resolved [DiscoveryTopDown, DiscoveryAnyLevel] = [c]"
    "Location c = location_of (hd (re_Candidates (hd demo_resolved)))"
    using demo_discovered [of "\<lambda>i. []" "[DiscoveryTopDown, DiscoveryAnyLevel]"]
    by (cases "DiscoverCandidates (\<lambda>i. []) demo_resolved [DiscoveryTopDown, DiscoveryAnyLevel]") auto
  have "countNonNil (enriched demo_service demo_hierarchy (Location c)) = 4"
    by (rule demo_enriched, simp add: c(2) location_of_def demo_resolved_def)
      (simp_all add: c(2) location_of_def demo_resolved_def empty_admin_location_def)
  then show ?thesis
    by (simp add: buildCandidates_cases c(1) Let_def stable_sort_def demo_caches)
qed

theorem buildCandidates_conflicts_witness:
  "list_all (\<lambda>c. Conflicts (Location c) = [] \<and>
       ce_Conflicts (EvaluateCandidate (\<lambda>x. x) c (hierarchyCache demo_service) []) = orphan_conflicts (Location c))
     (buildCandidates (\<lambda>i. []) [] stable_sort demo_service (Some demo_resolved))
   \<and> length (buildCandidates (\<lambda>i. []) [] stable_sort demo_service (Some demo_resolved)) = 1"
proof -
  let ?cs = "buildCandidates (\<lambda>i. []) [] stable_sort demo_service (Some demo_resolved)"
  have "length ?cs = 1" using arg_cong [OF demo_candidates, of length] by simp
  then show ?thesis
    using buildCandidates_conflicts [OF stable.go_sort_axioms demo_indexes] by blast
qed

end
