(* ===== verification/Source_Caches.thy ===== *)
theory Source_Caches
  imports Service_State Normalizer
begin

text \<open>
  The lazily loaded caches of \<open>internal/service/validate_helper.go\<close> and
  \<open>ensureEntitiesCachesLoaded\<close> of \<open>resolve.go\<close>. The location repository is an
  argument: each of its queries answers with an error or with rows. \<open>sync.Once\<close> is a flag
  of the service that is set before the load runs, so that a failed load is not repeated and
  its error stays.
\<close>

section \<open>The repository\<close>

record code_row =
  cr_ID :: int64
  cr_SourceID :: int64
  cr_Kode :: gostring
  cr_Name :: gostring
  cr_LowercaseNormalized :: gostring
  cr_PostalCode :: gostring

record city_priority_row =
  cp_LowercaseNormalized :: gostring
  cp_CityType :: gostring

record location_repository =
  FindAllProvinces :: "go_error + code_row list"
  FindAllCities :: "go_error + code_row list"
  FindAllDistricts :: "int64 \<Rightarrow> go_error + code_row list"
  FindAllSubDistricts :: "int64 \<Rightarrow> go_error + code_row list"
  FindByPostalCode :: "gostring \<Rightarrow> int64 \<Rightarrow> go_error + location list"
  FindSourceByCode :: "gostring \<Rightarrow> go_error + int64 \<times> gostring"
  LoadFullHierarchy :: "int64 \<Rightarrow> go_error + hierarchy_map"
  FindAllCityPriority :: "int64 \<Rightarrow> go_error + city_priority_row list"

section \<open>Loading\<close>

definition row_key :: "code_row \<Rightarrow> gostring" where
  "row_key r = source_key (cr_SourceID r) (Normalize (cr_Name r))"

definition province_of :: "code_row \<Rightarrow> province_entry" where
  "province_of r = \<lparr>pe_ID = cr_ID r, pe_Name = cr_Name r, pe_Kode = cr_Kode r\<rparr>"

definition city_of :: "code_row \<Rightarrow> city_entry" where
  "city_of r = \<lparr>ce_ID = cr_ID r, ce_Name = cr_Name r, ce_Kode = cr_Kode r, ce_PostalCode = cr_PostalCode r\<rparr>"

definition district_of :: "code_row \<Rightarrow> district_entry" where
  "district_of r = \<lparr>de_ID = cr_ID r, de_Name = cr_Name r, de_Kode = cr_Kode r\<rparr>"

definition sub_district_of :: "code_row \<Rightarrow> sub_district_entry" where
  "sub_district_of r = \<lparr>se_ID = cr_ID r, se_Name = cr_Name r, se_Kode = cr_Kode r,
     se_PostalCode = cr_PostalCode r\<rparr>"

definition loadProvinces :: "location_repository \<Rightarrow> service \<Rightarrow> service" where
  "loadProvinces repo svc =
     (case FindAllProvinces repo of
        Inl err \<Rightarrow> svc\<lparr>provinceErr := Some err\<rparr>
      | Inr rows \<Rightarrow> svc\<lparr>
          provinceCache := foldl (\<lambda>m r. map_append (row_key r) (province_of r) m) [] rows,
          provinceKodeToEntry := foldl (\<lambda>m r. m(source_key (cr_SourceID r) (cr_Kode r) \<mapsto> province_of r))
            Map.empty rows,
          provinceByID := foldl (\<lambda>m r. m(cr_ID r \<mapsto> province_of r)) Map.empty rows\<rparr>)"

definition loadCities :: "location_repository \<Rightarrow> service \<Rightarrow> service" where
  "loadCities repo svc =
     (case FindAllCities repo of
        Inl err \<Rightarrow> svc\<lparr>cityErr := Some err\<rparr>
      | Inr rows \<Rightarrow> svc\<lparr>
          cityCache := foldl (\<lambda>m r. map_append (row_key r) (city_of r) m) [] rows,
          cityByID := foldl (\<lambda>m r. AList.update (cr_ID r) (city_of r) m) [] rows\<rparr>)"

definition loadDistricts :: "location_repository \<Rightarrow> int64 \<Rightarrow> service \<Rightarrow> service" where
  "loadDistricts repo sourceID svc =
     (case FindAllDistricts repo sourceID of
        Inl err \<Rightarrow> svc\<lparr>districtErr := Some err\<rparr>
      | Inr rows \<Rightarrow> svc\<lparr>
          districtCache := foldl (\<lambda>m r. map_append (row_key r) (district_of r) m) [] rows,
          districtByID := foldl (\<lambda>m r. AList.update (cr_ID r) (district_of r) m) [] rows\<rparr>)"

definition loadSubDistricts :: "location_repository \<Rightarrow> int64 \<Rightarrow> service \<Rightarrow> service" where
  "loadSubDistricts repo sourceID svc =
     (case FindAllSubDistricts repo sourceID of
        Inl err \<Rightarrow> svc\<lparr>subDistrictErr := Some err\<rparr>
      | Inr rows \<Rightarrow> svc\<lparr>
          subDistrictCache := foldl (\<lambda>m r. map_append (row_key r) (sub_district_of r) m) [] rows,
          subDistrictByID := foldl (\<lambda>m r. AList.update (cr_ID r) (sub_district_of r) m) [] rows\<rparr>)"

definition loadHierarchy :: "location_repository \<Rightarrow> int64 \<Rightarrow> service \<Rightarrow> service" where
  "loadHierarchy repo sourceID svc =
     (case LoadFullHierarchy repo sourceID of
        Inl err \<Rightarrow> svc\<lparr>hierarchyErr := Some err\<rparr>
      | Inr h \<Rightarrow> svc\<lparr>hierarchyCache := Some h\<rparr>)"

definition loadCityPriority :: "location_repository \<Rightarrow> int64 \<Rightarrow> service \<Rightarrow> service" where
  "loadCityPriority repo sourceID svc =
     (case FindAllCityPriority repo sourceID of
        Inl err \<Rightarrow> svc\<lparr>cityPriorityErr := Some err\<rparr>
      | Inr rows \<Rightarrow> svc\<lparr>cityPrioritySet :=
          foldl (\<lambda>m r. AList.update (cp_LowercaseNormalized r) (cp_CityType r) m) [] rows\<rparr>)"

section \<open>Once\<close>

definition ensureProvincesLoaded :: "location_repository \<Rightarrow> service \<Rightarrow> go_error option \<times> service" where
  "ensureProvincesLoaded repo svc =
     (let svc = (if provinceOnce svc then svc else loadProvinces repo (svc\<lparr>provinceOnce := True\<rparr>))
      in (provinceErr svc, svc))"

definition ensureCitiesLoaded :: "location_repository \<Rightarrow> service \<Rightarrow> go_error option \<times> service" where
  "ensureCitiesLoaded repo svc =
     (let svc = (if cityOnce svc then svc else loadCities repo (svc\<lparr>cityOnce := True\<rparr>))
      in (cityErr svc, svc))"

definition ensureDistrictsLoaded ::
  "location_repository \<Rightarrow> int64 \<Rightarrow> service \<Rightarrow> go_error option \<times> service" where
  "ensureDistrictsLoaded repo sourceID svc =
     (let svc = (if districtOnce svc then svc else loadDistricts repo sourceID (svc\<lparr>districtOnce := True\<rparr>))
      in (districtErr svc, svc))"

definition ensureSubDistrictsLoaded ::
  "location_repository \<Rightarrow> int64 \<Rightarrow> service \<Rightarrow> go_error option \<times> service" where
  "ensureSubDistrictsLoaded repo sourceID svc =
     (let svc = (if subDistrictOnce svc then svc
                 else loadSubDistricts repo sourceID (svc\<lparr>subDistrictOnce := True\<rparr>))
      in (subDistrictErr svc, svc))"

definition ensureCityPriorityLoaded ::
  "location_repository \<Rightarrow> int64 \<Rightarrow> service \<Rightarrow> go_error option \<times> service" where
  "ensureCityPriorityLoaded repo sourceID svc =
     (let svc = (if cityPriorityOnce svc then svc
                 else loadCityPriority repo sourceID (svc\<lparr>cityPriorityOnce := True\<rparr>))
      in (cityPriorityErr svc, svc))"

definition ensureHierarchyLoaded ::
  "location_repository \<Rightarrow> int64 \<Rightarrow> service \<Rightarrow> go_error option \<times> service" where
  "ensureHierarchyLoaded repo sourceID svc =
     (let svc = (if hierarchyOnce svc then svc else loadHierarchy repo sourceID (svc\<lparr>hierarchyOnce := True\<rparr>))
      in (hierarchyErr svc, svc))"

text \<open>One load after the other, stopping at the first error.\<close>

definition and_then ::
  "('s \<Rightarrow> 'e option \<times> 's) \<Rightarrow> ('s \<Rightarrow> 'e option \<times> 's) \<Rightarrow> 's \<Rightarrow> 'e option \<times> 's" where
  "and_then f g svc = (case f svc of (Some err, svc) \<Rightarrow> (Some err, svc) | (None, svc) \<Rightarrow> g svc)"

definition ensureEntitiesCachesLoaded ::
  "location_repository \<Rightarrow> int64 \<Rightarrow> service \<Rightarrow> go_error option \<times> service" where
  "ensureEntitiesCachesLoaded repo sourceID =
     and_then (ensureProvincesLoaded repo)
       (and_then (ensureCitiesLoaded repo)
         (and_then (ensureDistrictsLoaded repo sourceID)
           (and_then (ensureSubDistrictsLoaded repo sourceID)
             (and_then (ensureHierarchyLoaded repo sourceID)
               (ensureCityPriorityLoaded repo sourceID)))))"

definition sourceAndCaches ::
  "location_repository \<Rightarrow> gostring \<Rightarrow> service \<Rightarrow> (go_error + int64 \<times> gostring) \<times> service" where
  "sourceAndCaches repo code svc =
     (case FindSourceByCode repo code of
        Inl err \<Rightarrow> (Inl err, svc)
      | Inr (sourceID, version) \<Rightarrow>
          (case ensureEntitiesCachesLoaded repo sourceID svc of
             (Some err, svc) \<Rightarrow> (Inl err, svc)
           | (None, svc) \<Rightarrow> (Inr (sourceID, version), svc)))"

section \<open>A cached step\<close>

text \<open>
  What the six loads have in common: a step that, run again with whatever repository and
  source, returns what it returned before and changes nothing, and that only looks at, and
  changes, its own part of the service.
\<close>

locale once_step =
  fixes step :: "'r \<Rightarrow> 's \<Rightarrow> 'e option \<times> 's"
    and finished :: "'s \<Rightarrow> bool"
    and outcome :: "'s \<Rightarrow> 'e option"
  assumes finishes: "finished (snd (step r s))"
    and answers: "fst (step r s) = outcome (snd (step r s))"
    and idle: "finished s \<Longrightarrow> snd (step r s) = s"
begin

lemma again: "step r' (snd (step r s)) = (outcome (snd (step r s)), snd (step r s))"
  using finishes answers idle by (metis prod.collapse)

lemma sticky: "step r' (snd (step r s)) = step r s"
  using again answers by (metis prod.collapse)

end

text \<open>A cached step in front of others, which are repeatable and leave it done.\<close>

locale once_chain = once_step step finished outcome
  for step :: "'r \<Rightarrow> 's \<Rightarrow> 'e option \<times> 's" and finished :: "'s \<Rightarrow> bool" and outcome :: "'s \<Rightarrow> 'e option" +
  fixes rest :: "'r \<Rightarrow> 's \<Rightarrow> 'e option \<times> 's"
  assumes rest_sticky: "rest r' (snd (rest r s)) = rest r s"
    and rest_keeps: "finished s \<Longrightarrow>
      finished (snd (rest r s)) \<and> outcome (snd (rest r s)) = outcome s"
begin

lemma chain_sticky:
  "and_then (step r') (rest r') (snd (and_then (step r) (rest r) s)) = and_then (step r) (rest r) s"
proof -
  obtain e s1 where f: "step r s = (e, s1)" by (cases "step r s")
  have fin1: "finished s1" "outcome s1 = e" using finishes [of r s] answers [of r s] f by simp_all
  show ?thesis
  proof (cases e)
    case (Some err)
    then show ?thesis using again [of r' r s] f fin1 by (simp add: and_then_def)
  next
    case None
    let ?s2 = "snd (rest r s1)"
    have fin: "finished ?s2" "outcome ?s2 = None" using rest_keeps [OF fin1(1)] fin1 None by simp_all
    have "step r' ?s2 = (None, ?s2)"
      using idle [OF fin(1)] answers [of r' ?s2] fin(2) by (metis prod.collapse)
    then show ?thesis using f None rest_sticky by (simp add: and_then_def)
  qed
qed

end

interpretation provinces: once_step "\<lambda>(repo, sid). ensureProvincesLoaded repo" provinceOnce provinceErr
  by unfold_locales
    (auto simp: ensureProvincesLoaded_def loadProvinces_def Let_def split: sum.split)

interpretation cities: once_step "\<lambda>(repo, sid). ensureCitiesLoaded repo" cityOnce cityErr
  by unfold_locales
    (auto simp: ensureCitiesLoaded_def loadCities_def Let_def split: sum.split)

interpretation districts: once_step "\<lambda>(repo, sid). ensureDistrictsLoaded repo sid" districtOnce districtErr
  by unfold_locales
    (auto simp: ensureDistrictsLoaded_def loadDistricts_def Let_def split: sum.split)

interpretation sub_districts: once_step "\<lambda>(repo, sid). ensureSubDistrictsLoaded repo sid"
    subDistrictOnce subDistrictErr
  by unfold_locales
    (auto simp: ensureSubDistrictsLoaded_def loadSubDistricts_def Let_def split: sum.split)

interpretation hierarchy: once_step "\<lambda>(repo, sid). ensureHierarchyLoaded repo sid" hierarchyOnce hierarchyErr
  by unfold_locales
    (auto simp: ensureHierarchyLoaded_def loadHierarchy_def Let_def split: sum.split)

interpretation city_priority: once_step "\<lambda>(repo, sid). ensureCityPriorityLoaded repo sid"
    cityPriorityOnce cityPriorityErr
  by unfold_locales
    (auto simp: ensureCityPriorityLoaded_def loadCityPriority_def Let_def split: sum.split)

lemmas ensure_defs =
  ensureProvincesLoaded_def loadProvinces_def ensureCitiesLoaded_def loadCities_def
  ensureDistrictsLoaded_def loadDistricts_def ensureSubDistrictsLoaded_def loadSubDistricts_def
  ensureHierarchyLoaded_def loadHierarchy_def ensureCityPriorityLoaded_def loadCityPriority_def

text \<open>The tails of the chain, the last step first.\<close>

definition chain5 :: "location_repository \<times> int64 \<Rightarrow> service \<Rightarrow> go_error option \<times> service" where
  "chain5 = (\<lambda>(repo, sid). and_then (ensureHierarchyLoaded repo sid) (ensureCityPriorityLoaded repo sid))"

definition chain4 :: "location_repository \<times> int64 \<Rightarrow> service \<Rightarrow> go_error option \<times> service" where
  "chain4 = (\<lambda>(repo, sid). and_then (ensureSubDistrictsLoaded repo sid) (chain5 (repo, sid)))"

definition chain3 :: "location_repository \<times> int64 \<Rightarrow> service \<Rightarrow> go_error option \<times> service" where
  "chain3 = (\<lambda>(repo, sid). and_then (ensureDistrictsLoaded repo sid) (chain4 (repo, sid)))"

definition chain2 :: "location_repository \<times> int64 \<Rightarrow> service \<Rightarrow> go_error option \<times> service" where
  "chain2 = (\<lambda>(repo, sid). and_then (ensureCitiesLoaded repo) (chain3 (repo, sid)))"

lemma ensureEntitiesCachesLoaded_chain:
  "ensureEntitiesCachesLoaded repo sid = and_then (ensureProvincesLoaded repo) (chain2 (repo, sid))"
  by (simp add: ensureEntitiesCachesLoaded_def chain2_def chain3_def chain4_def chain5_def)

lemma and_then_frame:
  "(\<And>s. f (snd (a s)) = f s) \<Longrightarrow> (\<And>s. f (snd (b s)) = f s) \<Longrightarrow> f (snd (and_then a b s)) = f s"
  by (simp add: and_then_def split_beta split: option.split)

text \<open>A step leaves the steps before it alone.\<close>

lemma step_frame:
  "provinceOnce (snd (ensureCitiesLoaded repo s)) = provinceOnce s"
  "provinceErr (snd (ensureCitiesLoaded repo s)) = provinceErr s"
  "provinceOnce (snd (ensureDistrictsLoaded repo sid s)) = provinceOnce s"
  "provinceErr (snd (ensureDistrictsLoaded repo sid s)) = provinceErr s"
  "cityOnce (snd (ensureDistrictsLoaded repo sid s)) = cityOnce s"
  "cityErr (snd (ensureDistrictsLoaded repo sid s)) = cityErr s"
  "provinceOnce (snd (ensureSubDistrictsLoaded repo sid s)) = provinceOnce s"
  "provinceErr (snd (ensureSubDistrictsLoaded repo sid s)) = provinceErr s"
  "cityOnce (snd (ensureSubDistrictsLoaded repo sid s)) = cityOnce s"
  "cityErr (snd (ensureSubDistrictsLoaded repo sid s)) = cityErr s"
  "districtOnce (snd (ensureSubDistrictsLoaded repo sid s)) = districtOnce s"
  "districtErr (snd (ensureSubDistrictsLoaded repo sid s)) = districtErr s"
  "provinceOnce (snd (ensureHierarchyLoaded repo sid s)) = provinceOnce s"
  "provinceErr (snd (ensureHierarchyLoaded repo sid s)) = provinceErr s"
  "cityOnce (snd (ensureHierarchyLoaded repo sid s)) = cityOnce s"
  "cityErr (snd (ensureHierarchyLoaded repo sid s)) = cityErr s"
  "districtOnce (snd (ensureHierarchyLoaded repo sid s)) = districtOnce s"
  "districtErr (snd (ensureHierarchyLoaded repo sid s)) = districtErr s"
  "subDistrictOnce (snd (ensureHierarchyLoaded repo sid s)) = subDistrictOnce s"
  "subDistrictErr (snd (ensureHierarchyLoaded repo sid s)) = subDistrictErr s"
  "provinceOnce (snd (ensureCityPriorityLoaded repo sid s)) = provinceOnce s"
  "provinceErr (snd (ensureCityPriorityLoaded repo sid s)) = provinceErr s"
  "cityOnce (snd (ensureCityPriorityLoaded repo sid s)) = cityOnce s"
  "cityErr (snd (ensureCityPriorityLoaded repo sid s)) = cityErr s"
  "districtOnce (snd (ensureCityPriorityLoaded repo sid s)) = districtOnce s"
  "districtErr (snd (ensureCityPriorityLoaded repo sid s)) = districtErr s"
  "subDistrictOnce (snd (ensureCityPriorityLoaded repo sid s)) = subDistrictOnce s"
  "subDistrictErr (snd (ensureCityPriorityLoaded repo sid s)) = subDistrictErr s"
  "hierarchyOnce (snd (ensureCityPriorityLoaded repo sid s)) = hierarchyOnce s"
  "hierarchyErr (snd (ensureCityPriorityLoaded repo sid s)) = hierarchyErr s"
  by (simp_all add: ensure_defs Let_def split: sum.split)

lemma chain_frame:
  "hierarchyOnce (snd (ensureCityPriorityLoaded repo sid s)) = hierarchyOnce s"
  "hierarchyErr (snd (ensureCityPriorityLoaded repo sid s)) = hierarchyErr s"
  "subDistrictOnce (snd (chain5 (repo, sid) s)) = subDistrictOnce s"
  "subDistrictErr (snd (chain5 (repo, sid) s)) = subDistrictErr s"
  "districtOnce (snd (chain4 (repo, sid) s)) = districtOnce s"
  "districtErr (snd (chain4 (repo, sid) s)) = districtErr s"
  "cityOnce (snd (chain3 (repo, sid) s)) = cityOnce s" "cityErr (snd (chain3 (repo, sid) s)) = cityErr s"
  "provinceOnce (snd (chain2 (repo, sid) s)) = provinceOnce s"
  "provinceErr (snd (chain2 (repo, sid) s)) = provinceErr s"
  unfolding chain2_def chain3_def chain4_def chain5_def prod.case
  by (intro and_then_frame step_frame)+

interpretation chain5: once_chain "\<lambda>(repo, sid). ensureHierarchyLoaded repo sid" hierarchyOnce hierarchyErr
    "\<lambda>(repo, sid). ensureCityPriorityLoaded repo sid"
  by unfold_locales (use city_priority.sticky in \<open>auto simp: chain_frame  split_beta\<close>)

lemma chain5_sticky: "chain5 r' (snd (chain5 r s)) = chain5 r s"
  using chain5.chain_sticky [of r' r s] by (simp add: chain5_def split_beta)

interpretation chain4: once_chain "\<lambda>(repo, sid). ensureSubDistrictsLoaded repo sid" subDistrictOnce subDistrictErr
    "chain5"
  by unfold_locales (auto simp: chain_frame chain5_sticky)

lemma chain4_sticky: "chain4 r' (snd (chain4 r s)) = chain4 r s"
  using chain4.chain_sticky [of r' r s] by (simp add: chain4_def split_beta)

interpretation chain3: once_chain "\<lambda>(repo, sid). ensureDistrictsLoaded repo sid" districtOnce districtErr
    "chain4"
  by unfold_locales (auto simp: chain_frame chain4_sticky)

lemma chain3_sticky: "chain3 r' (snd (chain3 r s)) = chain3 r s"
  using chain3.chain_sticky [of r' r s] by (simp add: chain3_def split_beta)

interpretation chain2: once_chain "\<lambda>(repo, sid). ensureCitiesLoaded repo " cityOnce cityErr
    "chain3"
  by unfold_locales (auto simp: chain_frame chain3_sticky)

lemma chain2_sticky: "chain2 r' (snd (chain2 r s)) = chain2 r s"
  using chain2.chain_sticky [of r' r s] by (simp add: chain2_def split_beta)

interpretation chain1: once_chain "\<lambda>(repo, sid). ensureProvincesLoaded repo " provinceOnce provinceErr
    "chain2"
  by unfold_locales (auto simp: chain_frame chain2_sticky)

text \<open>
  C35. The caches are filled once. Whatever source a later request names and whatever the
  database then says, the later load leaves the caches as they are and reports the same
  error, or none, as the first one did.
\<close>

theorem ensureEntitiesCachesLoaded_sticky:
  "ensureEntitiesCachesLoaded repo' sid' (snd (ensureEntitiesCachesLoaded repo sid svc))
     = ensureEntitiesCachesLoaded repo sid svc"
  using chain1.chain_sticky [of "(repo', sid')" "(repo, sid)" svc]
  by (simp add: ensureEntitiesCachesLoaded_chain)

section \<open>What the caches hold\<close>

lemma get_list_rows:
  "get_list (foldl (\<lambda>m r. map_append (row_key r) (entry r) m) [] rows) (source_key sid name)
     = map entry (filter (\<lambda>r. cr_SourceID r = sid \<and> Normalize (cr_Name r) = name) rows)"
  by (simp add: get_list_foldl row_key_def source_key_inj)

lemma indexed_foldl_upd:
  "indexed f m \<Longrightarrow> (\<And>r. f (entry r) = cr_ID r) \<Longrightarrow> indexed f (foldl (\<lambda>m r. m(cr_ID r \<mapsto> entry r)) m rows)"
  by (induction rows arbitrary: m) (auto intro: indexed_upd)

lemma indexed_foldl_update:
  "indexed f (map_of m) \<Longrightarrow> (\<And>r. f (entry r) = cr_ID r) \<Longrightarrow>
     indexed f (map_of (foldl (\<lambda>m r. AList.update (cr_ID r) (entry r) m) m rows))"
  by (induction rows arbitrary: m) (simp_all add: indexed_upd)

lemma ensure_indexes:
  "indexes_ok s \<Longrightarrow> indexes_ok (snd (ensureProvincesLoaded repo s))"
  "indexes_ok s \<Longrightarrow> indexes_ok (snd (ensureCitiesLoaded repo s))"
  "indexes_ok s \<Longrightarrow> indexes_ok (snd (ensureDistrictsLoaded repo sid s))"
  "indexes_ok s \<Longrightarrow> indexes_ok (snd (ensureSubDistrictsLoaded repo sid s))"
  "indexes_ok s \<Longrightarrow> indexes_ok (snd (ensureHierarchyLoaded repo sid s))"
  "indexes_ok s \<Longrightarrow> indexes_ok (snd (ensureCityPriorityLoaded repo sid s))"
  by (simp_all add: ensure_defs Let_def indexes_ok_def province_of_def city_of_def district_of_def
      sub_district_of_def indexed_foldl_upd indexed_foldl_update split: sum.split)

lemma and_then_invariant:
  "(\<And>s. P s \<Longrightarrow> P (snd (a s))) \<Longrightarrow> (\<And>s. P s \<Longrightarrow> P (snd (b s))) \<Longrightarrow> P s \<Longrightarrow> P (snd (and_then a b s))"
  by (simp add: and_then_def split_beta split: option.split)

lemma ensureEntitiesCachesLoaded_indexes:
  "indexes_ok s \<Longrightarrow> indexes_ok (snd (ensureEntitiesCachesLoaded repo sid s))"
  unfolding ensureEntitiesCachesLoaded_def by (intro and_then_invariant [where P = indexes_ok] ensure_indexes)

lemma sourceAndCaches_cases:
  "sourceAndCaches repo code svc =
     (case FindSourceByCode repo code of
        Inl err \<Rightarrow> (Inl err, svc)
      | Inr p \<Rightarrow>
          (case fst (ensureEntitiesCachesLoaded repo (fst p) svc) of Some err \<Rightarrow> Inl err | None \<Rightarrow> Inr p,
           snd (ensureEntitiesCachesLoaded repo (fst p) svc)))"
  by (simp add: sourceAndCaches_def split: sum.split prod.split option.split)

lemma sourceAndCaches_indexes:
  assumes "indexes_ok s"
  shows "indexes_ok (snd (sourceAndCaches repo code s))"
proof (cases "FindSourceByCode repo code")
  case (Inl err)
  with assms show ?thesis by (simp add: sourceAndCaches_cases)
next
  case (Inr p)
  then show ?thesis
    using ensureEntitiesCachesLoaded_indexes [OF assms, of repo "fst p"] by (simp add: sourceAndCaches_cases)
qed

end
