(* ===== verification/Phrase_Match.thy ===== *)
theory Phrase_Match
  imports Source_Caches
begin

text \<open>
  The phrase dictionary and the two passes of phrase matching of
  \<open>internal/service/validate_helper.go\<close>: longest match on the words of the normalised
  text, and longest match after removing white space. The dictionary is a map of maps, keyed
  by source and name and then by level; what a pass attaches to a word is a map that is only
  looked up.
\<close>

type_synonym word_entities = "gostring \<rightharpoonup> entity list"

section \<open>The dictionary\<close>

definition province_entity :: "province_entry \<Rightarrow> entity" where
  "province_entity e = \<lparr>ent_ID = pe_ID e, ent_Name = pe_Name e, ent_Level = PROVINCE, ent_PostalCode = []\<rparr>"

definition city_entity :: "city_entry \<Rightarrow> entity" where
  "city_entity e = \<lparr>ent_ID = ce_ID e, ent_Name = ce_Name e, ent_Level = CITY, ent_PostalCode = ce_PostalCode e\<rparr>"

definition district_entity :: "district_entry \<Rightarrow> entity" where
  "district_entity e = \<lparr>ent_ID = de_ID e, ent_Name = de_Name e, ent_Level = DISTRICT, ent_PostalCode = []\<rparr>"

definition sub_district_entity :: "sub_district_entry \<Rightarrow> entity" where
  "sub_district_entity e =
     \<lparr>ent_ID = se_ID e, ent_Name = se_Name e, ent_Level = SUBDISTRICT, ent_PostalCode = se_PostalCode e\<rparr>"

definition levels_of :: "phrase_dict \<Rightarrow> gostring \<Rightarrow> (gostring \<times> entity list) list" where
  "levels_of dict key = (case map_of dict key of None \<Rightarrow> [] | Some m \<Rightarrow> m)"

text \<open>The body of one of the four loops of \<open>loadPhraseDict\<close>.\<close>

definition add_phrases ::
  "gostring \<Rightarrow> ('e \<Rightarrow> entity) \<Rightarrow> phrase_dict \<Rightarrow> gostring \<times> 'e list \<Rightarrow> phrase_dict" where
  "add_phrases level entity_of dict p =
     AList.update (fst p)
       (foldl (\<lambda>m e. map_append level (entity_of e) m) (levels_of dict (fst p)) (snd p)) dict"

definition appendUniqueEntities :: "entity list \<Rightarrow> entity list \<Rightarrow> entity list" where
  "appendUniqueEntities dst entities = dst @ dedup_by ent_ID (ent_ID ` set dst) entities"

definition compactSpaces :: "gostring \<Rightarrow> gostring" where
  "compactSpaces s = replace_all '' '' [] (to_lower s)"

text \<open>The loop of \<open>buildCompactPhraseDict\<close>; a key without a colon is skipped.\<close>

definition add_compact :: "range_orders \<Rightarrow> phrase_dict \<Rightarrow> gostring \<times> (gostring \<times> entity list) list \<Rightarrow> phrase_dict" where
  "add_compact ro cdict p =
     (case p of (key, byLevel) \<Rightarrow>
        if CHR '':'' \<notin> set key then cdict
        else let source = takeWhile (\<lambda>c. c \<noteq> CHR '':'') key @ '':'';
                 name = drop (length source) key;
                 compactKey = source @ compactSpaces name;
                 levels = foldl (\<lambda>m (level, entities).
                            AList.update level (appendUniqueEntities (get_list m level) entities) m)
                            (levels_of cdict compactKey) (ro_levels ro byLevel)
             in AList.update compactKey levels cdict)"

definition buildCompactPhraseDict :: "range_orders \<Rightarrow> phrase_dict \<Rightarrow> phrase_dict" where
  "buildCompactPhraseDict ro dict = foldl (add_compact ro) [] (ro_phrases ro dict)"

definition loadPhraseDict :: "range_orders \<Rightarrow> service \<Rightarrow> service" where
  "loadPhraseDict ro svc =
     (let dict = foldl (add_phrases PROVINCE province_entity) [] (ro_provinces ro (provinceCache svc));
          dict = foldl (add_phrases CITY city_entity) dict (ro_cities ro (cityCache svc));
          dict = foldl (add_phrases DISTRICT district_entity) dict (ro_districts ro (districtCache svc));
          dict = foldl (add_phrases SUBDISTRICT sub_district_entity) dict
                   (ro_subDistricts ro (subDistrictCache svc))
      in svc\<lparr>phraseDict := dict, compactPhraseDict := Some (buildCompactPhraseDict ro dict)\<rparr>)"

definition ensurePhraseDictLoaded :: "range_orders \<Rightarrow> service \<Rightarrow> go_error option \<times> service" where
  "ensurePhraseDictLoaded ro svc =
     (let svc = (if phraseDictOnce svc then svc else loadPhraseDict ro (svc\<lparr>phraseDictOnce := True\<rparr>))
      in (phraseDictErr svc, svc))"

section \<open>Matching phrases\<close>

definition phrase_key :: "int64 \<Rightarrow> gostring list \<Rightarrow> gostring" where
  "phrase_key sourceID ws = source_key sourceID (join [space] ws)"

definition phrase_entities :: "range_orders \<Rightarrow> phrase_dict \<Rightarrow> gostring \<Rightarrow> entity list" where
  "phrase_entities ro dict key = concat (map snd (ro_levels ro (levels_of dict key)))"

text \<open>The inner loop: the longest phrase of at most \<open>n\<close> words that the dictionary knows.\<close>

fun longest_end :: "phrase_dict \<Rightarrow> int64 \<Rightarrow> gostring list \<Rightarrow> nat \<Rightarrow> nat option" where
  "longest_end dict sourceID ws 0 = None"
| "longest_end dict sourceID ws (Suc n) =
     (if map_of dict (phrase_key sourceID (take (Suc n) ws)) \<noteq> None then Some (Suc n)
      else longest_end dict sourceID ws n)"

definition add_to_word :: "entity list \<Rightarrow> word_entities \<Rightarrow> gostring \<Rightarrow> word_entities" where
  "add_to_word es m w = m(w \<mapsto> (case m w of None \<Rightarrow> [] | Some old \<Rightarrow> old) @ es)"

definition repeatedPhrase :: "gostring list \<Rightarrow> bool" where
  "repeatedPhrase ws \<longleftrightarrow> list_all (\<lambda>w. w = hd ws) ws \<and> 1 < length ws"

lemma longest_end_bounds: "longest_end dict sid ws n = Some k \<Longrightarrow> 0 < k \<and> k \<le> n"
  by (induction dict sid ws n rule: longest_end.induct) (auto split: if_splits)

function match_loop ::
  "range_orders \<Rightarrow> phrase_dict \<Rightarrow> int64 \<Rightarrow> gostring list \<Rightarrow> word_entities \<Rightarrow> word_entities" where
  "match_loop ro dict sourceID [] m = m"
| "match_loop ro dict sourceID (w # ws) m =
     (case longest_end dict sourceID (w # ws) (length (w # ws)) of
        None \<Rightarrow> match_loop ro dict sourceID ws m
      | Some n \<Rightarrow>
          let phrase = take n (w # ws);
              m = foldl (add_to_word (phrase_entities ro dict (phrase_key sourceID phrase))) m phrase;
              m = (if repeatedPhrase phrase \<and> map_of dict (source_key sourceID w) \<noteq> None
                   then foldl (add_to_word (phrase_entities ro dict (source_key sourceID w))) m phrase
                   else m)
          in match_loop ro dict sourceID (drop n (w # ws)) m)"
  by pat_completeness auto

termination match_loop
  by (relation "measure (\<lambda>(ro, dict, sid, ws, m). length ws)") (auto simp del: longest_end.simps dest!: longest_end_bounds)

definition matchPhrases :: "range_orders \<Rightarrow> phrase_dict \<Rightarrow> int64 \<Rightarrow> gostring \<Rightarrow> word_entities" where
  "matchPhrases ro dict sourceID normalizedText =
     match_loop ro dict sourceID (strings_Fields normalizedText) Map.empty"

section \<open>Matching without white space\<close>

definition spacing_only :: "range_orders \<Rightarrow> phrase_dict \<Rightarrow> phrase_dict \<Rightarrow> int64 \<Rightarrow> gostring list \<Rightarrow> entity list" where
  "spacing_only ro dict cdict sourceID ws =
     (let spacedCandidate = join [space] ws;
          byLevel = levels_of cdict (source_key sourceID (compactSpaces spacedCandidate));
          exactIDs = ent_ID ` set (phrase_entities ro dict (source_key sourceID spacedCandidate))
      in foldl (\<lambda>acc e. if ent_ID e \<notin> exactIDs then appendUniqueEntities acc [e] else acc) []
           (concat (map snd (ro_levels ro byLevel))))"

text \<open>A missing key and one whose entities are all exact are both passed over.\<close>

fun compact_end ::
  "range_orders \<Rightarrow> phrase_dict \<Rightarrow> phrase_dict \<Rightarrow> int64 \<Rightarrow> gostring list \<Rightarrow> nat \<Rightarrow> (nat \<times> entity list) option" where
  "compact_end ro dict cdict sourceID ws 0 = None"
| "compact_end ro dict cdict sourceID ws (Suc n) =
     (let es = (if map_of cdict (source_key sourceID (compactSpaces (join [space] (take (Suc n) ws)))) = None
                then [] else spacing_only ro dict cdict sourceID (take (Suc n) ws)) in
      if es \<noteq> [] then Some (Suc n, es) else compact_end ro dict cdict sourceID ws n)"

definition add_unique_to_word :: "entity list \<Rightarrow> word_entities \<Rightarrow> gostring \<Rightarrow> word_entities" where
  "add_unique_to_word es m w =
     m(w \<mapsto> appendUniqueEntities (case m w of None \<Rightarrow> [] | Some old \<Rightarrow> old) es)"

lemma compact_end_bounds: "compact_end ro dict cdict sid ws n = Some (k, es) \<Longrightarrow> 0 < k \<and> k \<le> n"
  by (induction ro dict cdict sid ws n rule: compact_end.induct) (auto simp: Let_def split: if_splits)

function compact_loop ::
  "range_orders \<Rightarrow> phrase_dict \<Rightarrow> phrase_dict \<Rightarrow> int64 \<Rightarrow> gostring list \<Rightarrow> word_entities \<Rightarrow> word_entities" where
  "compact_loop ro dict cdict sourceID [] m = m"
| "compact_loop ro dict cdict sourceID (w # ws) m =
     (case compact_end ro dict cdict sourceID (w # ws) (length (w # ws)) of
        None \<Rightarrow> compact_loop ro dict cdict sourceID ws m
      | Some (n, es) \<Rightarrow>
          compact_loop ro dict cdict sourceID (drop n (w # ws))
            (foldl (add_unique_to_word es) m (take n (w # ws))))"
  by pat_completeness auto

termination compact_loop
  by (relation "measure (\<lambda>(ro, dict, cdict, sid, ws, m). length ws)") (auto simp del: compact_end.simps dest!: compact_end_bounds)

text \<open>A missing compact dictionary is built, and kept, on first use.\<close>

definition matchCompactPhrases ::
  "range_orders \<Rightarrow> int64 \<Rightarrow> gostring \<Rightarrow> service \<Rightarrow> word_entities \<times> service" where
  "matchCompactPhrases ro sourceID normalizedText svc =
     (let cdict = (case compactPhraseDict svc of
                       None \<Rightarrow> buildCompactPhraseDict ro (phraseDict svc) | Some d \<Rightarrow> d);
          svc = svc\<lparr>compactPhraseDict := Some cdict\<rparr>
      in (compact_loop ro (phraseDict svc) cdict sourceID (strings_Fields normalizedText) Map.empty, svc))"

section \<open>What the dictionary holds\<close>

lemma levels_of_update [simp]:
  "levels_of (AList.update k m dict) l = (if l = k then m else levels_of dict l)"
  by (simp add: levels_of_def)

lemma levels_of_Nil [simp]: "levels_of [] l = []"
  by (simp add: levels_of_def)

lemma get_list_foldl_same:
  "get_list (foldl (\<lambda>m e. map_append level (f e) m) m es) l
     = (if l = level then get_list m level @ map f es else get_list m l)"
  by (induction es arbitrary: m) auto

lemma levels_of_foldl_add:
  assumes "distinct (map fst cache)"
  shows "get_list (levels_of (foldl (add_phrases level f) dict cache) key) l
    = (if l = level then get_list (levels_of dict key) level @ map f (get_list cache key)
       else get_list (levels_of dict key) l)"
  using assms
proof (induction cache arbitrary: dict)
  case (Cons p cache)
  obtain k es where p: "p = (k, es)" by (cases p)
  have "get_list cache k = []" using Cons.prems p by (simp add: get_list_def map_of_eq_None_iff [THEN iffD2])
  with Cons show ?case
    by (auto simp: p add_phrases_def get_list_foldl_same)
qed simp

lemma map_of_foldl_add:
  "map_of (foldl (add_phrases level f) dict cache) key = None
     \<longleftrightarrow> map_of dict key = None \<and> key \<notin> fst ` set cache"
  by (induction cache arbitrary: dict) (auto simp: add_phrases_def)

definition caches_distinct :: "service \<Rightarrow> bool" where
  "caches_distinct svc \<longleftrightarrow>
     distinct (map fst (provinceCache svc)) \<and> distinct (map fst (cityCache svc))
   \<and> distinct (map fst (districtCache svc)) \<and> distinct (map fst (subDistrictCache svc))"

lemma get_list_order:
  assumes "is_order ord" and "distinct (map fst m)"
  shows "get_list (ord m) k = get_list m k"
  using is_order_map_of [OF assms] by (simp add: get_list_def)

text \<open>
  Whatever order the caches are ranged in, the dictionary holds under a key and a level
  exactly the entries that the level's cache holds under that key, in the cache's order, and
  it knows a key exactly if one of the caches does.
\<close>

theorem loadPhraseDict_lookup:
  assumes "is_range_orders ro" and "caches_distinct svc"
  shows "let dict = phraseDict (loadPhraseDict ro svc) in
     get_list (levels_of dict key) PROVINCE = map province_entity (get_list (provinceCache svc) key)
   \<and> get_list (levels_of dict key) CITY = map city_entity (get_list (cityCache svc) key)
   \<and> get_list (levels_of dict key) DISTRICT = map district_entity (get_list (districtCache svc) key)
   \<and> get_list (levels_of dict key) SUBDISTRICT = map sub_district_entity (get_list (subDistrictCache svc) key)
   \<and> (map_of dict key = None \<longleftrightarrow> key \<notin> fst ` (set (provinceCache svc)) \<union> fst ` set (cityCache svc)
        \<union> fst ` set (districtCache svc) \<union> fst ` set (subDistrictCache svc))"
proof -
  have d: "distinct (map fst (ro_provinces ro (provinceCache svc)))" "distinct (map fst (ro_cities ro (cityCache svc)))"
    "distinct (map fst (ro_districts ro (districtCache svc)))"
    "distinct (map fst (ro_subDistricts ro (subDistrictCache svc)))"
    using assms by (simp_all add: is_range_orders_def caches_distinct_def is_order_distinct)
  have s: "set (ro_provinces ro (provinceCache svc)) = set (provinceCache svc)"
    "set (ro_cities ro (cityCache svc)) = set (cityCache svc)"
    "set (ro_districts ro (districtCache svc)) = set (districtCache svc)"
    "set (ro_subDistricts ro (subDistrictCache svc)) = set (subDistrictCache svc)"
    using assms by (simp_all add: is_range_orders_def is_order_set)
  have g: "get_list (ro_provinces ro (provinceCache svc)) key = get_list (provinceCache svc) key"
    "get_list (ro_cities ro (cityCache svc)) key = get_list (cityCache svc) key"
    "get_list (ro_districts ro (districtCache svc)) key = get_list (districtCache svc) key"
    "get_list (ro_subDistricts ro (subDistrictCache svc)) key = get_list (subDistrictCache svc) key"
    using assms by (simp_all add: is_range_orders_def caches_distinct_def get_list_order)
  show ?thesis
    by (simp add: loadPhraseDict_def Let_def levels_of_foldl_add d g map_of_foldl_add s)
qed

lemma loaded_caches_distinct:
  "caches_distinct s \<Longrightarrow> caches_distinct (snd (ensureProvincesLoaded repo s))"
  "caches_distinct s \<Longrightarrow> caches_distinct (snd (ensureCitiesLoaded repo s))"
  "caches_distinct s \<Longrightarrow> caches_distinct (snd (ensureDistrictsLoaded repo sid s))"
  "caches_distinct s \<Longrightarrow> caches_distinct (snd (ensureSubDistrictsLoaded repo sid s))"
  "caches_distinct s \<Longrightarrow> caches_distinct (snd (ensureHierarchyLoaded repo sid s))"
  "caches_distinct s \<Longrightarrow> caches_distinct (snd (ensureCityPriorityLoaded repo sid s))"
  by (simp_all add: ensure_defs Let_def caches_distinct_def distinct_foldl_map_append split: sum.split)

lemma ensureEntitiesCachesLoaded_distinct:
  "caches_distinct s \<Longrightarrow> caches_distinct (snd (ensureEntitiesCachesLoaded repo sid s))"
  unfolding ensureEntitiesCachesLoaded_def
  by (intro and_then_invariant [where P = caches_distinct] loaded_caches_distinct)

lemma new_service_distinct: "caches_distinct (new_service n code store)"
  by (simp add: caches_distinct_def new_service_def)

section \<open>What matching attaches\<close>

definition attached :: "word_entities \<Rightarrow> gostring \<Rightarrow> entity list" where
  "attached m w = (case m w of None \<Rightarrow> [] | Some es \<Rightarrow> es)"

lemma attached_empty [simp]: "attached Map.empty w = []"
  by (simp add: attached_def)

lemma attached_foldl:
  "set (attached (foldl (add_to_word es) m ws) w)
     = set (attached m w) \<union> (if w \<in> set ws then set es else {})"
  by (induction ws arbitrary: m) (auto simp: attached_def add_to_word_def)

text \<open>An entity that the phrase \<open>p\<close>, a run of words of the text, brings to the word \<open>w\<close>.\<close>

definition brings :: "range_orders \<Rightarrow> phrase_dict \<Rightarrow> int64 \<Rightarrow> gostring list \<Rightarrow> gostring \<Rightarrow> entity \<Rightarrow> bool" where
  "brings ro dict sid p w e \<longleftrightarrow> w \<in> set p \<and>
     (e \<in> set (phrase_entities ro dict (phrase_key sid p))
      \<or> repeatedPhrase p \<and> e \<in> set (phrase_entities ro dict (source_key sid w)))"

lemma repeated_same: "repeatedPhrase p \<Longrightarrow> v \<in> set p \<Longrightarrow> v = hd p"
  by (auto simp: repeatedPhrase_def list_all_iff)

lemma phrase_adds:
  assumes "p = take n (v # ws)"
    and "m1 = foldl (add_to_word (phrase_entities ro dict (phrase_key sid p))) m p"
    and "m2 = (if repeatedPhrase p \<and> map_of dict (source_key sid v) \<noteq> None
      then foldl (add_to_word (phrase_entities ro dict (source_key sid v))) m1 p else m1)"
  shows "set (attached m2 w) \<subseteq> set (attached m w) \<union> {e. brings ro dict sid p w e}"
proof -
  have hd: "w \<in> set p \<Longrightarrow> hd p = v" unfolding assms(1) by (cases n) auto
  have m1: "set (attached m1 w) \<subseteq> set (attached m w) \<union> {e. brings ro dict sid p w e}"
    unfolding assms(2) attached_foldl by (auto simp: brings_def)
  show ?thesis
  proof (cases "repeatedPhrase p \<and> w \<in> set p")
    case True
    then have "w = v" using repeated_same [of p w] hd by simp
    with True m1 show ?thesis
      unfolding assms(3) by (cases "map_of dict (source_key sid v) = None") (auto simp: attached_foldl brings_def)
  next
    case False
    then have "set (attached m2 w) = set (attached m1 w)"
      unfolding assms(3) by (cases "repeatedPhrase p") (simp_all add: attached_foldl)
    with m1 show ?thesis by simp
  qed
qed

lemma covered_mono: "A \<subseteq> B \<union> {e. \<exists>q. P q \<and> R q e} \<Longrightarrow> (\<And>q. P q \<Longrightarrow> Q q) \<Longrightarrow> A \<subseteq> B \<union> {e. \<exists>q. Q q \<and> R q e}"
  by blast

lemma covered_step:
  "A \<subseteq> B \<union> {e. \<exists>q. P q \<and> R q e} \<Longrightarrow> B \<subseteq> C \<union> {e. R p e} \<Longrightarrow> Q p \<Longrightarrow> (\<And>q. P q \<Longrightarrow> Q q)
     \<Longrightarrow> A \<subseteq> C \<union> {e. \<exists>q. Q q \<and> R q e}"
  by blast

lemma match_loop_sound:
  "set (attached (match_loop ro dict sid ws m) w)
     \<subseteq> set (attached m w) \<union> {e. \<exists>p. sublist p ws \<and> brings ro dict sid p w e}"
proof (induction ro dict sid ws m rule: match_loop.induct)
  case (1 ro dict sid m)
  show ?case by simp
next
  case (2 ro dict sid v ws m)
  show ?case
  proof (cases "longest_end dict sid (v # ws) (length (v # ws))")
    case None
    have "match_loop ro dict sid (v # ws) m = match_loop ro dict sid ws m"
      unfolding match_loop.simps(2) [of ro dict sid v ws m] by (simp only: None option.case)
    then show ?thesis
      using covered_mono [OF "2.IH"(1) [OF None], of "\<lambda>q. sublist q (v # ws)"]
      by (simp only: sublist_Cons_right simp_thms)
  next
    case (Some n)
    define p where "p = take n (v # ws)"
    define m1 where "m1 = foldl (add_to_word (phrase_entities ro dict (phrase_key sid p))) m p"
    define m2 where "m2 = (if repeatedPhrase p \<and> map_of dict (source_key sid v) \<noteq> None
      then foldl (add_to_word (phrase_entities ro dict (source_key sid v))) m1 p else m1)"
    have sub: "sublist p (v # ws)" unfolding p_def by (rule sublist_take)
    have tl: "sublist q (drop n (v # ws)) \<Longrightarrow> sublist q (v # ws)" for q
      using sublist_drop sublist_order.order.trans by blast
    have m2: "set (attached m2 w) \<subseteq> set (attached m w) \<union> {e. brings ro dict sid p w e}"
      using phrase_adds [OF p_def m1_def m2_def] .
    have "match_loop ro dict sid (v # ws) m = match_loop ro dict sid (drop n (v # ws)) m2"
      unfolding match_loop.simps(2) [of ro dict sid v ws m] option.case Let_def p_def m1_def m2_def
      by (simp only: Some option.case)
    then show ?thesis
      using covered_step [where R = "\<lambda>q. brings ro dict sid q w" and P = "\<lambda>q. sublist q (drop n (v # ws))"
          and Q = "\<lambda>q. sublist q (v # ws)", OF "2.IH"(2) [OF Some p_def m1_def m2_def] m2 sub tl]
      by (simp only:)
  qed
qed

text \<open>
  Every entity that the phrase pass attaches to a word comes from a dictionary entry of
  the right source for a run of words of the text that contains the word, or, where that run
  is one word repeated, from the entry of the word itself.
\<close>

theorem matchPhrases_sound:
  "set (attached (matchPhrases ro dict sid text) w)
     \<subseteq> {e. \<exists>p. sublist p (strings_Fields text) \<and> brings ro dict sid p w e}"
  using match_loop_sound [of ro dict sid "strings_Fields text" Map.empty w] by (simp add: matchPhrases_def)

lemma longest_end_whole:
  "ws \<noteq> [] \<Longrightarrow> map_of dict (phrase_key sid ws) \<noteq> None \<Longrightarrow>
     longest_end dict sid ws (length ws) = Some (length ws)"
  by (cases ws) simp_all

text \<open>
  A text that is, as a whole, a name of the dictionary attaches that name's entities to
  each of its words, although words of it may be names themselves.
\<close>

theorem matchPhrases_whole:
  assumes "map_of dict (phrase_key sid (strings_Fields text)) \<noteq> None"
    and "w \<in> set (strings_Fields text)"
  shows "set (phrase_entities ro dict (phrase_key sid (strings_Fields text)))
     \<subseteq> set (attached (matchPhrases ro dict sid text) w)"
proof -
  obtain v ws where ws: "strings_Fields text = v # ws" using assms(2) by (cases "strings_Fields text") auto
  define p where "p = v # ws"
  have "longest_end dict sid p (length p) = Some (length p)"
    using assms(1) ws unfolding p_def by (intro longest_end_whole) simp_all
  then have "matchPhrases ro dict sid text =
      (let m = foldl (add_to_word (phrase_entities ro dict (phrase_key sid p))) Map.empty p in
       if repeatedPhrase p \<and> map_of dict (source_key sid v) \<noteq> None
       then foldl (add_to_word (phrase_entities ro dict (source_key sid v))) m p else m)"
    by (auto simp: matchPhrases_def ws p_def Let_def simp del: longest_end.simps foldl_Cons)
  then show ?thesis
    using assms(2) unfolding ws p_def [symmetric] by (simp add: Let_def attached_foldl)
qed

definition demo_dict :: phrase_dict where
  "demo_dict = [(''1:lembang'', [(SUBDISTRICT, [\<lparr>ent_ID = 9, ent_Name = ''Lembang'',
       ent_Level = SUBDISTRICT, ent_PostalCode = ''40391''\<rparr>])]),
     (''1:lembang lembang'', [(DISTRICT, [\<lparr>ent_ID = 5, ent_Name = ''Lembang Lembang'',
       ent_Level = DISTRICT, ent_PostalCode = []\<rparr>])])]"

theorem matchPhrases_whole_witness:
  "set (phrase_entities insertion_orders demo_dict ''1:lembang lembang'')
     \<subseteq> set (attached (matchPhrases insertion_orders demo_dict 1 ''lembang lembang'') ''lembang'')"
proof -
  have f: "strings_Fields ''lembang lembang'' = [''lembang'', ''lembang'']" by code_simp
  have k: "phrase_key 1 [''lembang'', ''lembang''] = ''1:lembang lembang''" by code_simp
  show ?thesis
    using matchPhrases_whole [of demo_dict 1 "''lembang lembang''" "''lembang''" insertion_orders]
    by (simp add: f k demo_dict_def)
qed

theorem loadPhraseDict_lookup_witness:
  "let svc = (new_service 500 ''x'' True)\<lparr>cityCache :=
       [(''1:bandung'', [\<lparr>ce_ID = 3, ce_Name = ''Kota Bandung'', ce_Kode = ''32.73'', ce_PostalCode = []\<rparr>])]\<rparr> in
     get_list (levels_of (phraseDict (loadPhraseDict insertion_orders svc)) ''1:bandung'') CITY
       = [\<lparr>ent_ID = 3, ent_Name = ''Kota Bandung'', ent_Level = CITY, ent_PostalCode = []\<rparr>]"
proof -
  let ?svc = "(new_service 500 ''x'' True)\<lparr>cityCache :=
    [(''1:bandung'', [\<lparr>ce_ID = 3, ce_Name = ''Kota Bandung'', ce_Kode = ''32.73'', ce_PostalCode = []\<rparr>])]\<rparr>"
  have "caches_distinct ?svc" by (simp add: caches_distinct_def new_service_def)
  from loadPhraseDict_lookup [OF insertion_orders_ok this, of "''1:bandung''"]
  show ?thesis by (simp add: Let_def city_entity_def)
qed

section \<open>Unique entities and the compact pass\<close>

lemma appendUniqueEntities_ids:
  "ent_ID ` set (appendUniqueEntities dst es) = ent_ID ` set dst \<union> ent_ID ` set es"
  by (auto simp: appendUniqueEntities_def dedup_by_keys image_Un)

lemma appendUniqueEntities_distinct:
  "distinct (map ent_ID dst) \<Longrightarrow> distinct (map ent_ID (appendUniqueEntities dst es))"
  using dedup_by_keys [of ent_ID "ent_ID ` set dst" es]
  by (auto simp: appendUniqueEntities_def dedup_by_distinct)

lemma appendUniqueEntities_set: "set (appendUniqueEntities dst es) \<subseteq> set dst \<union> set es"
  using dedup_by_subset [of ent_ID "ent_ID ` set dst" es] by (auto simp: appendUniqueEntities_def)

lemma appendUniqueEntities_Nil [simp]: "appendUniqueEntities dst [] = dst"
  by (simp add: appendUniqueEntities_def)

definition compact_key :: "gostring \<Rightarrow> gostring" where
  "compact_key key =
     (let source = takeWhile (\<lambda>c. c \<noteq> CHR '':'') key @ '':'' in
      source @ compactSpaces (drop (length source) key))"

lemma compact_key_source: "compact_key (source_key sid name) = source_key sid (compactSpaces name)"
proof -
  have "takeWhile (\<lambda>c. c \<noteq> CHR '':'') (source_key sid name) = fmt_d sid"
    using fmt_d_no_colon [of sid] by (auto simp: source_key_def takeWhile_append)
  then show ?thesis by (simp add: compact_key_def source_key_def)
qed

definition entities_of :: "(gostring \<times> entity list) list \<Rightarrow> entity set" where
  "entities_of m = \<Union> (set ` snd ` set m)"

lemma entities_of_Nil [simp]: "entities_of [] = {}"
  by (simp add: entities_of_def)

lemma entities_of_concat: "set (concat (map snd m)) = entities_of m"
  by (auto simp: entities_of_def)

lemma entities_of_order: "is_order ord \<Longrightarrow> entities_of (ord m) = entities_of m"
  by (simp add: entities_of_def is_order_set)

lemma entities_of_get: "set (get_list m l) \<subseteq> entities_of m"
  unfolding entities_of_def by (induction m) (auto simp: get_list_def)

lemma entities_of_update: "entities_of (AList.update l es m) \<subseteq> entities_of m \<union> set es"
  unfolding entities_of_def by (induction m) auto

lemma entities_of_fold:
  "entities_of (foldl (\<lambda>m (level, es). AList.update level (appendUniqueEntities (get_list m level) es) m) m qs)
     \<subseteq> entities_of m \<union> entities_of qs"
proof (induction qs arbitrary: m)
  case (Cons q qs)
  obtain level es where q: "q = (level, es)" by (cases q)
  have "entities_of (AList.update level (appendUniqueEntities (get_list m level) es) m)
      \<subseteq> entities_of m \<union> set es"
    using entities_of_update [of level "appendUniqueEntities (get_list m level) es" m]
      appendUniqueEntities_set [of "get_list m level" es] entities_of_get [of m level] by blast
  moreover have "entities_of (q # qs) = set es \<union> entities_of qs" by (simp add: q entities_of_def)
  ultimately show ?case
    using Cons [of "AList.update level (appendUniqueEntities (get_list m level) es) m"]
    unfolding q by auto
qed simp

text \<open>The entities that the dictionary holds under any name with a given compact form.\<close>

definition same_letters :: "phrase_dict \<Rightarrow> gostring \<Rightarrow> entity set" where
  "same_letters dict ck = {e. \<exists>q\<in>set dict. compact_key (fst q) = ck \<and> e \<in> entities_of (snd q)}"

lemma same_letters_Cons:
  "same_letters (p # ps) ck = (if compact_key (fst p) = ck then entities_of (snd p) else {}) \<union> same_letters ps ck"
  unfolding same_letters_def by (cases "compact_key (fst p) = ck") (simp_all add: Collect_disj_eq)

lemma add_compact_entities:
  assumes "is_range_orders ro"
  shows "entities_of (levels_of (add_compact ro c p) ck) \<subseteq> entities_of (levels_of c ck)
    \<union> (if compact_key (fst p) = ck then entities_of (snd p) else {})"
proof -
  obtain key byLevel where p: "p = (key, byLevel)" by (cases p)
  have o: "entities_of (ro_levels ro byLevel) = entities_of byLevel"
    using assms by (simp add: is_range_orders_def entities_of_order)
  define m where "m = foldl (\<lambda>m (level, es). AList.update level (appendUniqueEntities (get_list m level) es) m)
    (levels_of c (compact_key key)) (ro_levels ro byLevel)"
  have eq: "add_compact ro c p = (if CHR '':'' \<notin> set key then c else AList.update (compact_key key) m c)"
    by (simp only: p add_compact_def prod.case compact_key_def Let_def m_def)
  have m: "entities_of m \<subseteq> entities_of (levels_of c (compact_key key)) \<union> entities_of byLevel"
    using entities_of_fold [of "levels_of c (compact_key key)" "ro_levels ro byLevel"]
    unfolding m_def o .
  then show ?thesis
    unfolding eq by (cases "compact_key key = ck") (auto simp: p)
qed

lemma buildCompact_entities:
  assumes "is_range_orders ro"
  shows "entities_of (levels_of (buildCompactPhraseDict ro dict) ck) \<subseteq> same_letters dict ck"
proof -
  have "entities_of (levels_of (foldl (add_compact ro) c ps) ck)
      \<subseteq> entities_of (levels_of c ck) \<union> same_letters ps ck" for c ps
  proof (induction ps arbitrary: c)
    case (Cons p ps)
    show ?case
      using Cons [of "add_compact ro c p"] add_compact_entities [OF assms, of c p ck]
      unfolding same_letters_Cons foldl_Cons by blast
  qed simp
  from this [of "[]" "ro_phrases ro dict"]
  have "entities_of (levels_of (buildCompactPhraseDict ro dict) ck) \<subseteq> same_letters (ro_phrases ro dict) ck"
    by (simp add: buildCompactPhraseDict_def)
  moreover have "set (ro_phrases ro dict) = set dict"
    using assms by (simp add: is_range_orders_def is_order_set)
  ultimately show ?thesis by (simp add: same_letters_def)
qed

lemma spacing_only_subset:
  assumes "is_range_orders ro"
  shows "set (spacing_only ro dict cdict sid ws)
    \<subseteq> entities_of (levels_of cdict (source_key sid (compactSpaces (join [space] ws))))
      \<inter> {e. ent_ID e \<notin> ent_ID ` entities_of (levels_of dict (phrase_key sid ws))}"
proof -
  have fold: "set (foldl (\<lambda>acc e. if ent_ID e \<notin> X then appendUniqueEntities acc [e] else acc) acc es)
      \<subseteq> set acc \<union> (set es \<inter> {e. ent_ID e \<notin> X})" for X acc es
  proof (induction es arbitrary: acc)
    case (Cons e es)
    show ?case using Cons [of "appendUniqueEntities acc [e]"] Cons [of acc] appendUniqueEntities_set [of acc "[e]"]
      by (cases "ent_ID e \<in> X") auto
  qed simp
  have o: "is_order (ro_levels ro)" using assms by (simp add: is_range_orders_def)
  have x: "set (phrase_entities ro dict k) = entities_of (levels_of dict k)" for k
    by (simp only: phrase_entities_def entities_of_concat entities_of_order [OF o])
  show ?thesis
    unfolding spacing_only_def Let_def x phrase_key_def
    by (rule subset_trans [OF fold]) (simp only: entities_of_concat entities_of_order [OF o], simp)
qed

text \<open>An entity that the text \<open>p\<close> names only up to white space.\<close>

definition respaced :: "phrase_dict \<Rightarrow> int64 \<Rightarrow> gostring list \<Rightarrow> gostring \<Rightarrow> entity \<Rightarrow> bool" where
  "respaced dict sid p w e \<longleftrightarrow> w \<in> set p
     \<and> e \<in> same_letters dict (source_key sid (compactSpaces (join [space] p)))
     \<and> ent_ID e \<notin> ent_ID ` entities_of (levels_of dict (phrase_key sid p))"

lemma attached_foldl_unique:
  "set (attached (foldl (add_unique_to_word es) m ws) w)
     \<subseteq> set (attached m w) \<union> (if w \<in> set ws then set es else {})"
proof (induction ws arbitrary: m)
  case (Cons v ws)
  have "set (attached (add_unique_to_word es m v) w) \<subseteq> set (attached m w) \<union> (if w = v then set es else {})"
    using appendUniqueEntities_set [of "attached m w" es]
    by (auto simp: add_unique_to_word_def attached_def)
  with Cons [of "add_unique_to_word es m v"] show ?case by (auto split: if_splits)
qed simp

lemma compact_end_es:
  "compact_end ro dict cdict sid ws n = Some (k, es) \<Longrightarrow> es = spacing_only ro dict cdict sid (take k ws)"
  by (induction ro dict cdict sid ws n rule: compact_end.induct) (auto simp: Let_def split: if_splits)


lemma compact_loop_sound:
  assumes "is_range_orders ro" and "is_range_orders ro' \<and> cdict = buildCompactPhraseDict ro' dict"
  shows "set (attached (compact_loop ro dict cdict sid ws m) w)
     \<subseteq> set (attached m w) \<union> {e. \<exists>p. sublist p ws \<and> respaced dict sid p w e}"
  using assms
proof (induction ro dict cdict sid ws m rule: compact_loop.induct)
  case (1 ro dict cdict sid m)
  show ?case by simp
next
  case (2 ro dict cdict sid v ws m)
  show ?case
  proof (cases "compact_end ro dict cdict sid (v # ws) (length (v # ws))")
    case None
    have "compact_loop ro dict cdict sid (v # ws) m = compact_loop ro dict cdict sid ws m"
      unfolding compact_loop.simps(2) [of ro dict cdict sid v ws m] by (simp only: None option.case)
    then show ?thesis
      using covered_mono [OF "2.IH"(1) [OF None "2.prems"], of "\<lambda>q. sublist q (v # ws)"]
      by (simp only: sublist_Cons_right simp_thms)
  next
    case (Some nes)
    obtain n es where nes: "nes = (n, es)" by (cases nes)
    define p where "p = take n (v # ws)"
    have sub: "sublist p (v # ws)" unfolding p_def by (rule sublist_take)
    have tl: "sublist q (drop n (v # ws)) \<Longrightarrow> sublist q (v # ws)" for q
      using sublist_drop sublist_order.order.trans by blast
    have es: "es = spacing_only ro dict cdict sid p"
      using compact_end_es [OF Some [unfolded nes]] unfolding p_def .
    have new: "set es \<subseteq> {e. e \<in> same_letters dict (source_key sid (compactSpaces (join [space] p)))
        \<and> ent_ID e \<notin> ent_ID ` entities_of (levels_of dict (phrase_key sid p))}"
      using spacing_only_subset [OF "2.prems"(1), of dict cdict sid p]
        buildCompact_entities [of ro' dict] "2.prems"(2) unfolding es by blast
    have m2: "set (attached (foldl (add_unique_to_word es) m p) w)
        \<subseteq> set (attached m w) \<union> {e. respaced dict sid p w e}"
      using attached_foldl_unique [of es m p w] new
      unfolding respaced_def by (cases "w \<in> set p") auto
    have "compact_loop ro dict cdict sid (v # ws) m
        = compact_loop ro dict cdict sid (drop n (v # ws)) (foldl (add_unique_to_word es) m p)"
      unfolding compact_loop.simps(2) [of ro dict cdict sid v ws m] p_def
      by (simp only: Some nes option.case prod.case)
    then show ?thesis
      using covered_step [where R = "\<lambda>q. respaced dict sid q w" and P = "\<lambda>q. sublist q (drop n (v # ws))"
          and Q = "\<lambda>q. sublist q (v # ws)", OF "2.IH"(2) [OF Some nes [symmetric] "2.prems", folded p_def] m2 sub tl]
      by (simp only:)
  qed
qed

text \<open>
  A compact dictionary, once there is one, was built from the current dictionary, in whatever
  order the maps were ranged over at that time.
\<close>

definition compact_ok :: "service \<Rightarrow> bool" where
  "compact_ok svc \<longleftrightarrow> (\<forall>c. compactPhraseDict svc = Some c \<longrightarrow>
     (\<exists>ro. is_range_orders ro \<and> c = buildCompactPhraseDict ro (phraseDict svc)))"

lemma compact_ok_loop:
  assumes "is_range_orders ro" and "compact_ok svc"
  shows "set (attached (fst (matchCompactPhrases ro sid text svc)) w)
     \<subseteq> {e. \<exists>p. sublist p (strings_Fields text) \<and> respaced (phraseDict svc) sid p w e}"
proof -
  define c where "c = (case compactPhraseDict svc of None \<Rightarrow> buildCompactPhraseDict ro (phraseDict svc) | Some d \<Rightarrow> d)"
  obtain ro' where "is_range_orders ro' \<and> c = buildCompactPhraseDict ro' (phraseDict svc)"
    using assms unfolding compact_ok_def c_def by (cases "compactPhraseDict svc") auto
  from compact_loop_sound [OF assms(1) this, of sid "strings_Fields text" Map.empty w]
  show ?thesis by (simp add: matchCompactPhrases_def Let_def c_def)
qed

lemma compact_ok_kept:
  "is_range_orders ro \<Longrightarrow> compact_ok svc \<Longrightarrow> compact_ok (snd (matchCompactPhrases ro sid text svc))"
  by (auto simp: compact_ok_def matchCompactPhrases_def Let_def split: option.split)

lemma compact_ok_loaded: "is_range_orders ro \<Longrightarrow> compact_ok (loadPhraseDict ro svc)"
  by (auto simp: compact_ok_def loadPhraseDict_def Let_def)

text \<open>
  C32. With a compact dictionary that is missing or was built from the current dictionary, the
  compact pass attaches to a word only entities of dictionary names that equal a run of words
  around it up to white space, and never an entity that the run already names literally.
\<close>

theorem matchCompactPhrases_sound:
  assumes "is_range_orders ro" and "compact_ok svc"
  shows "set (attached (fst (matchCompactPhrases ro sid text svc)) w)
     \<subseteq> {e. \<exists>p. sublist p (strings_Fields text) \<and> respaced (phraseDict svc) sid p w e}"
  using assms by (rule compact_ok_loop)

theorem matchCompactPhrases_sound_witness:
  "set (attached (fst (matchCompactPhrases insertion_orders 1 ''lem bang''
       ((new_service 500 ''x'' True)\<lparr>phraseDict := demo_dict\<rparr>))) ''lem'')
     \<subseteq> {e. \<exists>p. sublist p (strings_Fields ''lem bang'') \<and> respaced demo_dict 1 p ''lem'' e}"
  using matchCompactPhrases_sound [OF insertion_orders_ok,
      of "(new_service 500 ''x'' True)\<lparr>phraseDict := demo_dict\<rparr>"]
  by (simp add: new_service_def compact_ok_def)

end
