(* ===== verification/Resolve.thy ===== *)
theory Resolve
  imports Phrase_Match Go_Sort
begin

text \<open>
  Evidence resolution, \<open>internal/service/resolve.go\<close>: each piece of evidence gets the
  entities it may denote, a city that shares its name with lower levels takes priority when
  nothing else locates the address, and names that differ from the text only in white space are
  added where no literal sub-district fits the rest.
\<close>

section \<open>Entities for a piece of evidence\<close>

definition resolvePostalCodeEntity :: "range_orders \<Rightarrow> service \<Rightarrow> evidence \<Rightarrow> entity list" where
  "resolvePostalCodeEntity ro svc ev =
     concat (map (\<lambda>(_, entries). map sub_district_entity
        (filter (\<lambda>entry. se_PostalCode entry = ev_Value ev) entries))
      (ro_subDistricts ro (subDistrictCache svc)))"

definition resolvePlaceNameEntity :: "evidence \<Rightarrow> word_entities \<Rightarrow> entity list" where
  "resolvePlaceNameEntity ev wordEntities =
     (case wordEntities (ev_Value ev) of None \<Rightarrow> [] | Some entities \<Rightarrow> dedup_by ent_ID {} entities)"

definition resolveRoadNameEntity :: "evidence \<Rightarrow> entity list" where
  "resolveRoadNameEntity ev = []"

definition resolve_one :: "range_orders \<Rightarrow> service \<Rightarrow> word_entities \<Rightarrow> evidence \<Rightarrow> resolved_evidence" where
  "resolve_one ro svc wordEntities ev = \<lparr>re_Evidence = ev, re_Candidates =
     (case ev_Type ev of
        EvidencePostalCode \<Rightarrow> resolvePostalCodeEntity ro svc ev
      | EvidencePlaceName \<Rightarrow> resolvePlaceNameEntity ev wordEntities
      | EvidenceRoadName \<Rightarrow> resolveRoadNameEntity ev)\<rparr>"

section \<open>City priority\<close>

definition cityTypeOf :: "gostring \<Rightarrow> gostring" where
  "cityTypeOf name = (if prefix ''Kota '' name then ''KOTA'' else ''KABUPATEN'')"

abbreviation is_place :: "resolved_evidence \<Rightarrow> bool" where
  "is_place re \<equiv> ev_Type (re_Evidence re) = EvidencePlaceName"

abbreviation re_Value :: "resolved_evidence \<Rightarrow> gostring" where
  "re_Value re \<equiv> ev_Value (re_Evidence re)"

definition hasOtherLocationEvidence ::
  "resolved_evidence list \<Rightarrow> gostring \<Rightarrow> gostring set \<Rightarrow> bool" where
  "hasOtherLocationEvidence resolved priorityValue roadTokens =
     list_ex (\<lambda>re. re_Value re \<noteq> priorityValue \<and> re_Candidates re \<noteq> []
         \<and> re_Value re \<notin> roadTokens
         \<and> ev_Type (re_Evidence re) \<in> {EvidencePlaceName, EvidencePostalCode}) resolved"

definition prefers :: "gostring \<Rightarrow> entity \<Rightarrow> entity \<Rightarrow> bool" where
  "prefers cityType a b =
     (cityTypeOf (ent_Name a) \<noteq> cityTypeOf (ent_Name b) \<and> cityTypeOf (ent_Name a) = cityType)"

text \<open>The body of the loop, for the entry at index \<open>i\<close> of the slice it updates.\<close>

definition prioritise ::
  "service \<Rightarrow> gostring set \<Rightarrow> resolved_evidence list \<Rightarrow> nat \<Rightarrow> resolved_evidence list" where
  "prioritise svc roadTokens resolved i =
     (let re = resolved ! i in
      if \<not> is_place re then resolved
      else case map_of (cityPrioritySet svc) (re_Value re) of
        None \<Rightarrow> resolved
      | Some cityType \<Rightarrow>
          if hasOtherLocationEvidence resolved (re_Value re) roadTokens then resolved
          else resolved[i := re\<lparr>re_Candidates := stable_sort (prefers cityType)
                  (filter (\<lambda>c. ent_Level c = CITY) (re_Candidates re))\<rparr>])"

definition applyCityPriority ::
  "service \<Rightarrow> gostring set \<Rightarrow> resolved_evidence list \<Rightarrow> resolved_evidence list" where
  "applyCityPriority svc roadTokens resolved =
     (if cityPrioritySet svc = [] then resolved
      else foldl (prioritise svc roadTokens) resolved [0..<length resolved])"

section \<open>Names up to white space\<close>

definition level_ids_of :: "gostring \<Rightarrow> resolved_evidence list \<Rightarrow> int64 list" where
  "level_ids_of level resolved =
     [ent_ID e. re \<leftarrow> resolved, is_place re, e \<leftarrow> re_Candidates re, ent_Level e = level]"

definition hasHierarchyCompatibleExactSubdistrict :: "service \<Rightarrow> resolved_evidence list \<Rightarrow> bool" where
  "hasHierarchyCompatibleExactSubdistrict svc resolved =
     (case hierarchyCache svc of
        None \<Rightarrow> False
      | Some h \<Rightarrow>
          let districts = level_ids_of DISTRICT resolved;
              cities = level_ids_of CITY resolved;
              provinces = level_ids_of PROVINCE resolved
          in list_ex (\<lambda>subDistrictID.
               case SubDistrictToDist h subDistrictID of
                 None \<Rightarrow> False
               | Some districtID \<Rightarrow>
                   let cityID = get0 (DistrictToCity h) districtID;
                       provinceID = get0 (CityToProvince h) cityID
                   in (districts = [] \<or> districtID \<in> set districts)
                    \<and> (cities = [] \<or> cityID \<in> set cities)
                    \<and> (provinces = [] \<or> provinceID \<in> set provinces))
             (level_ids_of SUBDISTRICT resolved))"

definition add_respaced :: "word_entities \<Rightarrow> resolved_evidence \<Rightarrow> resolved_evidence" where
  "add_respaced compactEntities re =
     (if is_place re
      then re\<lparr>re_Candidates := appendUniqueEntities (re_Candidates re) (attached compactEntities (re_Value re))\<rparr>
      else re)"

text \<open>The result \<open>None\<close> is the nil slice of the error return.\<close>

definition ResolveEvidence ::
  "range_orders \<Rightarrow> int64 \<Rightarrow> evidence list \<Rightarrow> gostring \<Rightarrow> gostring \<Rightarrow> gostring set \<Rightarrow> service
     \<Rightarrow> resolved_evidence list option \<times> service" where
  "ResolveEvidence ro sourceID evidences normalizedText compactMatchText roadTokens svc =
     (case ensurePhraseDictLoaded ro svc of
        (Some err, svc) \<Rightarrow> (None, svc)
      | (None, svc) \<Rightarrow>
          let wordEntities = matchPhrases ro (phraseDict svc) sourceID normalizedText;
              resolved = map (resolve_one ro svc wordEntities) evidences;
              resolved = applyCityPriority svc roadTokens resolved
          in if hasHierarchyCompatibleExactSubdistrict svc resolved then (Some resolved, svc)
             else let (compactEntities, svc) = matchCompactPhrases ro sourceID compactMatchText svc
                  in (Some (map (add_respaced compactEntities) resolved), svc))"

section \<open>Laws\<close>

lemma cityTypeOf_cases: "cityTypeOf name = ''KOTA'' \<or> cityTypeOf name = ''KABUPATEN''"
  by (simp add: cityTypeOf_def)

lemma strict_weak_prefers: "strict_weak (prefers cityType)"
  unfolding strict_weak_def prefers_def by metis


text \<open>What one turn of the priority loop may do to an entry.\<close>

definition kept_or_cities :: "service \<Rightarrow> resolved_evidence \<Rightarrow> resolved_evidence \<Rightarrow> bool" where
  "kept_or_cities svc re re' \<longleftrightarrow> re_Evidence re' = re_Evidence re \<and>
     (re' = re \<or> is_place re \<and>
       (\<exists>cityType. map_of (cityPrioritySet svc) (re_Value re) = Some cityType
         \<and> mset (re_Candidates re') = mset (filter (\<lambda>c. ent_Level c = CITY) (re_Candidates re))
         \<and> sorted_wrt (\<lambda>a b. \<not> prefers cityType b a) (re_Candidates re')))"

lemma length_prioritise [simp]: "length (prioritise svc roads rs i) = length rs"
  by (simp add: prioritise_def Let_def split: option.split)

lemma prioritise_other [simp]: "i \<noteq> j \<Longrightarrow> prioritise svc roads rs i ! j = rs ! j"
  by (simp add: prioritise_def Let_def split: option.split)

lemma prioritise_at: "i < length rs \<Longrightarrow> kept_or_cities svc (rs ! i) (prioritise svc roads rs i ! i)"
  by (auto simp: prioritise_def Let_def kept_or_cities_def mset_stable_sort
      intro: stable_sort_sorted strict_weak_prefers split: option.split)

lemma foldl_prioritise_length [simp]: "length (foldl (prioritise svc roads) rs is') = length rs"
  by (induction is' arbitrary: rs) simp_all

lemma foldl_prioritise_other: "j \<notin> set is' \<Longrightarrow> foldl (prioritise svc roads) rs is' ! j = rs ! j"
  by (induction is' arbitrary: rs) auto

text \<open>Each index is visited once, so an entry changes in its own turn only.\<close>

lemma priority_turn:
  assumes "j < length rs"
  shows "foldl (prioritise svc roads) rs [0..<length rs] ! j
    = prioritise svc roads (foldl (prioritise svc roads) rs [0..<j]) j ! j"
proof -
  have "[0..<length rs] = [0..<j] @ j # [Suc j..<length rs]"
    using assms by (metis upt_conv_Cons upt_add_eq_append le0 less_imp_le le_add_diff_inverse)
  then show ?thesis by (simp add: foldl_prioritise_other)
qed

lemma priority_shape:
  "list_all2 (kept_or_cities svc) resolved (applyCityPriority svc roadTokens resolved)"
proof (cases "cityPrioritySet svc = []")
  case True
  then show ?thesis by (simp add: applyCityPriority_def list_all2_conv_all_nth kept_or_cities_def)
next
  case False
  have "kept_or_cities svc (resolved ! j) (foldl (prioritise svc roadTokens) resolved [0..<length resolved] ! j)"
    if "j < length resolved" for j
    using prioritise_at [of j "foldl (prioritise svc roadTokens) resolved [0..<j]" svc roadTokens] that
    by (simp add: priority_turn foldl_prioritise_other)
  with False show ?thesis by (simp add: applyCityPriority_def list_all2_conv_all_nth)
qed

text \<open>
  City priority keeps the number and the evidence of the entries; the candidates of an
  entry stay as they are or, for a place name of the priority set, become its cities, with
  those of the preferred type before the others.
\<close>

theorem applyCityPriority_shape:
  "list_all2 (kept_or_cities svc) resolved (applyCityPriority svc roadTokens resolved)"
  by (rule priority_shape)

text \<open>A place name or a postal code that resolved and does not follow a road prefix.\<close>

definition locates :: "gostring set \<Rightarrow> resolved_evidence \<Rightarrow> bool" where
  "locates roadTokens re \<longleftrightarrow> re_Candidates re \<noteq> [] \<and> re_Value re \<notin> roadTokens
     \<and> ev_Type (re_Evidence re) \<in> {EvidencePlaceName, EvidencePostalCode}"

lemma hasOther_locates:
  "hasOtherLocationEvidence rs v roads \<longleftrightarrow> (\<exists>re\<in>set rs. re_Value re \<noteq> v \<and> locates roads re)"
  by (auto simp: hasOtherLocationEvidence_def locates_def list_ex_iff)

text \<open>
  As soon as two pieces of evidence with different values locate the address, city
  priority changes nothing.
\<close>

theorem applyCityPriority_pinned:
  assumes "a \<in> set resolved" "b \<in> set resolved" "re_Value a \<noteq> re_Value b"
    and "locates roadTokens a" "locates roadTokens b"
  shows "applyCityPriority svc roadTokens resolved = resolved"
proof -
  have "hasOtherLocationEvidence resolved v roadTokens" for v
    using assms unfolding hasOther_locates by metis
  then have "prioritise svc roadTokens resolved i = resolved" for i
    by (simp add: prioritise_def Let_def split: option.split)
  then have "foldl (prioritise svc roadTokens) resolved js = resolved" for js
    by (induction js) simp_all
  then show ?thesis by (simp add: applyCityPriority_def)
qed

lemma locates_mono: "kept_or_cities svc re re' \<Longrightarrow> locates roads re' \<Longrightarrow> locates roads re \<and> re_Value re' = re_Value re"
  by (auto simp: kept_or_cities_def locates_def)

lemma hasOther_prioritise:
  assumes "i < length rs" and "hasOtherLocationEvidence (prioritise svc roads rs i) v roads"
  shows "hasOtherLocationEvidence rs v roads"
proof -
  from assms(2) obtain j where j: "j < length rs" "re_Value (prioritise svc roads rs i ! j) \<noteq> v"
      "locates roads (prioritise svc roads rs i ! j)"
    by (auto simp: hasOther_locates in_set_conv_nth)
  have "kept_or_cities svc (rs ! j) (prioritise svc roads rs i ! j)"
    using prioritise_at [OF assms(1)] by (cases "i = j") (simp_all add: kept_or_cities_def)
  from locates_mono [OF this j(3)] j show ?thesis
    unfolding hasOther_locates by (metis nth_mem)
qed

lemma hasOther_foldl:
  "list_all (\<lambda>i. i < length rs) js \<Longrightarrow> hasOtherLocationEvidence (foldl (prioritise svc roads) rs js) v roads
     \<Longrightarrow> hasOtherLocationEvidence rs v roads"
proof (induction js arbitrary: rs)
  case (Cons j js)
  from Cons.prems have "j < length rs" and "list_all (\<lambda>i. i < length (prioritise svc roads rs j)) js" by simp_all
  moreover have "hasOtherLocationEvidence (foldl (prioritise svc roads) (prioritise svc roads rs j) js) v roads"
    using Cons.prems(2) by (simp only: foldl_Cons)
  ultimately show ?case by (blast intro: hasOther_prioritise Cons.IH)
qed simp


definition demo_priority :: service where
  "demo_priority = (new_service 500 ''x'' True)\<lparr>cityPrioritySet := [(''bandung'', ''KOTA'')]\<rparr>"

definition demo_names :: "entity list" where
  "demo_names = [\<lparr>ent_ID = 1, ent_Name = ''Bandung'', ent_Level = SUBDISTRICT, ent_PostalCode = []\<rparr>,
     \<lparr>ent_ID = 2, ent_Name = ''Kabupaten Bandung'', ent_Level = CITY, ent_PostalCode = []\<rparr>,
     \<lparr>ent_ID = 3, ent_Name = ''Kota Bandung'', ent_Level = CITY, ent_PostalCode = []\<rparr>]"

definition place :: "gostring \<Rightarrow> entity list \<Rightarrow> resolved_evidence" where
  "place v es = \<lparr>re_Evidence = \<lparr>ev_Type = EvidencePlaceName, ev_Value = v\<rparr>, re_Candidates = es\<rparr>"


theorem applyCityPriority_pinned_witness:
  "applyCityPriority demo_priority {} [place ''bandung'' demo_names, place ''cibiru'' demo_names]
     = [place ''bandung'' demo_names, place ''cibiru'' demo_names]"
  using applyCityPriority_pinned [of "place ''bandung'' demo_names"
      "[place ''bandung'' demo_names, place ''cibiru'' demo_names]" "place ''cibiru'' demo_names" "{}" demo_priority]
  by (simp add: locates_def place_def demo_names_def)

section \<open>What resolution returns\<close>

text \<open>The compact dictionary, once there is one, is that of the current dictionary.\<close>

definition dicts_agree :: "service \<Rightarrow> bool" where
  "dicts_agree svc \<longleftrightarrow> phraseDictErr svc = None \<and> compact_ok svc"

lemma dicts_agree_new: "dicts_agree (new_service n code store)"
  by (simp add: dicts_agree_def compact_ok_def new_service_def)

lemma dicts_agree_loads:
  "dicts_agree s \<Longrightarrow> dicts_agree (snd (ensureProvincesLoaded repo s))"
  "dicts_agree s \<Longrightarrow> dicts_agree (snd (ensureCitiesLoaded repo s))"
  "dicts_agree s \<Longrightarrow> dicts_agree (snd (ensureDistrictsLoaded repo sid s))"
  "dicts_agree s \<Longrightarrow> dicts_agree (snd (ensureSubDistrictsLoaded repo sid s))"
  "dicts_agree s \<Longrightarrow> dicts_agree (snd (ensureHierarchyLoaded repo sid s))"
  "dicts_agree s \<Longrightarrow> dicts_agree (snd (ensureCityPriorityLoaded repo sid s))"
  by (simp_all add: ensure_defs Let_def dicts_agree_def compact_ok_def split: sum.split)

lemma dicts_agree_caches:
  "dicts_agree s \<Longrightarrow> dicts_agree (snd (ensureEntitiesCachesLoaded repo sid s))"
  unfolding ensureEntitiesCachesLoaded_def
  by (intro and_then_invariant [where P = dicts_agree] dicts_agree_loads)

lemma dicts_agree_phrases:
  "is_range_orders ro \<Longrightarrow> dicts_agree s \<Longrightarrow> dicts_agree (snd (ensurePhraseDictLoaded ro s))"
  using compact_ok_loaded [of ro "s\<lparr>phraseDictOnce := True\<rparr>"]
  by (auto simp: dicts_agree_def ensurePhraseDictLoaded_def Let_def) (simp add: loadPhraseDict_def Let_def)

lemma dicts_agree_compact:
  "is_range_orders ro \<Longrightarrow> dicts_agree s \<Longrightarrow> dicts_agree (snd (matchCompactPhrases ro sid text s))"
  using compact_ok_kept [of ro s sid "text"] by (simp add: dicts_agree_def) (simp add: matchCompactPhrases_def Let_def)

lemma ensurePhraseDictLoaded_None:
  "phraseDictErr s = None \<Longrightarrow> fst (ensurePhraseDictLoaded ro s) = None"
  by (simp add: ensurePhraseDictLoaded_def loadPhraseDict_def Let_def)

text \<open>The list that city priority returns, before the compact pass.\<close>

definition literal_pass ::
  "range_orders \<Rightarrow> int64 \<Rightarrow> evidence list \<Rightarrow> gostring \<Rightarrow> gostring set \<Rightarrow> service \<Rightarrow> resolved_evidence list" where
  "literal_pass ro sid evs text roads s =
     applyCityPriority s roads (map (resolve_one ro s (matchPhrases ro (phraseDict s) sid text)) evs)"

lemma ResolveEvidence_cases:
  assumes "phraseDictErr svc = None"
  obtains s where "s = snd (ensurePhraseDictLoaded ro svc)"
    and "ResolveEvidence ro sid evs text ctext roads svc =
      (if hasHierarchyCompatibleExactSubdistrict s (literal_pass ro sid evs text roads s)
       then (Some (literal_pass ro sid evs text roads s), s)
       else (Some (map (add_respaced (fst (matchCompactPhrases ro sid ctext s))) (literal_pass ro sid evs text roads s)),
             snd (matchCompactPhrases ro sid ctext s)))"
proof -
  obtain s where "ensurePhraseDictLoaded ro svc = (None, s)"
    using ensurePhraseDictLoaded_None [OF assms] by (metis prod.collapse)
  then show ?thesis
    by (intro that [of s]) (simp_all add: ResolveEvidence_def literal_pass_def Let_def split_beta)
qed

lemma kept_subset: "kept_or_cities s re re' \<Longrightarrow> set (re_Candidates re') \<subseteq> set (re_Candidates re)"
  by (auto simp: kept_or_cities_def simp del: mset_filter dest!: mset_eq_setD)

lemma distinct_mset_eq: "mset xs = mset ys \<Longrightarrow> distinct (map f ys) \<Longrightarrow> distinct (map f xs)"
  by (metis mset_eq_imp_distinct_iff mset_map)

lemma kept_distinct:
  "kept_or_cities s re re' \<Longrightarrow> distinct (map ent_ID (re_Candidates re)) \<Longrightarrow> distinct (map ent_ID (re_Candidates re'))"
  by (auto simp: kept_or_cities_def simp del: mset_filter intro: distinct_mset_eq distinct_map_filter)

lemma literal_pass_all2:
  "list_all2 (\<lambda>ev. kept_or_cities s (resolve_one ro s (matchPhrases ro (phraseDict s) sid text) ev))
     evs (literal_pass ro sid evs text roads s)"
  using priority_shape [of s "map (resolve_one ro s (matchPhrases ro (phraseDict s) sid text)) evs" roads]
  by (simp add: literal_pass_def list_all2_map1)

lemma resolve_one_sel [simp]: "re_Evidence (resolve_one ro s m ev) = ev"
  by (simp add: resolve_one_def)

lemma literal_pass_evidence: "map re_Evidence (literal_pass ro sid evs text roads s) = evs"
  using literal_pass_all2 [of s ro sid "text" evs roads]
  by (induction rule: list_all2_induct) (auto simp: kept_or_cities_def)

text \<open>
  What a word \<open>w\<close> of the two texts may denote: an entity the dictionary has under a run of
  words around it, or one it has under a name that differs from such a run in white space only.
\<close>

definition denoted :: "range_orders \<Rightarrow> phrase_dict \<Rightarrow> int64 \<Rightarrow> gostring \<Rightarrow> gostring \<Rightarrow> gostring \<Rightarrow> entity set" where
  "denoted ro dict sid text ctext w =
     {e. \<exists>p. sublist p (strings_Fields text) \<and> brings ro dict sid p w e}
     \<union> {e. \<exists>p. sublist p (strings_Fields ctext) \<and> respaced dict sid p w e}"

definition resolved_well ::
  "range_orders \<Rightarrow> int64 \<Rightarrow> gostring \<Rightarrow> gostring \<Rightarrow> service \<Rightarrow> resolved_evidence \<Rightarrow> bool" where
  "resolved_well ro sid text ctext s re \<longleftrightarrow>
     (case ev_Type (re_Evidence re) of
        EvidencePlaceName \<Rightarrow> distinct (map ent_ID (re_Candidates re))
          \<and> set (re_Candidates re) \<subseteq> denoted ro (phraseDict s) sid text ctext (re_Value re)
      | EvidencePostalCode \<Rightarrow> set (re_Candidates re) =
          sub_district_entity ` {e \<in> \<Union> (set ` snd ` set (subDistrictCache s)). se_PostalCode e = re_Value re}
      | EvidenceRoadName \<Rightarrow> re_Candidates re = [])"

lemma resolve_one_well:
  assumes "is_range_orders ro"
  shows "resolved_well ro sid text ctext s (resolve_one ro s (matchPhrases ro (phraseDict s) sid text) ev)"
proof (cases "ev_Type ev")
  case EvidencePlaceName
  have "set (attached (matchPhrases ro (phraseDict s) sid text) (ev_Value ev))
      \<subseteq> denoted ro (phraseDict s) sid text ctext (ev_Value ev)"
    using match_loop_sound [of ro "phraseDict s" sid "strings_Fields text" Map.empty "ev_Value ev"]
    by (auto simp: matchPhrases_def denoted_def)
  moreover have "re_Candidates (resolve_one ro s (matchPhrases ro (phraseDict s) sid text) ev)
      = dedup_by ent_ID {} (attached (matchPhrases ro (phraseDict s) sid text) (ev_Value ev))"
    by (simp add: resolve_one_def EvidencePlaceName resolvePlaceNameEntity_def attached_def split: option.split)
  ultimately show ?thesis
    using subset_trans [OF dedup_by_subset [of ent_ID "{}"]]
    by (simp add: resolved_well_def EvidencePlaceName dedup_by_distinct)
next
  case EvidencePostalCode
  have "set (ro_subDistricts ro (subDistrictCache s)) = set (subDistrictCache s)"
    using assms by (simp add: is_range_orders_def is_order_set)
  then show ?thesis
    by (simp add: resolved_well_def EvidencePostalCode resolve_one_def resolvePostalCodeEntity_def) force
next
  case EvidenceRoadName
  then show ?thesis by (simp add: resolved_well_def resolve_one_def resolveRoadNameEntity_def)
qed

lemma resolved_well_kept:
  assumes "kept_or_cities s re re'" "resolved_well ro sid text ctext s re"
  shows "resolved_well ro sid text ctext s re'"
proof (cases "is_place re")
  case True
  then show ?thesis
    using assms kept_subset [OF assms(1)] kept_distinct [OF assms(1)]
    by (auto simp: resolved_well_def kept_or_cities_def)
next
  case False
  with assms show ?thesis by (auto simp: kept_or_cities_def)
qed

lemma resolved_well_respaced:
  assumes "is_range_orders ro" "dicts_agree s" "resolved_well ro sid text ctext s re"
  shows "resolved_well ro sid text ctext s (add_respaced (fst (matchCompactPhrases ro sid ctext s)) re)"
proof (cases "is_place re")
  case True
  have "set (attached (fst (matchCompactPhrases ro sid ctext s)) (re_Value re))
      \<subseteq> denoted ro (phraseDict s) sid text ctext (re_Value re)"
    using compact_ok_loop [OF assms(1), of s sid ctext "re_Value re"] assms(2)
    by (auto simp: dicts_agree_def denoted_def)
  with True assms(3) show ?thesis
    using appendUniqueEntities_set
    by (fastforce simp: resolved_well_def add_respaced_def appendUniqueEntities_distinct)
next
  case False
  with assms(3) show ?thesis by (simp add: add_respaced_def)
qed

lemma matchCompact_frame [simp]:
  "phraseDict (snd (matchCompactPhrases ro sid ctext s)) = phraseDict s"
  "subDistrictCache (snd (matchCompactPhrases ro sid ctext s)) = subDistrictCache s"
  by (simp_all add: matchCompactPhrases_def Let_def)

lemma resolved_well_compact:
  "resolved_well ro sid text ctext (snd (matchCompactPhrases ro sid ctext' s)) = resolved_well ro sid text ctext s"
  unfolding resolved_well_def [abs_def] matchCompact_frame by (rule refl)


text \<open>A service whose dictionary was loaded, for the instance below.\<close>

definition demo_loaded :: service where
  "demo_loaded = (new_service 500 ''x'' True)\<lparr>phraseDict := demo_dict, phraseDictOnce := True\<rparr>"


end
