(* ===== verification/Fuzzy_Context.thy ===== *)
theory Fuzzy_Context
  imports Edit_Distance Candidates Resolve
begin

text \<open>
  Contextual recovery, \<open>internal/service/fuzzy_context.go\<close>: the candidates that explain
  enough of the input name a neighbourhood of locations, and runs of words that nothing explains
  are compared with the names of that neighbourhood.
\<close>

section \<open>Coverage\<close>

definition fuzzyMaxSpanTokens :: nat where "fuzzyMaxSpanTokens = 4"
definition fuzzyMinFrontierSupport :: nat where "fuzzyMinFrontierSupport = 2"
definition fuzzyFrontierCoverageGap :: float64 where "fuzzyFrontierCoverageGap = rnd (5 / 100)"
definition fuzzyMinFrontierCoverage :: float64 where "fuzzyMinFrontierCoverage = rnd (5 / 10)"
definition fuzzyMinTargetKeyLen :: nat where "fuzzyMinTargetKeyLen = 4"

definition fuzzyStopwords :: "gostring set" where
  "fuzzyStopwords = {''no'', ''rt'', ''rw'', ''km''}"

record candidate_coverage =
  cc_Candidate :: admin_candidate
  cc_UsedEvidence :: "evidence list"
  cc_UnusedEvidence :: "evidence list"
  cc_Coverage :: float64

definition isDigitOnly :: "gostring \<Rightarrow> bool" where
  "isDigitOnly s \<longleftrightarrow> s \<noteq> [] \<and> list_all is_digit s"

definition structural :: "gostring set \<Rightarrow> gostring \<Rightarrow> bool" where
  "structural roadTokens w \<longleftrightarrow> w \<in> roadTokens \<or> w \<in> fuzzyStopwords \<or> isDigitOnly w"

definition evaluateCandidateCoverage ::
  "admin_candidate \<Rightarrow> evidence list \<Rightarrow> gostring set \<Rightarrow> candidate_coverage" where
  "evaluateCandidateCoverage candidate allEvidence roadTokens =
     (let usedValues = me_Value ` set (Evidence candidate);
          counted = filter (\<lambda>ev. \<not> structural roadTokens (ev_Value ev)) allEvidence;
          used = filter (\<lambda>ev. ev_Value ev \<in> usedValues) counted;
          unused = filter (\<lambda>ev. ev_Value ev \<notin> usedValues) counted;
          total = length used + length unused
      in \<lparr>cc_Candidate = candidate, cc_UsedEvidence = used, cc_UnusedEvidence = unused,
          cc_Coverage = (if total > 0
             then fdiv (float_of_int (int (length used))) (float_of_int (int total)) else 0)\<rparr>)"

definition best_coverage :: "candidate_coverage list \<Rightarrow> float64" where
  "best_coverage coverages = foldl (\<lambda>best c. if best < cc_Coverage c then cc_Coverage c else best) 0 coverages"

definition selectExpansionFrontier :: "candidate_coverage list \<Rightarrow> candidate_coverage list" where
  "selectExpansionFrontier coverages =
     (let best = best_coverage coverages in
      if best < fuzzyMinFrontierCoverage then []
      else filter (\<lambda>c. fuzzyMinFrontierSupport \<le> length (cc_UsedEvidence c)
              \<and> fsub best fuzzyFrontierCoverageGap \<le> cc_Coverage c) coverages)"

section \<open>The neighbourhood of a candidate\<close>

text \<open>The indexes from a parent to its children, one loop per level.\<close>

definition add_child ::
  "(int64 \<rightharpoonup> int64) \<Rightarrow> (int64 \<Rightarrow> 'e list) \<Rightarrow> int64 \<times> 'e \<Rightarrow> (int64 \<Rightarrow> 'e list)" where
  "add_child parent m p =
     (case parent (fst p) of None \<Rightarrow> m | Some pid \<Rightarrow> m(pid := m pid @ [snd p]))"

definition loadChildrenIndexes :: "range_orders \<Rightarrow> service \<Rightarrow> service" where
  "loadChildrenIndexes ro svc =
     (case hierarchyCache svc of
        None \<Rightarrow> svc\<lparr>citiesByProvince := \<lambda>_. [], districtsByCity := \<lambda>_. [], subDistrictsByDistrict := \<lambda>_. []\<rparr>
      | Some h \<Rightarrow> svc\<lparr>
          citiesByProvince := foldl (add_child (CityToProvince h)) (\<lambda>_. []) (ro_cityByID ro (cityByID svc)),
          districtsByCity := foldl (add_child (DistrictToCity h)) (\<lambda>_. []) (ro_districtByID ro (districtByID svc)),
          subDistrictsByDistrict :=
            foldl (add_child (SubDistrictToDist h)) (\<lambda>_. []) (ro_subDistrictByID ro (subDistrictByID svc))\<rparr>)"

definition ensureChildrenIndexesLoaded :: "range_orders \<Rightarrow> service \<Rightarrow> service" where
  "ensureChildrenIndexesLoaded ro svc =
     (if childrenOnce svc then svc else loadChildrenIndexes ro (svc\<lparr>childrenOnce := True\<rparr>))"

text \<open>The closure \<open>add\<close>: the identifier 0 and known identifiers are passed over.\<close>

definition add_entity :: "entity list \<Rightarrow> entity \<Rightarrow> entity list" where
  "add_entity out e = (if ent_ID e = 0 \<or> ent_ID e \<in> ent_ID ` set out then out else out @ [e])"

definition ancestors :: "admin_location \<Rightarrow> entity list" where
  "ancestors loc =
     (case Province loc of None \<Rightarrow> [] | Some p \<Rightarrow>
        [\<lparr>ent_ID = p_ID p, ent_Name = p_Name p, ent_Level = PROVINCE, ent_PostalCode = []\<rparr>])
   @ (case City loc of None \<Rightarrow> [] | Some c \<Rightarrow>
        [\<lparr>ent_ID = ct_ID c, ent_Name = ct_Name c, ent_Level = CITY, ent_PostalCode = ct_PostalCode c\<rparr>])
   @ (case District loc of None \<Rightarrow> [] | Some d \<Rightarrow>
        [\<lparr>ent_ID = d_ID d, ent_Name = d_Name d, ent_Level = DISTRICT, ent_PostalCode = []\<rparr>])
   @ (case SubDistrict loc of None \<Rightarrow> [] | Some s \<Rightarrow>
        [\<lparr>ent_ID = s_ID s, ent_Name = s_Name s, ent_Level = SUBDISTRICT, ent_PostalCode = s_PostalCode s\<rparr>])"

definition children :: "service \<Rightarrow> admin_location \<Rightarrow> entity list" where
  "children svc loc =
     (if SubDistrict loc \<noteq> None then []
      else case District loc of
        Some d \<Rightarrow> map sub_district_entity (subDistrictsByDistrict svc (d_ID d))
      | None \<Rightarrow> (case City loc of
          Some c \<Rightarrow> map district_entity (districtsByCity svc (ct_ID c))
        | None \<Rightarrow> (case Province loc of
            Some p \<Rightarrow> map city_entity (citiesByProvince svc (p_ID p))
          | None \<Rightarrow> [])))"

definition candidateNeighborhood ::
  "range_orders \<Rightarrow> admin_candidate \<Rightarrow> service \<Rightarrow> entity list \<times> service" where
  "candidateNeighborhood ro c svc =
     (if hierarchyCache svc = None then ([], svc)
      else let svc = ensureChildrenIndexesLoaded ro svc
           in (foldl add_entity [] (ancestors (Location c) @ children svc (Location c)), svc))"

section \<open>Match targets\<close>

definition add_target :: "entity \<Rightarrow> (gostring \<times> entity list) list \<Rightarrow> gostring \<Rightarrow> (gostring \<times> entity list) list" where
  "add_target e targets k =
     (if length k < fuzzyMinTargetKeyLen then targets else map_append k e targets)"

definition target_keys :: "entity \<Rightarrow> gostring list" where
  "target_keys e =
     (let norm = to_lower (ent_Name e) in compactSpaces norm # map compactSpaces (strings_Fields norm))"

definition buildMatchTargets :: "entity list \<Rightarrow> (gostring \<times> entity list) list" where
  "buildMatchTargets entities = foldl (\<lambda>targets e. foldl (add_target e) targets (target_keys e)) [] entities"

text \<open>The best matches of a span; the empty list is the nil result.\<close>

definition bestSpanMatch ::
  "range_orders \<Rightarrow> gostring \<Rightarrow> (gostring \<times> entity list) list \<Rightarrow> entity list \<times> float64" where
  "bestSpanMatch ro spanKey targets =
     (if length spanKey < fuzzyMinTargetKeyLen then ([], 0)
      else let best = foldl (\<lambda>best (k, _).
                 let s = damerauSimilarity spanKey k in if best < s then s else best) 0 (ro_targets ro targets)
           in if best < fuzzyMatchThreshold then ([], 0)
              else (dedup_by ent_ID {} (concat (map snd
                      (filter (\<lambda>(k, _). \<not> damerauSimilarity spanKey k < best) (ro_targets ro targets)))), best))"

section \<open>Runs of unexplained words\<close>

fun runs_from ::
  "(gostring \<Rightarrow> bool) \<Rightarrow> gostring list \<Rightarrow> nat \<Rightarrow> nat list \<Rightarrow> nat list list \<Rightarrow> nat list list" where
  "runs_from skip [] i cur runs = (if cur \<noteq> [] then runs @ [cur] else runs)"
| "runs_from skip (w # ws) i cur runs =
     (if skip w then runs_from skip ws (Suc i) [] (if cur \<noteq> [] then runs @ [cur] else runs)
      else runs_from skip ws (Suc i) (cur @ [i]) runs)"

definition unexplainedRuns :: "gostring list \<Rightarrow> gostring set \<Rightarrow> gostring set \<Rightarrow> nat list list" where
  "unexplainedRuns ws explained roadTokens =
     runs_from (\<lambda>w. w \<in> explained \<or> structural roadTokens w) ws 0 [] []"

section \<open>Recovery\<close>

record recovery =
  rc_known :: "int64 set"
  rc_recovered :: "resolved_evidence list"
  rc_corrections :: "(gostring \<times> gostring) list"
  rc_explained :: "gostring set"

text \<open>The loop over the span lengths: the longest span at \<open>first\<close> that matches.\<close>

fun span_match ::
  "range_orders \<Rightarrow> (gostring \<times> entity list) list \<Rightarrow> gostring list \<Rightarrow> nat \<Rightarrow> nat \<Rightarrow> (nat \<times> entity list) option" where
  "span_match ro targets ws first 0 = None"
| "span_match ro targets ws first (Suc n) =
     (let spanText = join [space] (take (Suc n) (drop first ws));
          ents = fst (bestSpanMatch ro (compactSpaces (to_lower spanText)) targets)
      in if ents = [] then span_match ro targets ws first n else Some (Suc n, ents))"

definition recover_span :: "gostring list \<Rightarrow> entity list \<Rightarrow> recovery \<Rightarrow> recovery" where
  "recover_span words ents st =
     (let spanText = join [space] words;
          fresh = dedup_by ent_ID (rc_known st) ents;
          st = st\<lparr>rc_known := rc_known st \<union> ent_ID ` set fresh, rc_explained := rc_explained st \<union> set words\<rparr>
      in case fresh of
           [] \<Rightarrow> st
         | e # _ \<Rightarrow> st\<lparr>
             rc_recovered := rc_recovered st @ [\<lparr>re_Evidence = \<lparr>ev_Type = EvidencePlaceName, ev_Value = spanText\<rparr>,
                 re_Candidates = fresh\<rparr>],
             rc_corrections := AList.update spanText (ent_Name e) (rc_corrections st)\<rparr>)"

lemma span_match_bounds: "span_match ro targets ws i n = Some (k, es) \<Longrightarrow> 0 < k \<and> k \<le> n"
  by (induction n) (auto simp: Let_def split: if_splits)

text \<open>One run; the argument is what is left of it.\<close>

function recover_run ::
  "range_orders \<Rightarrow> (gostring \<times> entity list) list \<Rightarrow> gostring list \<Rightarrow> nat list \<Rightarrow> recovery \<Rightarrow> recovery" where
  "recover_run ro targets ws [] st = st"
| "recover_run ro targets ws (i # run) st =
     (case span_match ro targets ws i (min fuzzyMaxSpanTokens (length (i # run))) of
        None \<Rightarrow> recover_run ro targets ws run st
      | Some (n, ents) \<Rightarrow>
          recover_run ro targets ws (drop n (i # run)) (recover_span (take n (drop i ws)) ents st))"
  by pat_completeness auto

termination recover_run
  by (relation "measure (\<lambda>(ro, targets, ws, run, st). length run)")
    (auto simp del: span_match.simps dest!: span_match_bounds)

definition resolvedEvidenceToEvidence :: "resolved_evidence list \<Rightarrow> evidence list" where
  "resolvedEvidenceToEvidence resolved = map re_Evidence resolved"

definition frontier_of ::
  "admin_candidate list \<Rightarrow> resolved_evidence list \<Rightarrow> gostring set \<Rightarrow> candidate_coverage list" where
  "frontier_of candidates resolved roadTokens =
     selectExpansionFrontier (map (\<lambda>c.
       evaluateCandidateCoverage c (resolvedEvidenceToEvidence resolved) roadTokens) candidates)"

definition frontier_entities ::
  "range_orders \<Rightarrow> candidate_coverage list \<Rightarrow> service \<Rightarrow> entity list \<times> service" where
  "frontier_entities ro frontier svc =
     foldl (\<lambda>(entities, svc) fc.
        let (es, svc) = candidateNeighborhood ro (cc_Candidate fc) svc
        in (appendUniqueEntities entities es, svc)) ([], svc) frontier"

definition known_entities :: "resolved_evidence list \<Rightarrow> int64 set" where
  "known_entities resolved = \<Union> ((\<lambda>re. ent_ID ` set (re_Candidates re)) `
     {re \<in> set resolved. ev_Type (re_Evidence re) \<noteq> EvidencePostalCode})"

definition RecoverContextualEvidence ::
  "range_orders \<Rightarrow> admin_candidate list \<Rightarrow> resolved_evidence list \<Rightarrow> gostring \<Rightarrow> gostring set \<Rightarrow> service
     \<Rightarrow> (resolved_evidence list \<times> (gostring \<times> gostring) list \<times> gostring set) \<times> service" where
  "RecoverContextualEvidence ro candidates resolved normalized roadTokens svc =
     (let frontier = frontier_of candidates resolved roadTokens in
      if frontier = [] then (([], [], {}), svc)
      else let (entities, svc) = frontier_entities ro frontier svc;
               targets = buildMatchTargets entities;
               explained = \<Union> ((\<lambda>fc. ev_Value ` set (cc_UsedEvidence fc)) ` set frontier);
               ws = strings_Fields normalized;
               st = foldl (\<lambda>st run. recover_run ro targets ws run st)
                      \<lparr>rc_known = known_entities resolved, rc_recovered = [], rc_corrections = [], rc_explained = {}\<rparr>
                      (unexplainedRuns ws explained roadTokens)
           in if rc_recovered st = [] then (([], [], {}), svc)
              else ((rc_recovered st, rc_corrections st, rc_explained st), svc))"


section \<open>Runs\<close>

text \<open>The indices from \<open>i\<close> on whose words are not skipped.\<close>

definition unskipped :: "(gostring \<Rightarrow> bool) \<Rightarrow> gostring list \<Rightarrow> nat \<Rightarrow> nat list" where
  "unskipped skip ws i = map fst (filter (\<lambda>(_, w). \<not> skip w) (zip [i..<i + length ws] ws))"

lemma unskipped_simps [simp]:
  "unskipped skip [] i = []"
  "unskipped skip (w # ws) i = (if skip w then unskipped skip ws (Suc i) else i # unskipped skip ws (Suc i))"
  by (simp_all add: unskipped_def upt_conv_Cons del: upt_Suc)

text \<open>A run is a block of consecutive indices, and two neighbouring runs do not touch.\<close>

definition block :: "nat list \<Rightarrow> bool" where
  "block r \<longleftrightarrow> r \<noteq> [] \<and> r = [hd r..<hd r + length r]"

definition apart :: "nat list \<Rightarrow> nat list \<Rightarrow> bool" where
  "apart r r' \<longleftrightarrow> hd r + length r < hd r'"

lemma block_snoc: "block cur \<Longrightarrow> block (cur @ [hd cur + length cur])"
  unfolding block_def by (metis append_is_Nil_conv hd_append2 le_add1 length_append_singleton add_Suc_right upt_Suc_append)

lemma runs_from_concat:
  "concat (runs_from skip ws i cur runs) = concat runs @ cur @ unskipped skip ws i"
  by (induction skip ws i cur runs rule: runs_from.induct) auto

lemma runs_from_blocks:
  assumes "list_all block runs" and "sorted_wrt apart runs"
    and "cur = [] \<or> block cur \<and> hd cur + length cur = i"
    and "list_all (\<lambda>r. hd r + length r < (if cur = [] then i else hd cur)) runs"
  shows "list_all block (runs_from skip ws i cur runs) \<and> sorted_wrt apart (runs_from skip ws i cur runs)"
  using assms
proof (induction skip ws i cur runs rule: runs_from.induct)
  case (1 skip i cur runs)
  then show ?case by (auto simp: sorted_wrt_append apart_def list_all_iff)
next
  case (2 skip w ws i cur runs)
  show ?case
  proof (cases "skip w")
    case True
    have "list_all block (if cur \<noteq> [] then runs @ [cur] else runs)"
      "sorted_wrt apart (if cur \<noteq> [] then runs @ [cur] else runs)"
      "list_all (\<lambda>r. hd r + length r < Suc i) (if cur \<noteq> [] then runs @ [cur] else runs)"
      using "2.prems" by (auto simp: sorted_wrt_append apart_def [abs_def] list_all_iff block_def)
    with "2.IH"(1) [OF True] True show ?thesis by simp
  next
    case False
    have "block (cur @ [i])" and "hd (cur @ [i]) + length (cur @ [i]) = Suc i"
      using "2.prems"(3) block_snoc [of cur] by (auto simp: block_def)
    moreover have "list_all (\<lambda>r. hd r + length r < hd (cur @ [i])) runs"
      using "2.prems"(4) by (cases cur) (auto simp: list_all_iff)
    ultimately show ?thesis using "2.IH"(2) [OF False] "2.prems"(1,2) False by simp
  qed
qed

text \<open>
  C37. The runs are exactly the indices of the words that are neither explained nor structural,
  in order, cut into maximal blocks of consecutive indices.
\<close>

theorem unexplainedRuns_maximal:
  "concat (unexplainedRuns ws explained roads)
     = unskipped (\<lambda>w. w \<in> explained \<or> structural roads w) ws 0
   \<and> list_all block (unexplainedRuns ws explained roads)
   \<and> sorted_wrt apart (unexplainedRuns ws explained roads)"
  unfolding unexplainedRuns_def
  using runs_from_blocks [of "[]" "[]" 0 "\<lambda>w. w \<in> explained \<or> structural roads w" ws]
  by (simp add: runs_from_concat)

section \<open>The best match\<close>

definition best_of :: "('k \<times> 'v) list \<Rightarrow> ('k \<Rightarrow> float64) \<Rightarrow> float64 \<Rightarrow> float64" where
  "best_of kvs f b = foldl (\<lambda>best (k, _). let s = f k in if best < s then s else best) b kvs"

lemma best_of_ge: "b \<le> best_of kvs f b"
proof (induction kvs arbitrary: b)
  case (Cons kv kvs)
  show ?case using Cons [of b] Cons [of "f (fst kv)"] by (auto simp: best_of_def split_beta Let_def)
qed (simp add: best_of_def)

lemma best_of_upper: "k \<in> fst ` set kvs \<Longrightarrow> f k \<le> best_of kvs f b"
proof (induction kvs arbitrary: b)
  case (Cons kv kvs)
  show ?case
    using Cons best_of_ge [of "max b (f (fst kv))" kvs f]
    by (auto simp: best_of_def split_beta Let_def max_def split: if_splits)
qed simp

lemma best_of_in: "best_of kvs f b = b \<or> best_of kvs f b \<in> f ` fst ` set kvs"
proof (induction kvs arbitrary: b)
  case (Cons kv kvs)
  show ?case using Cons [of b] Cons [of "f (fst kv)"]
    by (auto simp: best_of_def split_beta Let_def)
qed (simp add: best_of_def)

lemma threshold_positive: "0 < fuzzyMatchThreshold"
proof -
  have "rnd (1 / 2) \<le> fuzzyMatchThreshold" unfolding fuzzyMatchThreshold_def by (intro rnd_mono) simp_all
  moreover have "rnd (1 / 2) = 1 / 2" by (code_simp)
  ultimately show ?thesis by linarith
qed

text \<open>The names that a span may stand for, and those among them that are nearest to it.\<close>

definition close_keys :: "gostring \<Rightarrow> (gostring \<times> entity list) list \<Rightarrow> gostring set" where
  "close_keys s targets = {k \<in> fst ` set targets.
     5 * damerauLevenshtein s k \<le> max (length s) (length k)
     \<and> (\<forall>k'\<in>fst ` set targets. ratio s k \<le> ratio s k')}"

definition close_entities :: "gostring \<Rightarrow> (gostring \<times> entity list) list \<Rightarrow> entity set" where
  "close_entities s targets =
     (if length s < fuzzyMinTargetKeyLen then {}
      else {e. \<exists>k es. (k, es) \<in> set targets \<and> k \<in> close_keys s targets \<and> e \<in> set es})"

definition short_keys :: "(gostring \<times> 'v) list \<Rightarrow> bool" where
  "short_keys targets \<longleftrightarrow> list_all (\<lambda>(k, _). length k \<le> 2 ^ 20) targets"

lemma bestSpanMatch_unfold:
  "bestSpanMatch ro s targets =
     (if length s < fuzzyMinTargetKeyLen then ([], 0)
      else let best = best_of (ro_targets ro targets) (damerauSimilarity s) 0
           in if best < fuzzyMatchThreshold then ([], 0)
              else (dedup_by ent_ID {} (concat (map snd
                 (filter (\<lambda>(k, _). \<not> damerauSimilarity s k < best) (ro_targets ro targets)))), best))"
  by (simp only: bestSpanMatch_def best_of_def)

lemma close_key_iff:
  assumes set: "set kvs = set targets" and s: "length s \<le> 2 ^ 20" "short_keys targets"
    and k: "k \<in> fst ` set targets" and B: "B = best_of kvs (damerauSimilarity s) 0"
  shows "k \<in> close_keys s targets \<longleftrightarrow> fuzzyMatchThreshold \<le> B \<and> \<not> damerauSimilarity s k < B"
proof -
  have len: "longest s k' \<le> 2 ^ 20" if "k' \<in> fst ` set targets" for k'
    using s that by (auto simp: longest_def short_keys_def list_all_iff)
  have up: "damerauSimilarity s k' \<le> B" if "k' \<in> fst ` set targets" for k'
    unfolding B using that set by (intro best_of_upper) simp
  have near: "(\<forall>k'\<in>fst ` set targets. ratio s k \<le> ratio s k')
      \<longleftrightarrow> (\<forall>k'\<in>fst ` set targets. \<not> damerauSimilarity s k < damerauSimilarity s k')"
    using similarity_less_iff [OF len [OF k] len] by (auto simp: not_less)
  have thr: "5 * damerauLevenshtein s k \<le> max (length s) (length k) \<longleftrightarrow> fuzzyMatchThreshold \<le> damerauSimilarity s k"
    using similarity_le_iff [OF len [OF k]] by simp
  have B_in: "B \<in> damerauSimilarity s ` fst ` set targets" if "fuzzyMatchThreshold \<le> B"
    using best_of_in [of kvs "damerauSimilarity s" 0] that threshold_positive unfolding B set by auto
  show ?thesis
  proof
    assume "k \<in> close_keys s targets"
    then have a: "fuzzyMatchThreshold \<le> damerauSimilarity s k"
      and b: "\<forall>k'\<in>fst ` set targets. \<not> damerauSimilarity s k < damerauSimilarity s k'"
      unfolding close_keys_def using near thr by auto
    have "fuzzyMatchThreshold \<le> B" using a up [OF k] by simp
    with B_in b show "fuzzyMatchThreshold \<le> B \<and> \<not> damerauSimilarity s k < B" by auto
  next
    assume a: "fuzzyMatchThreshold \<le> B \<and> \<not> damerauSimilarity s k < B"
    then have "damerauSimilarity s k = B" using up [OF k] by simp
    with a near thr up k show "k \<in> close_keys s targets" unfolding close_keys_def by (auto simp: not_less)
  qed
qed

lemma bestSpanMatch_ids:
  assumes "is_range_orders ro" and "length s \<le> 2 ^ 20" and "short_keys targets"
  shows "distinct (map ent_ID (fst (bestSpanMatch ro s targets)))
    \<and> set (fst (bestSpanMatch ro s targets)) \<subseteq> close_entities s targets
    \<and> ent_ID ` set (fst (bestSpanMatch ro s targets)) = ent_ID ` close_entities s targets"
proof (cases "length s < fuzzyMinTargetKeyLen")
  case True
  then show ?thesis by (simp add: bestSpanMatch_unfold close_entities_def)
next
  case False
  let ?kvs = "ro_targets ro targets"
  define B where "B = best_of ?kvs (damerauSimilarity s) 0"
  have set: "set ?kvs = set targets" using assms(1) by (simp add: is_range_orders_def is_order_set)
  note iff = close_key_iff [OF set assms(2,3) _ B_def]
  show ?thesis
  proof (cases "B < fuzzyMatchThreshold")
    case True
    then have "k \<notin> close_keys s targets" for k
      using iff [of k] by (auto simp: close_keys_def)
    with True False show ?thesis
      by (simp add: bestSpanMatch_unfold B_def [symmetric] close_entities_def)
  next
    case above: False
    let ?es = "concat (map snd (filter (\<lambda>(k, _). \<not> damerauSimilarity s k < B) ?kvs))"
    have "fst (bestSpanMatch ro s targets) = dedup_by ent_ID {} ?es"
      using above False by (simp add: bestSpanMatch_unfold B_def [symmetric])
    moreover have "set ?es = close_entities s targets"
    proof -
      have "k \<in> close_keys s targets \<longleftrightarrow> \<not> damerauSimilarity s k < B" if "(k, es) \<in> set targets" for k es
        using iff [of k] above that by force
      then show ?thesis using False by (force simp: close_entities_def set)
    qed
    ultimately show ?thesis
      using dedup_by_subset [of ent_ID "{}" ?es] dedup_by_keys [of ent_ID "{}" ?es]
        dedup_by_distinct [of ent_ID "{}" ?es] by simp
  qed
qed

text \<open>
  C6. For strings of at most a mebibyte, the matches of a span are, each once, the entities of
  exactly those targets that need the fewest edits per letter, provided that this is at most one
  in five; neither the rounding of the similarities nor the order of the map can change them.
\<close>

theorem bestSpanMatch_nearest:
  assumes "is_range_orders ro" and "length s \<le> 2 ^ 20" and "short_keys targets"
  shows "distinct (map ent_ID (fst (bestSpanMatch ro s targets)))
    \<and> set (fst (bestSpanMatch ro s targets)) \<subseteq> close_entities s targets
    \<and> ent_ID ` set (fst (bestSpanMatch ro s targets)) = ent_ID ` close_entities s targets"
  using assms by (rule bestSpanMatch_ids)

section \<open>The frontier\<close>

lemma coverage_gap:
  assumes "0 < m" "m \<le> 2 ^ 20" and "fuzzyMinFrontierCoverage \<le> best"
    and "fsub best fuzzyFrontierCoverageGap \<le> fdiv (float_of_int (int n)) (float_of_int (int m))" and "n \<le> m"
  shows "9 * m \<le> 20 * n"
proof (rule ccontr)
  assume "\<not> 9 * m \<le> 20 * n"
  then have "(of_nat (20 * n) :: rat) < of_nat (9 * m)" by (simp only: of_nat_less_iff not_le)
  then have "of_nat n / of_nat m < (of_nat 9 / of_nat 20 :: rat)" using assms(1) by (simp add: field_simps)
  from fraction_gap [OF assms(1) _ assms(2) _ this]
  have q: "of_nat n / of_nat m \<le> (9 / 20 :: rat) - 1 / 2 ^ 40" by simp
  define q where "q = (of_nat n / of_nat m :: rat)"
  have q0: "0 \<le> q" by (simp add: q_def)
  have cov: "fdiv (float_of_int (int n)) (float_of_int (int m)) = rnd q"
    using assms(2,5) by (simp add: fdiv_def float_of_int_exact q_def)
  have "q \<le> 1" using assms(1,5) by (simp add: q_def)
  then have "\<bar>rnd q - q\<bar> \<le> 1 / 2 ^ 50" using q0 by (intro rnd_near1) simp
  then have up: "rnd q \<le> q + 1 / 2 ^ 50" by linarith
  have half: "rnd (1 / 2) = 1 / 2" by code_simp
  define g where "g = fuzzyFrontierCoverageGap"
  have g: "\<bar>g - 1 / 20\<bar> \<le> 1 / 2 ^ 50"
    using rnd_near1 [of "5 / 100"] by (simp add: g_def fuzzyFrontierCoverageGap_def)
  have "(1 :: rat) / 2 ^ 50 \<le> 1 / 20" by simp
  with g have g1: "0 \<le> 1 / 2 - g" "1 / 2 - g \<le> 8" by linarith+
  have "1 / 2 \<le> best" using assms(3) half by (simp add: fuzzyMinFrontierCoverage_def)
  then have "rnd (1 / 2 - g) \<le> fsub best g" unfolding fsub_def using g1 by (intro rnd_mono) simp_all
  moreover have "\<bar>rnd (1 / 2 - g) - (1 / 2 - g)\<bar> \<le> 1 / 2 ^ 50" using g1 by (intro rnd_near1) simp
  then have "1 / 2 - g - 1 / 2 ^ 50 \<le> rnd (1 / 2 - g)" by linarith
  ultimately have "9 / 20 - 1 / 2 ^ 50 - 1 / 2 ^ 50 \<le> rnd q"
    using assms(4) g unfolding cov g_def [symmetric] by linarith
  moreover have "(1 :: rat) / 2 ^ 50 + 1 / 2 ^ 50 + 1 / 2 ^ 50 < 1 / 2 ^ 40" by simp
  ultimately show False using up q unfolding q_def [symmetric] by linarith
qed

text \<open>
  Every candidate that may drive recovery is one of the candidates given, explains at least
  two pieces of evidence and at least 45 per cent of those that are not structural.
\<close>

theorem frontier_of_coverage:
  assumes "fc \<in> set (frontier_of candidates resolved roads)" and "length resolved \<le> 2 ^ 20"
  shows "let counted = filter (\<lambda>v. \<not> structural roads v) (map (ev_Value \<circ> re_Evidence) resolved);
             used = filter (\<lambda>v. v \<in> me_Value ` set (Evidence (cc_Candidate fc))) counted
         in cc_Candidate fc \<in> set candidates \<and> 2 \<le> length used \<and> 9 * length counted \<le> 20 * length used"
proof -
  obtain c where c: "c \<in> set candidates"
    and fc: "fc = evaluateCandidateCoverage c (resolvedEvidenceToEvidence resolved) roads"
    using assms(1) by (auto simp: frontier_of_def selectExpansionFrontier_def Let_def split: if_splits)
  define counted where "counted = filter (\<lambda>ev. \<not> structural roads (ev_Value ev)) (map re_Evidence resolved)"
  define V where "V = me_Value ` set (Evidence c)"
  define used where "used = filter (\<lambda>ev. ev_Value ev \<in> V) counted"
  have total: "length used + length (filter (\<lambda>ev. ev_Value ev \<notin> V) counted) = length counted"
    unfolding used_def using sum_length_filter_compl [of "\<lambda>ev. ev_Value ev \<in> V" counted] by simp
  have sel: "cc_Candidate fc = c" "cc_UsedEvidence fc = used"
    "cc_Coverage fc = (if 0 < length counted
       then fdiv (float_of_int (int (length used))) (float_of_int (int (length counted))) else 0)"
    by (simp_all only: fc evaluateCandidateCoverage_def Let_def resolvedEvidenceToEvidence_def
        counted_def [symmetric] V_def [symmetric] used_def [symmetric] candidate_coverage.simps total)
  obtain best where best: "fuzzyMinFrontierCoverage \<le> best" "2 \<le> length used"
    "fsub best fuzzyFrontierCoverageGap \<le> cc_Coverage fc"
    using assms(1) sel(2) by (auto simp: frontier_of_def selectExpansionFrontier_def Let_def
        fuzzyMinFrontierSupport_def not_less split: if_splits)
  have le: "length used \<le> length counted" unfolding used_def by simp
  have "length counted \<le> length resolved" unfolding counted_def using length_filter_le by (metis length_map)
  then have small: "length counted \<le> 2 ^ 20" using assms(2) by simp
  have pos: "0 < length counted" using best(2) le by linarith
  with best(3) sel(3) have "9 * length counted \<le> 20 * length used"
    using coverage_gap [OF pos small best(1) _ le] by simp
  moreover have "length (filter (\<lambda>v. \<not> structural roads v) (map (ev_Value \<circ> re_Evidence) resolved)) = length counted"
    by (simp add: counted_def filter_map comp_def)
  moreover have "length (filter (\<lambda>v. v \<in> V) (filter (\<lambda>v. \<not> structural roads v)
      (map (ev_Value \<circ> re_Evidence) resolved))) = length used"
    by (simp add: used_def counted_def filter_map comp_def)
  ultimately show ?thesis using best(2) c by (simp add: Let_def sel(1) V_def)
qed

section \<open>The neighbourhood\<close>

lemma foldl_add_child:
  "set (foldl (add_child parent) m kvs pid) = set (m pid) \<union> {e. \<exists>i. (i, e) \<in> set kvs \<and> parent i = Some pid}"
  by (induction kvs arbitrary: m) (auto simp: add_child_def split: option.splits)

definition children_ok :: "hierarchy_map \<Rightarrow> service \<Rightarrow> bool" where
  "children_ok h svc \<longleftrightarrow> (\<forall>pid.
     set (citiesByProvince svc pid) = {e. \<exists>i. (i, e) \<in> set (cityByID svc) \<and> CityToProvince h i = Some pid}
   \<and> set (districtsByCity svc pid) = {e. \<exists>i. (i, e) \<in> set (districtByID svc) \<and> DistrictToCity h i = Some pid}
   \<and> set (subDistrictsByDistrict svc pid) =
       {e. \<exists>i. (i, e) \<in> set (subDistrictByID svc) \<and> SubDistrictToDist h i = Some pid})"

lemma ensureChildren_ok:
  assumes "is_range_orders ro" and "hierarchyCache svc = Some h" and "childrenOnce svc \<Longrightarrow> children_ok h svc"
  shows "children_ok h (ensureChildrenIndexesLoaded ro svc)"
proof (cases "childrenOnce svc")
  case True
  with assms(3) show ?thesis by (simp add: ensureChildrenIndexesLoaded_def)
next
  case False
  have "set (ro_cityByID ro (cityByID svc)) = set (cityByID svc)"
    "set (ro_districtByID ro (districtByID svc)) = set (districtByID svc)"
    "set (ro_subDistrictByID ro (subDistrictByID svc)) = set (subDistrictByID svc)"
    using assms(1) by (simp_all add: is_range_orders_def is_order_set)
  with False assms(2) show ?thesis
    by (simp add: ensureChildrenIndexesLoaded_def loadChildrenIndexes_def children_ok_def foldl_add_child)
qed

lemma foldl_add_entity:
  assumes "distinct (map ent_ID out)" "0 \<notin> ent_ID ` set out"
  shows "distinct (map ent_ID (foldl add_entity out es)) \<and> 0 \<notin> ent_ID ` set (foldl add_entity out es)
    \<and> set (foldl add_entity out es) \<subseteq> set out \<union> set es
    \<and> ent_ID ` set (foldl add_entity out es) = ent_ID ` set out \<union> (ent_ID ` set es - {0})"
  using assms
proof (induction es arbitrary: out)
  case (Cons e es)
  have "distinct (map ent_ID (add_entity out e))" "0 \<notin> ent_ID ` set (add_entity out e)"
    using Cons.prems by (auto simp: add_entity_def)
  note IH = Cons.IH [OF this]
  have "ent_ID ` set (add_entity out e) = ent_ID ` set out \<union> ({ent_ID e} - {0})"
    and "set (add_entity out e) \<subseteq> set out \<union> {e}"
    by (auto simp: add_entity_def)
  with IH show ?case by auto
qed simp

text \<open>The entities that a place may be compared with: its chain and the next level below it.\<close>

definition child_entities :: "hierarchy_map \<Rightarrow> service \<Rightarrow> admin_location \<Rightarrow> entity set" where
  "child_entities h svc loc =
     (if SubDistrict loc \<noteq> None then {}
      else case District loc of
        Some d \<Rightarrow> {sub_district_entity e |e i. (i, e) \<in> set (subDistrictByID svc) \<and> SubDistrictToDist h i = Some (d_ID d)}
      | None \<Rightarrow> (case City loc of
          Some c \<Rightarrow> {district_entity e |e i. (i, e) \<in> set (districtByID svc) \<and> DistrictToCity h i = Some (ct_ID c)}
        | None \<Rightarrow> (case Province loc of
            Some p \<Rightarrow> {city_entity e |e i. (i, e) \<in> set (cityByID svc) \<and> CityToProvince h i = Some (p_ID p)}
          | None \<Rightarrow> {})))"

lemma children_child_entities:
  "children_ok h svc \<Longrightarrow> set (children svc loc) = child_entities h svc loc"
  unfolding children_def child_entities_def children_ok_def
  by (auto split: option.split)

lemma ensureChildren_frame [simp]:
  "cityByID (ensureChildrenIndexesLoaded ro svc) = cityByID svc"
  "districtByID (ensureChildrenIndexesLoaded ro svc) = districtByID svc"
  "subDistrictByID (ensureChildrenIndexesLoaded ro svc) = subDistrictByID svc"
  "hierarchyCache (ensureChildrenIndexesLoaded ro svc) = hierarchyCache svc"
  by (simp_all add: ensureChildrenIndexesLoaded_def loadChildrenIndexes_def split: option.split)

lemma child_entities_frame [simp]:
  "child_entities h (ensureChildrenIndexesLoaded ro svc) loc = child_entities h svc loc"
  unfolding child_entities_def ensureChildren_frame by (rule refl)

text \<open>
  C38. The neighbourhood of a candidate is, each identifier once and never the identifier 0, its
  chain and the entries of the caches whose parent is its deepest place.
\<close>

theorem candidateNeighborhood_set:
  assumes "is_range_orders ro" and "hierarchyCache svc = Some h" and "childrenOnce svc \<Longrightarrow> children_ok h svc"
  shows "let es = fst (candidateNeighborhood ro c svc);
             all = set (ancestors (Location c)) \<union> child_entities h svc (Location c)
         in distinct (map ent_ID es) \<and> set es \<subseteq> all \<and> ent_ID ` set es = ent_ID ` all - {0}"
proof -
  have "children_ok h (ensureChildrenIndexesLoaded ro svc)" using assms by (rule ensureChildren_ok)
  from children_child_entities [OF this, of "Location c"]
  show ?thesis
    using foldl_add_entity [of "[]" "ancestors (Location c) @ children (ensureChildrenIndexesLoaded ro svc) (Location c)"]
    by (simp add: candidateNeighborhood_def assms(2) Let_def image_Un)
qed

section \<open>What recovery returns\<close>

text \<open>A run of one to four adjacent words of the text, none of them explained or structural.\<close>

definition free_span :: "gostring list \<Rightarrow> (gostring \<Rightarrow> bool) \<Rightarrow> gostring list \<Rightarrow> bool" where
  "free_span ws skip p \<longleftrightarrow> sublist p ws \<and> p \<noteq> [] \<and> length p \<le> fuzzyMaxSpanTokens \<and> list_all (\<lambda>w. \<not> skip w) p"

definition recovered_ok ::
  "range_orders \<Rightarrow> (gostring \<times> entity list) list \<Rightarrow> gostring list \<Rightarrow> (gostring \<Rightarrow> bool) \<Rightarrow> resolved_evidence \<Rightarrow> bool" where
  "recovered_ok ro targets ws skip re \<longleftrightarrow> is_place re \<and> re_Candidates re \<noteq> []
     \<and> (\<exists>p. free_span ws skip p \<and> re_Value re = join [space] p)
     \<and> set (re_Candidates re) \<subseteq> set (fst (bestSpanMatch ro (compactSpaces (to_lower (re_Value re))) targets))"

definition ids_of :: "resolved_evidence list \<Rightarrow> int64 list" where
  "ids_of rs = map ent_ID (concat (map re_Candidates rs))"

definition correction :: "resolved_evidence \<Rightarrow> gostring \<times> gostring" where
  "correction re = (re_Value re, ent_Name (hd (re_Candidates re)))"

definition recovery_ok ::
  "range_orders \<Rightarrow> (gostring \<times> entity list) list \<Rightarrow> gostring list \<Rightarrow> (gostring \<Rightarrow> bool) \<Rightarrow> int64 set \<Rightarrow> recovery \<Rightarrow> bool" where
  "recovery_ok ro targets ws skip known st \<longleftrightarrow>
     rc_known st = known \<union> set (ids_of (rc_recovered st))
   \<and> distinct (ids_of (rc_recovered st)) \<and> set (ids_of (rc_recovered st)) \<inter> known = {}
   \<and> list_all (recovered_ok ro targets ws skip) (rc_recovered st)
   \<and> rc_explained st \<subseteq> {w \<in> set ws. \<not> skip w}
   \<and> fst ` set (rc_corrections st) = re_Value ` set (rc_recovered st)
   \<and> set (rc_corrections st) \<subseteq> correction ` set (rc_recovered st)"

lemma span_match_ents:
  "span_match ro targets ws i n = Some (k, es) \<Longrightarrow>
     es = fst (bestSpanMatch ro (compactSpaces (to_lower (join [space] (take k (drop i ws))))) targets)"
  by (induction n) (auto simp: Let_def split: if_splits)

lemma free_span_words: "free_span ws skip p \<Longrightarrow> set p \<subseteq> {w \<in> set ws. \<not> skip w}"
  using set_mono_sublist by (auto simp: free_span_def list_all_iff)

lemma set_update: "set (AList.update k v m) \<subseteq> insert (k, v) (set m)"
  by (induction m) auto

lemma recover_span_ok:
  assumes ok: "recovery_ok ro targets ws skip known st" and p: "free_span ws skip p"
    and ents: "ents = fst (bestSpanMatch ro (compactSpaces (to_lower (join [space] p))) targets)"
  shows "recovery_ok ro targets ws skip known (recover_span p ents st)"
proof (cases "dedup_by ent_ID (rc_known st) ents")
  case Nil
  then show ?thesis
    using ok free_span_words [OF p] by (simp add: recover_span_def recovery_ok_def)
next
  case (Cons e es)
  define fresh where "fresh = dedup_by ent_ID (rc_known st) ents"
  define re where "re = \<lparr>re_Evidence = \<lparr>ev_Type = EvidencePlaceName, ev_Value = join [space] p\<rparr>, re_Candidates = fresh\<rparr>"
  have st': "recover_span p ents st = st\<lparr>rc_known := rc_known st \<union> ent_ID ` set fresh,
      rc_explained := rc_explained st \<union> set p, rc_recovered := rc_recovered st @ [re],
      rc_corrections := AList.update (re_Value re) (ent_Name (hd (re_Candidates re))) (rc_corrections st)\<rparr>"
    using Cons by (simp add: recover_span_def Let_def fresh_def [symmetric] re_def)
  have fresh: "distinct (map ent_ID fresh)" "ent_ID ` set fresh \<inter> rc_known st = {}" "set fresh \<subseteq> set ents"
    unfolding fresh_def using dedup_by_subset [of ent_ID "rc_known st" ents]
    by (auto simp: dedup_by_distinct dedup_by_keys)
  have fresh_ne: "fresh \<noteq> []" using Cons by (simp add: fresh_def)
  have ids: "ids_of (rc_recovered st @ [re]) = ids_of (rc_recovered st) @ map ent_ID fresh"
    by (simp add: ids_of_def re_def)
  have new: "recovered_ok ro targets ws skip re"
    using p fresh(3) fresh_ne ents by (auto simp: recovered_ok_def re_def)
  have words: "set p \<subseteq> {w \<in> set ws. \<not> skip w}" using p by (rule free_span_words)
  have corr: "set (AList.update (re_Value re) (ent_Name (hd (re_Candidates re))) (rc_corrections st))
      \<subseteq> insert (correction re) (set (rc_corrections st))"
    unfolding correction_def by (rule set_update)
  note old = ok [unfolded recovery_ok_def]
  have "ent_ID ` set fresh \<inter> known = {}" "ent_ID ` set fresh \<inter> set (ids_of (rc_recovered st)) = {}"
    using fresh(2) old by auto
  then have "distinct (ids_of (rc_recovered st @ [re]))" "set (ids_of (rc_recovered st @ [re])) \<inter> known = {}"
    using old fresh(1) unfolding ids by auto
  moreover have "set (AList.update (re_Value re) (ent_Name (hd (re_Candidates re))) (rc_corrections st))
      \<subseteq> correction ` set (rc_recovered st @ [re])"
    using corr old by auto
  moreover have "rc_explained st \<union> set p \<subseteq> {w \<in> set ws. \<not> skip w}"
    using old words by blast
  moreover have "rc_known st \<union> ent_ID ` set fresh = known \<union> set (ids_of (rc_recovered st @ [re]))"
    using old by (simp add: ids Un_assoc)
  ultimately show ?thesis
    using old new unfolding recovery_ok_def st' by (simp add: AList.dom_update)
qed

text \<open>What is left of a block after some of its indices is still a block, or nothing.\<close>

definition tail_block :: "nat list \<Rightarrow> bool" where
  "tail_block r \<longleftrightarrow> r = [] \<or> block r"

lemma tail_block_drop: "tail_block r \<Longrightarrow> tail_block (drop n r)"
proof (cases "drop n r = []")
  case False
  assume "tail_block r"
  with False have r: "r = [hd r..<hd r + length r]" and n: "n < length r" by (auto simp: tail_block_def block_def)
  have "drop n r = [hd r + n..<hd r + length r]" by (subst r) (simp only: drop_upt)
  moreover from this n have "hd (drop n r) = hd r + n" by (simp add: upt_conv_Cons)
  ultimately show ?thesis using False n by (simp add: tail_block_def block_def)
qed (simp add: tail_block_def)

lemma block_words:
  assumes "block r" "n \<le> length r" "list_all (\<lambda>i. i < length ws) r"
  shows "take n (drop (hd r) ws) = map ((!) ws) (take n r)"
proof -
  define a where "a = hd r"
  have r: "r = [a..<a + length r]" and ne: "r \<noteq> []" using assms(1) by (simp_all add: block_def a_def)
  have "a + length r \<le> length ws"
  proof -
    have "last r = a + length r - 1" using ne by (subst r) (simp add: last_upt)
    moreover have "last r < length ws" using assms(3) ne by (simp add: list_all_iff)
    ultimately show ?thesis by simp
  qed
  then have "take n (drop a ws) = map ((!) ws) [a..<a + n]"
    using assms(2) by (intro nth_equalityI) simp_all
  moreover have "take n r = [a..<a + n]" using assms(2) by (subst r) (simp add: take_upt)
  ultimately show ?thesis by (simp add: a_def)
qed

lemma recover_run_ok:
  assumes "recovery_ok ro targets ws skip known st" and "tail_block run"
    and "list_all (\<lambda>i. i < length ws \<and> \<not> skip (ws ! i)) run"
  shows "recovery_ok ro targets ws skip known (recover_run ro targets ws run st)"
  using assms
proof (induction ro targets ws run st rule: recover_run.induct)
  case (1 ro targets ws st)
  then show ?case by simp
next
  case (2 ro targets ws i run st)
  let ?m = "span_match ro targets ws i (min fuzzyMaxSpanTokens (length (i # run)))"
  show ?case
  proof (cases ?m)
    case None
    have "tail_block run" using tail_block_drop [OF "2.prems"(2), of 1] by simp
    with "2.IH"(1) [OF None "2.prems"(1)] "2.prems"(3)
    have "recovery_ok ro targets ws skip known (recover_run ro targets ws run st)" by simp
    moreover have "recover_run ro targets ws (i # run) st = recover_run ro targets ws run st"
      unfolding recover_run.simps(2) by (simp only: None option.case)
    ultimately show ?thesis by simp
  next
    case (Some nes)
    obtain n es where nes: "nes = (n, es)" by (cases nes)
    define p where "p = take n (drop i ws)"
    note Some = Some [unfolded nes]
    have n: "0 < n" "n \<le> fuzzyMaxSpanTokens" "n \<le> length (i # run)" using span_match_bounds [OF Some] by simp_all
    have block: "block (i # run)" using "2.prems"(2) by (simp add: tail_block_def)
    have words: "p = map ((!) ws) (take n (i # run))"
      using block_words [OF block n(3), of ws] "2.prems"(3) by (simp add: p_def list_all_iff)
    have "free_span ws skip p"
      unfolding free_span_def
    proof (intro conjI)
      show "sublist p ws" unfolding p_def by (meson sublist_drop sublist_order.order.trans sublist_take)
      show "p \<noteq> []" unfolding words using n(1) by (cases n) simp_all
      show "length p \<le> fuzzyMaxSpanTokens" using n(2) by (simp add: p_def)
      have "list_all (\<lambda>i. \<not> skip (ws ! i)) (take n (i # run))"
        using "2.prems"(3) by (auto simp only: list_all_iff dest: in_set_takeD)
      then show "list_all (\<lambda>w. \<not> skip w) p" by (simp only: words list.pred_map comp_def)
    qed
    then have st': "recovery_ok ro targets ws skip known (recover_span p es st)"
      using recover_span_ok [OF "2.prems"(1)] span_match_ents [OF Some] by (simp add: p_def)
    have rest: "list_all (\<lambda>i. i < length ws \<and> \<not> skip (ws ! i)) (drop n (i # run))"
      using "2.prems"(3) by (auto simp only: list_all_iff dest: in_set_dropD)
    have "recover_run ro targets ws (i # run) st = recover_run ro targets ws (drop n (i # run)) (recover_span p es st)"
      unfolding recover_run.simps(2) p_def by (simp only: Some option.case prod.case)
    with "2.IH"(2) [OF Some refl, folded p_def, OF st' tail_block_drop [OF "2.prems"(2)] rest]
    show ?thesis by (simp only:)
  qed
qed

lemma unskipped_bounds:
  "list_all (\<lambda>j. j < i + length ws \<and> i \<le> j \<and> \<not> skip (ws ! (j - i))) (unskipped skip ws i)"
  by (auto simp: unskipped_def list_all_iff set_zip)

lemma recover_runs_ok:
  assumes "recovery_ok ro targets ws skip known st" and "list_all block runs"
    and "list_all (\<lambda>i. i < length ws \<and> \<not> skip (ws ! i)) (concat runs)"
  shows "recovery_ok ro targets ws skip known (foldl (\<lambda>st run. recover_run ro targets ws run st) st runs)"
  using assms
proof (induction runs arbitrary: st)
  case (Cons run runs)
  have "recovery_ok ro targets ws skip known (recover_run ro targets ws run st)"
    using Cons.prems by (intro recover_run_ok) (simp_all add: tail_block_def)
  from Cons.IH [OF this] Cons.prems show ?case by simp
qed simp

text \<open>The names that the frontier puts in reach, and what its candidates explain.\<close>

definition reach :: "range_orders \<Rightarrow> candidate_coverage list \<Rightarrow> service \<Rightarrow> (gostring \<times> entity list) list" where
  "reach ro frontier svc = buildMatchTargets (fst (frontier_entities ro frontier svc))"

definition explained_by :: "candidate_coverage list \<Rightarrow> gostring set" where
  "explained_by frontier = \<Union> ((\<lambda>fc. ev_Value ` set (cc_UsedEvidence fc)) ` set frontier)"

text \<open>
  C5. Recovery returns place names only, each a run of one to four adjacent words of the text of
  which the frontier explains none and none is structural, with best matches of that run among
  the names in reach; no entity is returned twice, nor one that exact resolution knew. The words
  it reports as explained are such words too, and the corrections give each returned name the
  name of its first entity.
\<close>

theorem RecoverContextualEvidence_sound:
  "case RecoverContextualEvidence ro candidates resolved text roads svc of
     ((recovered, corrections, explained), svc') \<Rightarrow>
       let frontier = frontier_of candidates resolved roads;
             ws = strings_Fields text;
             skip = (\<lambda>w. w \<in> explained_by frontier \<or> structural roads w)
         in list_all (recovered_ok ro (reach ro frontier svc) ws skip) recovered
          \<and> distinct (ids_of recovered) \<and> set (ids_of recovered) \<inter> known_entities resolved = {}
          \<and> explained \<subseteq> {w \<in> set ws. \<not> skip w}
          \<and> fst ` set corrections = re_Value ` set recovered
          \<and> set corrections \<subseteq> correction ` set recovered"
proof -
  obtain recovered corrections explained svc' where result:
    "RecoverContextualEvidence ro candidates resolved text roads svc = ((recovered, corrections, explained), svc')"
    by (metis prod.collapse)
  define frontier where "frontier = frontier_of candidates resolved roads"
  define ws where "ws = strings_Fields text"
  define skip where "skip = (\<lambda>w. w \<in> explained_by frontier \<or> structural roads w)"
  define targets where "targets = reach ro frontier svc"
  define runs where "runs = unexplainedRuns ws (explained_by frontier) roads"
  define st0 where "st0 = \<lparr>rc_known = known_entities resolved, rc_recovered = [], rc_corrections = [], rc_explained = {}\<rparr>"
  define st where "st = foldl (\<lambda>st run. recover_run ro targets ws run st) st0 runs"
  have runs: "list_all block runs" "concat runs = unskipped skip ws 0"
    using runs_from_blocks [of "[]" "[]" 0 skip ws]
    by (simp_all add: runs_def unexplainedRuns_def skip_def runs_from_concat)
  have "list_all (\<lambda>i. i < length ws \<and> \<not> skip (ws ! i)) (concat runs)"
    using unskipped_bounds [of 0 ws skip] by (simp add: runs(2))
  moreover have "recovery_ok ro targets ws skip (known_entities resolved) st0"
    by (simp add: recovery_ok_def st0_def ids_of_def)
  ultimately have ok: "recovery_ok ro targets ws skip (known_entities resolved) st"
    unfolding st_def using runs(1) by (intro recover_runs_ok)
  have "RecoverContextualEvidence ro candidates resolved text roads svc =
      (if frontier = [] then (([], [], {}), svc)
       else if rc_recovered st = [] then (([], [], {}), snd (frontier_entities ro frontier svc))
       else ((rc_recovered st, rc_corrections st, rc_explained st), snd (frontier_entities ro frontier svc)))"
    by (simp add: RecoverContextualEvidence_def Let_def split_beta frontier_def [symmetric] ws_def [symmetric]
        reach_def [symmetric] targets_def [symmetric] explained_by_def [symmetric] runs_def [symmetric]
        st0_def [symmetric] st_def [symmetric])
  with result have "recovered = [] \<and> corrections = [] \<and> explained = {}
      \<or> recovered = rc_recovered st \<and> corrections = rc_corrections st \<and> explained = rc_explained st"
    by (auto split: if_splits)
  then show ?thesis
  proof
    assume "recovered = [] \<and> corrections = [] \<and> explained = {}"
    then show ?thesis by (simp add: result Let_def ids_of_def)
  next
    assume eq: "recovered = rc_recovered st \<and> corrections = rc_corrections st \<and> explained = rc_explained st"
    note ok' = ok [unfolded recovery_ok_def targets_def skip_def frontier_def ws_def]
    show ?thesis using ok' by (simp only: result prod.case eq Let_def not_False_eq_True simp_thms)
  qed
qed

section \<open>Instances\<close>

definition demo_targets :: "(gostring \<times> entity list) list" where
  "demo_targets = [(''ciwidy'', [\<lparr>ent_ID = 7, ent_Name = ''Ciwidy'', ent_Level = DISTRICT, ent_PostalCode = []\<rparr>])]"

theorem bestSpanMatch_nearest_witness:
  "map ent_ID (fst (bestSpanMatch insertion_orders ''ciwdy'' demo_targets)) = [7]"
proof -
  have "short_keys demo_targets" by (simp add: short_keys_def demo_targets_def)
  from bestSpanMatch_nearest [OF insertion_orders_ok _ this, of "''ciwdy''"]
  have n: "distinct (map ent_ID (fst (bestSpanMatch insertion_orders ''ciwdy'' demo_targets)))"
    and i: "ent_ID ` set (fst (bestSpanMatch insertion_orders ''ciwdy'' demo_targets))
      = ent_ID ` close_entities ''ciwdy'' demo_targets" by simp_all
  have "close_entities ''ciwdy'' demo_targets = set (snd (hd demo_targets))"
    by (simp add: close_entities_def close_keys_def demo_targets_def dl_examples fuzzyMinTargetKeyLen_def)
  with i have "ent_ID ` set (fst (bestSpanMatch insertion_orders ''ciwdy'' demo_targets)) = {7}"
    by (simp add: demo_targets_def)
  then have "set (map ent_ID (fst (bestSpanMatch insertion_orders ''ciwdy'' demo_targets))) = {7}" by simp
  moreover from this have "length (map ent_ID (fst (bestSpanMatch insertion_orders ''ciwdy'' demo_targets))) = 1"
    using distinct_card [OF n] by simp
  ultimately show ?thesis by (cases "fst (bestSpanMatch insertion_orders ''ciwdy'' demo_targets)") auto
qed

definition demo_hierarchy :: service where
  "demo_hierarchy = (new_service 500 ''x'' True)\<lparr>
     hierarchyCache := Some \<lparr>CityToProvince = Map.empty, DistrictToCity = [7 \<mapsto> 3], SubDistrictToDist = Map.empty\<rparr>,
     districtByID := [(7, \<lparr>de_ID = 7, de_Name = ''Ciwidey'', de_Kode = ''32.04.39''\<rparr>)]\<rparr>"

definition demo_city :: admin_candidate where
  "demo_city = \<lparr>cand_UUID = ''u'', OriginLevel = OriginCity,
     Location = empty_admin_location\<lparr>City := Some \<lparr>ct_ID = 3, ct_Name = ''Kabupaten Bandung'',
       ct_NormalizedName = [], ct_PostalCode = []\<rparr>\<rparr>,
     Evidence = map (\<lambda>v. \<lparr>me_Evidence = \<lparr>ev_Type = EvidencePlaceName, ev_Value = v\<rparr>, me_Resolved = None\<rparr>)
       [''bandung'', ''soreang''],
     DiscoveryStrategies = []\<rparr>"

theorem candidateNeighborhood_set_witness:
  "ent_ID ` set (fst (candidateNeighborhood insertion_orders demo_city demo_hierarchy)) = {3, 7}"
proof -
  have h: "hierarchyCache demo_hierarchy =
      Some \<lparr>CityToProvince = Map.empty, DistrictToCity = [7 \<mapsto> 3], SubDistrictToDist = Map.empty\<rparr>"
    and c: "\<not> childrenOnce demo_hierarchy"
    by (simp_all add: demo_hierarchy_def new_service_def)
  from candidateNeighborhood_set [OF insertion_orders_ok h, of demo_city] c
  show ?thesis
    by (auto simp: Let_def child_entities_def ancestors_def demo_city_def empty_admin_location_def
        demo_hierarchy_def district_entity_def new_service_def)
qed

theorem frontier_of_coverage_witness:
  "let resolved = map (\<lambda>v. place v []) [''bandung'', ''soreang'']; fc = hd (frontier_of [demo_city] resolved {}) in
   let counted = filter (\<lambda>v. \<not> structural {} v) (map (ev_Value \<circ> re_Evidence) resolved);
       used = filter (\<lambda>v. v \<in> me_Value ` set (Evidence (cc_Candidate fc))) counted
   in cc_Candidate fc \<in> set [demo_city] \<and> 2 \<le> length used \<and> 9 * length counted \<le> 20 * length used"
proof -
  let ?resolved = "map (\<lambda>v. place v []) [''bandung'', ''soreang'']"
  have two: "fdiv (float_of_int 2) (float_of_int 2) = 1"
    by (simp add: fdiv_def float_of_int_exact)
  have half: "fuzzyMinFrontierCoverage \<le> 1"
    unfolding fuzzyMinFrontierCoverage_def using rnd_mono [of "5 / 10" 1] by simp
  have "0 \<le> fuzzyFrontierCoverageGap" "fuzzyFrontierCoverageGap \<le> rnd 1"
    unfolding fuzzyFrontierCoverageGap_def by (intro rnd_nonneg rnd_mono; simp)+
  then have "fsub 1 fuzzyFrontierCoverageGap \<le> rnd 1"
    unfolding fsub_def by (intro rnd_mono) simp_all
  with two half have "frontier_of [demo_city] ?resolved {} \<noteq> []"
    by (simp add: frontier_of_def selectExpansionFrontier_def best_coverage_def evaluateCandidateCoverage_def
        resolvedEvidenceToEvidence_def place_def demo_city_def structural_def fuzzyStopwords_def isDigitOnly_def
        is_digit_def fuzzyMinFrontierSupport_def Let_def)
  then have "hd (frontier_of [demo_city] ?resolved {}) \<in> set (frontier_of [demo_city] ?resolved {})" by simp
  moreover have "length ?resolved \<le> 2 ^ 20" by simp
  ultimately show ?thesis using frontier_of_coverage by (simp only: Let_def)
qed

end
