(* ===== verification/Store_Queue.thy ===== *)
theory Store_Queue
  imports AQ_Prelude
begin

text \<open>
  \<open>internal/queue/queue.go\<close>: one buffered channel, a fixed set of worker goroutines, a
  mutex around \<open>closed\<close>. \<open>New\<close> and \<open>Submit\<close> are functions; what the goroutines
  do in which order is left to the scheduler and is a step relation, one rule per atomic
  action of the code. The lists \<open>q_accepted\<close> and \<open>q_handled\<close> record the jobs that a
  \<open>Submit\<close> took and those whose handler call has ended; the code has no such fields, they
  only let a property speak of the past. A parked receiver and one about to receive are both
  \<open>Waiting\<close>: handing a job directly to a parked receiver is a \<open>Submit\<close> followed by the
  worker's receive.
\<close>

section \<open>The queue\<close>

datatype queue_error = ErrQueueClosed | ErrQueueFull

datatype 'a worker = Waiting | Executing 'a | Exited

record 'a queue =
  q_jobs :: "'a list"
  q_size :: nat
  q_workers :: "'a worker list"
  q_closed :: bool
  q_accepted :: "'a list"
  q_handled :: "'a list"

definition new_queue :: "int \<Rightarrow> int \<Rightarrow> 'a queue" where
  "new_queue n workers =
     (let cap = (if n < 1 then 1 else n); workers = (if workers < 1 then 1 else workers) in
      \<lparr>q_jobs = [], q_size = nat cap, q_workers = replicate (nat workers) Waiting,
       q_closed = False, q_accepted = [], q_handled = []\<rparr>)"

definition Submit :: "'a \<Rightarrow> 'a queue \<Rightarrow> queue_error option \<times> 'a queue" where
  "Submit job q =
     (if q_closed q then (Some ErrQueueClosed, q)
      else if length (q_jobs q) < q_size q
      then (None, q\<lparr>q_jobs := q_jobs q @ [job], q_accepted := q_accepted q @ [job]\<rparr>)
      else (Some ErrQueueFull, q))"

definition queue_Len :: "'a queue \<Rightarrow> nat" where
  "queue_Len q = length (q_jobs q)"

text \<open>The critical section of \<open>Shutdown\<close>.\<close>

definition close_queue :: "'a queue \<Rightarrow> 'a queue" where
  "close_queue q = (if q_closed q then q else q\<lparr>q_closed := True\<rparr>)"

text \<open>
  A worker: \<open>run\<close> receives until the channel is closed and empty, \<open>execute\<close> ends with
  the handler's return or with a recovered panic.
\<close>

inductive worker_step :: "'a queue \<Rightarrow> 'a queue \<Rightarrow> bool" where
  receive: "i < length (q_workers q) \<Longrightarrow> q_workers q ! i = Waiting \<Longrightarrow> q_jobs q = job # jobs \<Longrightarrow>
     worker_step q (q\<lparr>q_jobs := jobs, q_workers := (q_workers q)[i := Executing job]\<rparr>)"
| execute: "i < length (q_workers q) \<Longrightarrow> q_workers q ! i = Executing job \<Longrightarrow>
     worker_step q (q\<lparr>q_workers := (q_workers q)[i := Waiting], q_handled := q_handled q @ [job]\<rparr>)"
| exit: "i < length (q_workers q) \<Longrightarrow> q_workers q ! i = Waiting \<Longrightarrow> q_jobs q = [] \<Longrightarrow> q_closed q \<Longrightarrow>
     worker_step q (q\<lparr>q_workers := (q_workers q)[i := Exited]\<rparr>)"

inductive queue_step :: "'a queue \<Rightarrow> 'a queue \<Rightarrow> bool" where
  submit: "queue_step q (snd (Submit job q))"
| close: "queue_step q (close_queue q)"
| work: "worker_step q q' \<Longrightarrow> queue_step q q'"

inductive_cases worker_stepE: "worker_step q q'"
inductive_cases queue_stepE: "queue_step q q'"

inductive reachable :: "'a queue \<Rightarrow> 'a queue \<Rightarrow> bool" for q0 where
  start: "reachable q0 q0"
| step: "reachable q0 q \<Longrightarrow> queue_step q q' \<Longrightarrow> reachable q0 q'"

text \<open>
  \<open>Shutdown\<close> returns nil once the wait group is down to zero, and may return the context's
  error once the context is done; where both hold the runtime picks one.
\<close>

definition all_exited :: "'a queue \<Rightarrow> bool" where
  "all_exited q \<longleftrightarrow> list_all (\<lambda>w. w = Exited) (q_workers q)"

inductive Shutdown_returns :: "'a queue \<Rightarrow> 'e option \<Rightarrow> 'e option \<Rightarrow> bool" where
  drained: "q_closed q \<Longrightarrow> all_exited q \<Longrightarrow> Shutdown_returns q ctx None"
| cancelled: "q_closed q \<Longrightarrow> Shutdown_returns q (Some err) (Some err)"

inductive_simps Shutdown_returns_nil: "Shutdown_returns q ctx None"

section \<open>The invariant\<close>

fun running :: "'a worker list \<Rightarrow> 'a multiset" where
  "running [] = {#}"
| "running (w # ws) = (case w of Executing job \<Rightarrow> {#job#} | _ \<Rightarrow> {#}) + running ws"

lemma running_update:
  "i < length ws \<Longrightarrow> running (ws[i := w]) + running [ws ! i] = running ws + running [w]"
proof (induction ws arbitrary: i)
  case (Cons v ws)
  then show ?case by (cases i) (simp_all add: ac_simps)
qed simp

lemma running_exited: "list_all (\<lambda>w. w = Exited) ws \<Longrightarrow> running ws = {#}"
  by (induction ws) auto

definition queue_inv :: "'a queue \<Rightarrow> bool" where
  "queue_inv q \<longleftrightarrow>
     mset (q_accepted q) = mset (q_handled q) + running (q_workers q) + mset (q_jobs q)
   \<and> suffix (q_jobs q) (q_accepted q)
   \<and> length (q_jobs q) \<le> q_size q \<and> 0 < q_size q \<and> q_workers q \<noteq> []
   \<and> (Exited \<in> set (q_workers q) \<longrightarrow> q_closed q \<and> q_jobs q = [])"

lemma new_queue_inv: "queue_inv (new_queue n workers)"
proof -
  have "running (replicate k Waiting) = ({#} :: 'a multiset)" for k by (induction k) auto
  then show ?thesis by (simp add: queue_inv_def new_queue_def Let_def)
qed

lemma Submit_inv: "queue_inv q \<Longrightarrow> queue_inv (snd (Submit job q))"
  by (auto simp: queue_inv_def Submit_def suffix_def)

lemma close_inv: "queue_inv q \<Longrightarrow> queue_inv (close_queue q)"
  by (auto simp: queue_inv_def close_queue_def)

lemma worker_step_inv: "worker_step q q' \<Longrightarrow> queue_inv q \<Longrightarrow> queue_inv q'"
proof (induction rule: worker_step.induct)
  case (receive i q job jobs)
  then have "suffix jobs (q_accepted q)"
    unfolding queue_inv_def by (metis suffix_ConsD)
  moreover have "running ((q_workers q)[i := Executing job]) = add_mset job (running (q_workers q))"
    using running_update [of i "q_workers q" "Executing job"] receive by simp
  moreover have "Exited \<notin> set ((q_workers q)[i := Executing job])"
    using receive set_update_subset_insert by (fastforce simp: queue_inv_def)
  ultimately show ?case using receive by (simp add: queue_inv_def)
next
  case (execute i q job)
  then have "add_mset job (running ((q_workers q)[i := Waiting])) = running (q_workers q)"
    using running_update [of i "q_workers q" Waiting] by simp
  moreover have "Exited \<in> set ((q_workers q)[i := Waiting]) \<Longrightarrow> Exited \<in> set (q_workers q)"
    using set_update_subset_insert by fastforce
  ultimately show ?case using execute
    by (auto simp: queue_inv_def)
next
  case (exit i q)
  then have "running ((q_workers q)[i := Exited]) = running (q_workers q)"
    using running_update [of i "q_workers q" Exited] by simp
  with exit show ?case by (simp add: queue_inv_def)
qed

lemma queue_step_inv: "queue_step q q' \<Longrightarrow> queue_inv q \<Longrightarrow> queue_inv q'"
  by (elim queue_stepE) (simp_all add: Submit_inv close_inv worker_step_inv)

lemma reachable_inv: "reachable q0 q \<Longrightarrow> queue_inv q0 \<Longrightarrow> queue_inv q"
  by (induction rule: reachable.induct) (auto intro: queue_step_inv)

text \<open>
  C28. In every reachable state of the queue each accepted job is in exactly one place:
  handled, in a worker's hands, or still buffered. The buffer holds the latest accepted jobs
  in the order of acceptance and never more than the capacity.
\<close>

theorem queue_no_loss:
  assumes "reachable (new_queue n workers) q"
  shows "mset (q_accepted q) = mset (q_handled q) + running (q_workers q) + mset (q_jobs q)
    \<and> q_jobs q = drop (length (q_accepted q) - length (q_jobs q)) (q_accepted q)
    \<and> length (q_jobs q) \<le> q_size q"
proof -
  have "queue_inv q" using assms new_queue_inv by (rule reachable_inv)
  then show ?thesis by (auto simp: queue_inv_def suffix_def)
qed

section \<open>Shutdown\<close>

lemma drained_queue:
  assumes "reachable (new_queue n workers) q" and "Shutdown_returns q ctx None"
  shows "mset (q_handled q) = mset (q_accepted q) \<and> Submit job q = (Some ErrQueueClosed, q)"
proof -
  have inv: "queue_inv q" using assms(1) new_queue_inv by (rule reachable_inv)
  have q: "q_closed q" "all_exited q" using assms(2) by (simp_all add: Shutdown_returns_nil)
  have "q_workers q \<noteq> []" using inv by (simp add: queue_inv_def)
  then have "Exited \<in> set (q_workers q)"
    using q(2) by (cases "q_workers q") (auto simp: all_exited_def)
  then have "q_jobs q = []" "running (q_workers q) = {#}"
    using inv q(2) running_exited by (auto simp: queue_inv_def all_exited_def)
  with inv q(1) show ?thesis by (simp add: queue_inv_def Submit_def)
qed

text \<open>
  When \<open>Shutdown\<close> returns nil, every job that was ever accepted has been handled, and
  from then on no submission is accepted.
\<close>

theorem Shutdown_drains:
  assumes "reachable (new_queue n workers) q" and "Shutdown_returns q ctx None"
  shows "mset (q_handled q) = mset (q_accepted q) \<and> Submit job q = (Some ErrQueueClosed, q)"
  using assms by (rule drained_queue)

text \<open>Once closed, a queue stays closed and accepts nothing.\<close>

lemma closed_stays: "queue_step q q' \<Longrightarrow> q_closed q \<Longrightarrow> q_closed q' \<and> q_accepted q' = q_accepted q"
  by (elim queue_stepE worker_stepE) (auto simp: Submit_def close_queue_def elim!: worker_stepE)

text \<open>
  The work left: a buffered job costs three steps of this weight, a worker that runs a job
  two, a waiting worker one.
\<close>

fun worker_work :: "'a worker \<Rightarrow> nat" where
  "worker_work Waiting = 1"
| "worker_work (Executing job) = 2"
| "worker_work Exited = 0"

definition work_left :: "'a queue \<Rightarrow> nat" where
  "work_left q = 3 * length (q_jobs q) + sum_list (map worker_work (q_workers q))"

lemma sum_list_update:
  "i < length ws \<Longrightarrow> sum_list (map f (ws[i := w])) + f (ws ! i) = sum_list (map f ws) + (f w :: nat)"
proof (induction ws arbitrary: i)
  case (Cons v ws)
  then show ?case by (cases i) auto
qed simp

lemma worker_step_work: "worker_step q q' \<Longrightarrow> work_left q' < work_left q"
proof (induction rule: worker_step.induct)
  case (receive i q job jobs)
  then show ?case
    using sum_list_update [of i "q_workers q" worker_work "Executing job"] by (simp add: work_left_def)
next
  case (execute i q job)
  then show ?case
    using sum_list_update [of i "q_workers q" worker_work Waiting] by (simp add: work_left_def)
next
  case (exit i q)
  then show ?case
    using sum_list_update [of i "q_workers q" worker_work Exited] by (simp add: work_left_def)
qed

lemma worker_progress: "q_closed q \<Longrightarrow> \<not> all_exited q \<Longrightarrow> \<exists>q'. worker_step q q'"
proof -
  assume closed: "q_closed q" and "\<not> all_exited q"
  then obtain i where i: "i < length (q_workers q)" "q_workers q ! i \<noteq> Exited"
    by (auto simp: all_exited_def list_all_length)
  show ?thesis
  proof (cases "q_workers q ! i")
    case Waiting
    then show ?thesis using i(1) closed by (cases "q_jobs q") (blast intro: worker_step.intros)+
  next
    case (Executing job)
    then show ?thesis using i(1) by (blast intro: worker_step.intros)
  qed (use i in simp)
qed

lemma worker_step_closed: "worker_step q q' \<Longrightarrow> q_closed q' = q_closed q"
  by (elim worker_stepE) simp_all

text \<open>
  C29. A closed queue drains: with the workers' own steps alone a state is reached in which
  \<open>Shutdown\<close> returns nil, and however the scheduler picks them, no more than
  \<open>work_left\<close> such steps can happen (a handler call is one step, so this assumes that
  handlers return).
\<close>

theorem Shutdown_terminates:
  "(\<exists>q'. worker_step\<^sup>*\<^sup>* (close_queue q) q' \<and> Shutdown_returns q' ctx None)
   \<and> {k. work_left q < k \<and> (\<exists>q'. (worker_step ^^ k) (close_queue q) q')} = {}"
proof
  have "\<exists>q'. worker_step\<^sup>*\<^sup>* q q' \<and> Shutdown_returns q' ctx None" if "q_closed q" for q :: "'a queue"
    using that
  proof (induction "work_left q" arbitrary: q rule: less_induct)
    case less
    show ?case
    proof (cases "all_exited q")
      case True
      then show ?thesis using less.prems by (auto simp: Shutdown_returns_nil)
    next
      case False
      then obtain p where p: "worker_step q p" using worker_progress less.prems by blast
      then have "\<exists>q'. worker_step\<^sup>*\<^sup>* p q' \<and> Shutdown_returns q' ctx None"
        using less worker_step_work worker_step_closed by metis
      with p show ?thesis by (meson converse_rtranclp_into_rtranclp)
    qed
  qed
  then show "\<exists>q'. worker_step\<^sup>*\<^sup>* (close_queue q) q' \<and> Shutdown_returns q' ctx None"
    by (simp add: close_queue_def)
next
  have bound: "(worker_step ^^ k) p q' \<Longrightarrow> k + work_left q' \<le> work_left p" for k and p q' :: "'a queue"
  proof (induction k arbitrary: q')
    case (Suc k)
    then obtain r where "(worker_step ^^ k) p r" "worker_step r q'" by auto
    then show ?case using Suc.IH worker_step_work by fastforce
  qed simp
  have "work_left (close_queue q) = work_left q" by (simp add: work_left_def close_queue_def)
  then show "{k. work_left q < k \<and> (\<exists>q'. (worker_step ^^ k) (close_queue q) q')} = {}"
    using bound [of _ "close_queue q"] by fastforce
qed

section \<open>A run\<close>

text \<open>One worker takes a job, finishes it and leaves after the queue is closed.\<close>

definition demo_running :: "nat queue" where
  "demo_running = \<lparr>q_jobs = [], q_size = 1, q_workers = [Executing 7], q_closed = False,
     q_accepted = [7], q_handled = []\<rparr>"

definition demo_drained :: "nat queue" where
  "demo_drained = \<lparr>q_jobs = [], q_size = 1, q_workers = [Exited], q_closed = True,
     q_accepted = [7], q_handled = [7]\<rparr>"

lemma demo_running_reachable: "reachable (new_queue 1 1) demo_running"
proof -
  let ?q0 = "new_queue 1 1 :: nat queue"
  have "reachable ?q0 (snd (Submit 7 ?q0))" by (rule reachable.step [OF reachable.start queue_step.submit])
  moreover have "worker_step (snd (Submit 7 ?q0)) demo_running"
    using worker_step.receive [of 0 "snd (Submit 7 ?q0)" 7 "[]"]
    by (simp add: new_queue_def Submit_def demo_running_def)
  ultimately show ?thesis by (blast intro: reachable.step queue_step.work)
qed

lemma demo_drained_reachable: "reachable (new_queue 1 1) demo_drained"
proof -
  let ?idle = "\<lparr>q_jobs = [], q_size = 1, q_workers = [Waiting], q_closed = False,
    q_accepted = [7], q_handled = [7]\<rparr> :: nat queue"
  have "worker_step demo_running ?idle"
    using worker_step.execute [of 0 demo_running 7] by (simp add: demo_running_def)
  then have "reachable (new_queue 1 1) ?idle"
    using demo_running_reachable by (blast intro: reachable.step queue_step.work)
  then have "reachable (new_queue 1 1) (close_queue ?idle)"
    by (rule reachable.step) (rule queue_step.close)
  moreover have "worker_step (close_queue ?idle) demo_drained"
    using worker_step.exit [of 0 "close_queue ?idle"] by (simp add: close_queue_def demo_drained_def)
  ultimately show ?thesis by (blast intro: reachable.step queue_step.work)
qed

theorem queue_no_loss_witness:
  "mset [7] = mset [] + running (q_workers demo_running) + mset (q_jobs demo_running)"
  using queue_no_loss [OF demo_running_reachable] by (simp add: demo_running_def)

theorem Shutdown_drains_witness:
  "mset (q_handled demo_drained) = mset (q_accepted demo_drained)
   \<and> Submit 9 demo_drained = (Some ErrQueueClosed, demo_drained)"
proof -
  have "Shutdown_returns demo_drained (None :: unit option) None"
    by (simp add: Shutdown_returns_nil all_exited_def demo_drained_def)
  then show ?thesis by (rule Shutdown_drains [OF demo_drained_reachable])
qed

section \<open>What a producer may rely on\<close>

text \<open>
  The contract of \<open>Submit\<close> towards the request handlers: it either takes the job, as the
  latest of the accepted ones, or leaves the queue as it was and says why.
\<close>

locale job_sink =
  fixes put :: "'a \<Rightarrow> 'q \<Rightarrow> 'e option \<times> 'q"
    and taken :: "'q \<Rightarrow> 'a list"
  assumes put_ok: "fst (put job q) = None \<Longrightarrow> taken (snd (put job q)) = taken q @ [job]"
    and put_refused: "fst (put job q) = Some err \<Longrightarrow> snd (put job q) = q"
begin

lemma put_taken: "taken (snd (put job q)) = taken q @ (if fst (put job q) = None then [job] else [])"
  using put_ok put_refused by (cases "fst (put job q)") auto

end

text \<open>A series of submissions, and the jobs of it that were refused.\<close>

fun put_all :: "('a \<Rightarrow> 'q \<Rightarrow> 'e option \<times> 'q) \<Rightarrow> 'a list \<Rightarrow> 'q \<Rightarrow> 'q" where
  "put_all put [] q = q"
| "put_all put (job # jobs) q = put_all put jobs (snd (put job q))"

fun refused :: "('a \<Rightarrow> 'q \<Rightarrow> 'e option \<times> 'q) \<Rightarrow> 'a list \<Rightarrow> 'q \<Rightarrow> 'a list" where
  "refused put [] q = []"
| "refused put (job # jobs) q =
     (if fst (put job q) = None then [] else [job]) @ refused put jobs (snd (put job q))"

context job_sink
begin

lemma put_all_taken: "\<exists>new. taken (put_all put jobs q) = taken q @ new \<and> subseq new jobs"
proof (induction jobs arbitrary: q)
  case (Cons job jobs)
  obtain new where new: "taken (put_all put jobs (snd (put job q))) = taken (snd (put job q)) @ new"
    "subseq new jobs" using Cons by blast
  then have "subseq ((if fst (put job q) = None then [job] else []) @ new) (job # jobs)"
    by (simp add: list_emb.list_emb_Cons)
  with new show ?case by (auto simp: put_taken)
qed simp

lemma put_all_count:
  "mset (taken (put_all put jobs q)) + mset (refused put jobs q) = mset (taken q) + mset jobs"
proof (induction jobs arbitrary: q)
  case (Cons job jobs)
  have "mset (taken (put_all put (job # jobs) q)) + mset (refused put (job # jobs) q)
      = (mset (taken (put_all put jobs (snd (put job q)))) + mset (refused put jobs (snd (put job q))))
        + mset (if fst (put job q) = None then [] else [job])" by simp
  also have "\<dots> = mset (taken q) + mset (job # jobs)"
    unfolding Cons by (simp add: put_taken)
  finally show ?case .
qed simp

end

interpretation store: job_sink Submit q_accepted
  by unfold_locales (auto simp: Submit_def split: if_splits)

text \<open>
  Over any series of submissions nothing is taken twice or forgotten: the jobs accepted
  are a subsequence of those submitted, in their order, and together with those refused they
  are all of them.
\<close>

theorem Submit_accounted:
  "(\<exists>new. q_accepted (put_all Submit jobs q) = q_accepted q @ new \<and> subseq new jobs)
   \<and> mset (q_accepted (put_all Submit jobs q)) + mset (refused Submit jobs q)
       = mset (q_accepted q) + mset jobs"
  using store.put_all_taken store.put_all_count by blast

end
