(* ===== verification/Response_Model.thy ===== *)
theory Response_Model
  imports Address_Model Go_Strings
begin

text \<open>
  The requests' checks and the response types of \<open>internal/model/model.go\<close>, the row that
  \<open>internal/database/database.go\<close> stores for a request, and the time stamp of a response
  (\<open>time.RFC3339\<close> of a UTC time).
\<close>

section \<open>Checking a request\<close>

definition int_d :: "int \<Rightarrow> gostring" where
  "int_d n = (if n < 0 then CHR ''-'' # nat_digits (nat (- n)) else nat_digits (nat n))"

definition AddressRequest_Validate :: "int \<Rightarrow> address_request \<Rightarrow> gostring option" where
  "AddressRequest_Validate maxLength r =
     (if req_Address r = [] then Some ''address is required''
      else if int (length (req_Address r)) > maxLength
      then Some (''address exceeds maximum length of '' @ int_d maxLength @ '' characters'')
      else None)"

record geocode_request =
  gq_Address :: gostring

definition GeocodeRequest_Validate :: "int \<Rightarrow> geocode_request \<Rightarrow> gostring option" where
  "GeocodeRequest_Validate maxLength r =
     (if gq_Address r = [] then Some ''address is required''
      else if int (length (gq_Address r)) > maxLength
      then Some (''address exceeds maximum length of '' @ int_d maxLength @ '' characters'')
      else None)"

section \<open>Responses\<close>

text \<open>The strings of the enumerations.\<close>

primrec component_string :: "admin_component \<Rightarrow> gostring" where
  "component_string ComponentProvince = ''province''"
| "component_string ComponentCity = ''city''"
| "component_string ComponentDistrict = ''district''"
| "component_string ComponentSubDistrict = ''sub_district''"
| "component_string ComponentPostalCode = ''postal_code''"

primrec reason_string :: "reason \<Rightarrow> gostring" where
  "reason_string ReasonExactMatch = ''exact_match''"
| "reason_string ReasonMatchProvince = ''match_province''"
| "reason_string ReasonMatchCity = ''match_city''"
| "reason_string ReasonMatchDistrict = ''match_district''"
| "reason_string ReasonMatchSubDistrict = ''match_subdistrict''"
| "reason_string ReasonPostalCodeExact = ''match_postal_code_exact''"
| "reason_string ReasonPostalCodePrefix4 = ''match_postal_code_prefix4''"
| "reason_string ReasonPostalCodePrefix3 = ''match_postal_code_prefix3''"
| "reason_string ReasonPostalCodeLookup = ''postal_code_lookup''"
| "reason_string ReasonPostalCodeInferred = ''postal_code_inferred''"

lemma component_string_inj: "component_string a = component_string b \<longleftrightarrow> a = b"
  by (cases a; cases b) simp_all

lemma reason_string_inj: "reason_string a = reason_string b \<longleftrightarrow> a = b"
  by (cases a; cases b) simp_all

record assessment =
  as_Matched :: "gostring list"
  as_Missing :: "gostring list"
  as_Conflicts :: "conflict list"
  as_Ambiguous :: "gostring list"

record resolution_candidate =
  rsc_UUID :: gostring
  rsc_Score :: float64
  rsc_Location :: location
  rsc_Reasons :: "gostring list"

record resolution =
  rn_Strategy :: "gostring list"
  rn_CandidateCount :: nat
  rn_Candidates :: "resolution_candidate list"

record fuzzy_correction =
  fuz_From :: gostring
  fuz_To :: gostring

record metadata =
  md_LocationSource :: gostring
  md_LocationVersion :: gostring
  md_FuzzyCorrections :: "fuzzy_correction list"

record response_data =
  rd_AddressID :: gostring
  rd_Status :: quality_status
  rd_Confidence :: float64
  rd_RawInput :: gostring
  rd_NormalizedInput :: gostring
  rd_FormattedAddr :: gostring
  rd_Location :: location
  rd_Assessment :: assessment
  rd_Resolution :: resolution
  rd_Metadata :: metadata

record address_response =
  ar_Timestamp :: gostring
  ar_RequestID :: gostring
  ar_Data :: response_data

section \<open>Time\<close>

text \<open>A UTC time, broken down; the year has four digits.\<close>

record utc_time =
  t_year :: nat
  t_month :: nat
  t_day :: nat
  t_hour :: nat
  t_minute :: nat
  t_second :: nat
  t_nanosecond :: nat

definition padded :: "nat \<Rightarrow> nat \<Rightarrow> gostring" where
  "padded width n = (let ds = nat_digits n in replicate (width - length ds) (CHR ''0'') @ ds)"

definition format_RFC3339 :: "utc_time \<Rightarrow> gostring" where
  "format_RFC3339 t = padded 4 (t_year t) @ ''-'' @ padded 2 (t_month t) @ ''-'' @ padded 2 (t_day t)
     @ ''T'' @ padded 2 (t_hour t) @ '':'' @ padded 2 (t_minute t) @ '':'' @ padded 2 (t_second t) @ ''Z''"

section \<open>The stored row\<close>

record address_record =
  rec_ID :: gostring
  rec_AddressID :: gostring
  rec_RawInput :: gostring
  rec_NormalizedAddr :: gostring
  rec_Confidence :: float64
  rec_PostalCode :: gostring
  rec_SubDistrict :: gostring
  rec_District :: gostring
  rec_City :: gostring
  rec_Province :: gostring
  rec_LocationVersion :: gostring
  rec_OutputJSON :: gostring
  rec_CreatedAt :: utc_time

text \<open>The JSON of the response data is the one thing taken from \<open>encoding/json\<close> as an argument.\<close>

definition buildAddressRecord ::
  "(response_data \<Rightarrow> gostring) \<Rightarrow> gostring \<Rightarrow> response_data \<Rightarrow> utc_time \<Rightarrow> address_record" where
  "buildAddressRecord json_Marshal requestID data now = \<lparr>
     rec_ID = requestID,
     rec_AddressID = rd_AddressID data,
     rec_RawInput = rd_RawInput data,
     rec_NormalizedAddr = rd_FormattedAddr data,
     rec_Confidence = rd_Confidence data,
     rec_PostalCode = l_PostalCode (rd_Location data),
     rec_SubDistrict = l_SubDistrict (rd_Location data),
     rec_District = l_District (rd_Location data),
     rec_City = l_City (rd_Location data),
     rec_Province = l_Province (rd_Location data),
     rec_LocationVersion = md_LocationVersion (rd_Metadata data),
     rec_OutputJSON = json_Marshal data,
     rec_CreatedAt = now\<rparr>"

end
