(* ===== verification/Validate_V1.thy ===== *)
theory Validate_V1
  imports Fuzzy_Context Store_Queue Response_Model Evaluate_Laws Score Evidence_Extraction
    "HOL-Library.List_Lexorder" "HOL-Library.Char_ord"
begin

text \<open>
  The whole request, \<open>ValidateAddressV1\<close> of \<open>internal/service/validate_v1.go\<close>, from the
  check of the request to the response and the stored record. What the run time and packages
  outside the repository decide is gathered in an \<open>environment\<close>: map orders, sorts, UUIDs,
  the HTML sanitizer, the clock and the JSON encoding. Logging and tracing spans are left out.
\<close>

section \<open>The surroundings of a request\<close>

record scored_candidate =
  sc_candidate :: admin_candidate
  sc_eval :: candidate_evaluation

record environment =
  env_orders :: range_orders
  env_merges :: "merge_order list"
  env_second_merges :: "merge_order list"
  env_addressID :: gostring
  env_uuids :: "nat \<Rightarrow> gostring"
  env_second_uuids :: "nat \<Rightarrow> gostring"
  env_sort_candidates :: "(admin_candidate \<Rightarrow> admin_candidate \<Rightarrow> bool) \<Rightarrow> admin_candidate list \<Rightarrow> admin_candidate list"
  env_sort_scored :: "(scored_candidate \<Rightarrow> scored_candidate \<Rightarrow> bool) \<Rightarrow> scored_candidate list \<Rightarrow> scored_candidate list"
  env_sort_corrections :: "(fuzzy_correction \<Rightarrow> fuzzy_correction \<Rightarrow> bool) \<Rightarrow> fuzzy_correction list \<Rightarrow> fuzzy_correction list"
  env_sanitize :: "gostring \<Rightarrow> gostring"
  env_now :: utc_time
  env_Marshal :: "response_data \<Rightarrow> gostring"

definition is_environment :: "environment \<Rightarrow> bool" where
  "is_environment env \<longleftrightarrow> is_range_orders (env_orders env) \<and> go_sort (env_sort_candidates env)
     \<and> go_sort (env_sort_scored env) \<and> go_sort (env_sort_corrections env)"

text \<open>\<open>errors.Join(ErrValidation, err)\<close>, or an error of the location repository as it is.\<close>

datatype v1_error = ErrValidation gostring | RepositoryError go_error

section \<open>Evaluating the candidates\<close>

definition ranks_before :: "scored_candidate \<Rightarrow> scored_candidate \<Rightarrow> bool" where
  "ranks_before a b =
     (if Confidence (sc_eval a) \<noteq> Confidence (sc_eval b)
      then Confidence (sc_eval b) < Confidence (sc_eval a)
      else let iCount = countNonNil (Location (sc_candidate a)); jCount = countNonNil (Location (sc_candidate b))
           in if iCount \<noteq> jCount then jCount < iCount
              else length (ce_Conflicts (sc_eval a)) < length (ce_Conflicts (sc_eval b)))"

text \<open>
  \<open>EvaluateCandidate\<close> works on the loop's copy of the candidate, so the scored candidate
  has the conflicts that it found.
\<close>

definition evaluateCandidates ::
  "environment \<Rightarrow> service \<Rightarrow> admin_candidate list \<Rightarrow> evidence list \<Rightarrow> scored_candidate list" where
  "evaluateCandidates env svc candidates evalEvidence =
     env_sort_scored env ranks_before
       (map (\<lambda>c. let eval = EvaluateCandidate (ro_counts (env_orders env)) c (hierarchyCache svc) evalEvidence
                 in \<lparr>sc_candidate = ce_Candidate eval, sc_eval = eval\<rparr>) candidates)"

definition evidenceWithoutValues :: "evidence list \<Rightarrow> gostring set \<Rightarrow> evidence list" where
  "evidenceWithoutValues evidences explained =
     (if explained = {} then evidences else filter (\<lambda>ev. ev_Value ev \<notin> explained) evidences)"

definition response_status :: "scored_candidate list \<Rightarrow> quality_status" where
  "response_status scored =
     (case scored of
        [] \<Rightarrow> StatusUnknown
      | [best] \<Rightarrow> Status (sc_eval best)
      | best # second # _ \<Rightarrow>
          if Status (sc_eval best) = StatusValid
             \<and> \<bar>fsub (Confidence (sc_eval best)) (Confidence (sc_eval second))\<bar> < rnd (1 / 10)
          then StatusAmbiguous else Status (sc_eval best))"

section \<open>The location\<close>

definition resolveLocationFromCandidate :: "scored_candidate option \<Rightarrow> location" where
  "resolveLocationFromCandidate winner =
     (case winner of
        None \<Rightarrow> empty_location
      | Some w \<Rightarrow>
          let c = Location (sc_candidate w) in
          \<lparr>l_PostalCode = (case PostalCode c of Some p \<Rightarrow> pc_Code p
              | None \<Rightarrow> (case SubDistrict c of Some s \<Rightarrow> s_PostalCode s | None \<Rightarrow> [])),
           l_SubDistrict = (case SubDistrict c of Some s \<Rightarrow> s_Name s | None \<Rightarrow> []),
           l_District = (case District c of Some d \<Rightarrow> d_Name d | None \<Rightarrow> []),
           l_City = (case City c of Some ct \<Rightarrow> ct_Name ct | None \<Rightarrow> []),
           l_Province = (case Province c of Some p \<Rightarrow> p_Name p | None \<Rightarrow> [])\<rparr>)"

definition formatLocation :: "location \<Rightarrow> gostring" where
  "formatLocation loc =
     (let parts = filter (\<lambda>s. s \<noteq> []) [l_SubDistrict loc, l_District loc, l_City loc, l_Province loc];
          formatted = join '', '' parts
      in if l_PostalCode loc \<noteq> [] then formatted @ '' '' @ l_PostalCode loc else formatted)"

text \<open>The range over the groups; strings are compared bytewise.\<close>

definition larger_group :: "gostring \<times> location list \<Rightarrow> gostring \<times> location list \<Rightarrow> gostring \<times> location list" where
  "larger_group best g =
     (if length (snd g) > length (snd best) \<or> length (snd g) = length (snd best) \<and> fst g < fst best
      then g else best)"

definition best_group :: "range_orders \<Rightarrow> location list \<Rightarrow> gostring \<times> location list" where
  "best_group ro results =
     foldl larger_group ([], []) (ro_groups ro (foldl (\<lambda>m r. map_append (l_District r) r m) [] results))"

definition resolveLocationByPostalCode ::
  "range_orders \<Rightarrow> location_repository \<Rightarrow> location \<Rightarrow> gostring \<Rightarrow> int64 \<Rightarrow> go_error + location \<times> bool" where
  "resolveLocationByPostalCode ro repo loc normalized sourceID =
     (let inputPostalCode = extractPostalCode normalized in
      if inputPostalCode = [] then Inr (loc, False)
      else if loc = empty_location then
        (case FindByPostalCode repo inputPostalCode sourceID of
           Inl err \<Rightarrow> Inl err
         | Inr results \<Rightarrow>
             if results = [] then Inr (loc, False) else Inr (hd (snd (best_group ro results)), True))
      else if l_PostalCode loc = [] \<and> l_SubDistrict loc = []
      then Inr (loc\<lparr>l_PostalCode := inputPostalCode\<rparr>, True)
      else Inr (loc, False))"

definition sortedFuzzyCorrections ::
  "environment \<Rightarrow> (gostring \<times> gostring) list \<Rightarrow> fuzzy_correction list" where
  "sortedFuzzyCorrections env corrections =
     (if corrections = [] then []
      else env_sort_corrections env (\<lambda>a b. fuz_From a < fuz_From b)
        (map (\<lambda>(f, t). \<lparr>fuz_From = f, fuz_To = t\<rparr>) (ro_corrections (env_orders env) corrections)))"

section \<open>The request\<close>

definition resolveEvidenceStage ::
  "environment \<Rightarrow> int64 \<Rightarrow> gostring \<Rightarrow> gostring \<Rightarrow> gostring set \<Rightarrow> service
     \<Rightarrow> (resolved_evidence list option \<times> evidence list) \<times> service" where
  "resolveEvidenceStage env sourceID normalized compactMatchText roadTokens svc =
     (let evidences = ExtractEvidence normalized;
          (resolved, svc) = ResolveEvidence (env_orders env) sourceID evidences normalized compactMatchText roadTokens svc
      in ((resolved, evidences), svc))"

definition resolved_list :: "resolved_evidence list option \<Rightarrow> resolved_evidence list" where
  "resolved_list res = (case res of None \<Rightarrow> [] | Some r \<Rightarrow> r)"

text \<open>From the resolved evidence to the ranked candidates, with the second pass.\<close>

definition rank_candidates ::
  "environment \<Rightarrow> resolved_evidence list option \<Rightarrow> evidence list \<Rightarrow> gostring \<Rightarrow> gostring set \<Rightarrow> service
     \<Rightarrow> (scored_candidate list \<times> (gostring \<times> gostring) list) \<times> service" where
  "rank_candidates env resolved evidences normalized roadTokens svc =
     (let candidates = buildCandidates (env_uuids env) (env_merges env) (env_sort_candidates env) svc resolved;
          ((recovered, fuzzyCorrections, fuzzyExplained), svc) =
            RecoverContextualEvidence (env_orders env) candidates (resolved_list resolved) normalized roadTokens svc;
          candidates = (if recovered \<noteq> []
            then buildCandidates (env_second_uuids env) (env_second_merges env) (env_sort_candidates env) svc
                   (Some (resolved_list resolved @ recovered))
            else candidates)
      in ((evaluateCandidates env svc candidates (evidenceWithoutValues evidences fuzzyExplained),
           fuzzyCorrections), svc))"

text \<open>
  The zero value of the evaluation; of its fields the response reads neither the status nor the
  candidate, whose strings are empty in the code.
\<close>

definition empty_evaluation :: candidate_evaluation where
  "empty_evaluation = \<lparr>ce_Candidate = \<lparr>cand_UUID = [], OriginLevel = OriginProvince, Location = empty_admin_location,
       Evidence = [], DiscoveryStrategies = []\<rparr>,
     Confidence = 0, Status = StatusUnknown, Matched = [], Missing = [], UnusedEvidence = [],
     ce_Conflicts = [], Reasons = []\<rparr>"

text \<open>The reason that a postal code lookup leaves: with the winner, or with no candidate at all.\<close>

definition note_lookup :: "scored_candidate list \<Rightarrow> scored_candidate list" where
  "note_lookup scored =
     (case scored of [] \<Rightarrow> []
      | w # rest \<Rightarrow> w\<lparr>sc_eval := (sc_eval w)\<lparr>Reasons := Reasons (sc_eval w) @ [ReasonPostalCodeLookup]\<rparr>\<rparr> # rest)"

definition final_evaluation :: "bool \<Rightarrow> scored_candidate list \<Rightarrow> candidate_evaluation" where
  "final_evaluation applied scored =
     (case scored of
        [] \<Rightarrow> (if applied then empty_evaluation\<lparr>Reasons := [ReasonPostalCodeInferred]\<rparr> else empty_evaluation)
      | w # _ \<Rightarrow> sc_eval w)"

definition resolution_candidates :: "scored_candidate list \<Rightarrow> resolution_candidate list" where
  "resolution_candidates scored =
     map (\<lambda>s. \<lparr>rsc_UUID = cand_UUID (sc_candidate s), rsc_Score = Confidence (sc_eval s),
            rsc_Location = resolveLocationFromCandidate (Some s),
            rsc_Reasons = map reason_string (Reasons (sc_eval s))\<rparr>)
       (filter (\<lambda>s. Province (Location (sc_candidate s)) \<noteq> None) scored)"

definition build_response_data ::
  "environment \<Rightarrow> address_request \<Rightarrow> gostring \<Rightarrow> gostring \<Rightarrow> gostring \<Rightarrow> quality_status
     \<Rightarrow> scored_candidate list \<Rightarrow> candidate_evaluation \<Rightarrow> location \<Rightarrow> (gostring \<times> gostring) list \<Rightarrow> response_data" where
  "build_response_data env req normalized code version status scored eval loc corrections =
     \<lparr>rd_AddressID = env_addressID env,
      rd_Status = status,
      rd_Confidence = Confidence eval,
      rd_RawInput = req_Address req,
      rd_NormalizedInput = normalized,
      rd_FormattedAddr = formatLocation loc,
      rd_Location = loc,
      rd_Assessment = \<lparr>as_Matched = map component_string (Matched eval),
        as_Missing = map component_string (Missing eval), as_Conflicts = ce_Conflicts eval,
        as_Ambiguous = map ev_Value (UnusedEvidence eval)\<rparr>,
      rd_Resolution = \<lparr>rn_Strategy = map reason_string (Reasons eval),
        rn_CandidateCount = length (resolution_candidates scored), rn_Candidates = resolution_candidates scored\<rparr>,
      rd_Metadata = \<lparr>md_LocationSource = code, md_LocationVersion = version,
        md_FuzzyCorrections = sortedFuzzyCorrections env corrections\<rparr>\<rparr>"

definition store_response ::
  "environment \<Rightarrow> gostring \<Rightarrow> response_data \<Rightarrow> service \<Rightarrow> address_record queue \<Rightarrow> address_record queue" where
  "store_response env requestID data svc q =
     (if enableStoreRequest svc
      then snd (Submit (buildAddressRecord (env_Marshal env) requestID data (env_now env)) q) else q)"

definition ValidateAddressV1 ::
  "environment \<Rightarrow> location_repository \<Rightarrow> address_request \<Rightarrow> gostring \<Rightarrow> service \<times> address_record queue
     \<Rightarrow> (v1_error + address_response) \<times> service \<times> address_record queue" where
  "ValidateAddressV1 env repo req requestID st =
     (let (svc, q) = st in
      case AddressRequest_Validate (maxAddressLength svc) req of
        Some err \<Rightarrow> (Inl (ErrValidation err), svc, q)
      | None \<Rightarrow>
          let sanitized = env_sanitize env (req_Address req);
              normalized = Normalize sanitized;
              code = (if req_SourceCode req = [] then sourceCode svc else req_SourceCode req)
          in case sourceAndCaches repo code svc of
               (Inl err, svc) \<Rightarrow> (Inl (RepositoryError err), svc, q)
             | (Inr (sourceID, version), svc) \<Rightarrow>
                 let roadTokens = detectRoadContextTokens sanitized;
                     compactMatchText = Normalize (stripRoadContext sanitized);
                     ((resolved, evidences), svc) =
                       resolveEvidenceStage env sourceID normalized compactMatchText roadTokens svc;
                     ((scored, corrections), svc) =
                       rank_candidates env resolved evidences normalized roadTokens svc;
                     status = response_status scored;
                     loc = resolveLocationFromCandidate (case scored of [] \<Rightarrow> None | w # _ \<Rightarrow> Some w)
                 in case resolveLocationByPostalCode (env_orders env) repo loc normalized sourceID of
                      Inl err \<Rightarrow> (Inl (RepositoryError err), svc, q)
                    | Inr (loc, applied) \<Rightarrow>
                        let scored = (if applied then note_lookup scored else scored);
                            eval = final_evaluation applied scored;
                            data = build_response_data env req normalized code version status scored eval loc corrections
                        in (Inr \<lparr>ar_Timestamp = format_RFC3339 (env_now env), ar_RequestID = requestID, ar_Data = data\<rparr>,
                            svc, store_response env requestID data svc q))"

end
