(* ===== verification/Service_Invariant.thy ===== *)
theory Service_Invariant
  imports Validate_V1
begin

text \<open>
  What every request keeps of the service: the identifier indexes and caches are well formed,
  the two phrase dictionaries agree, the child indexes, once built, are those of the hierarchy,
  and the configuration does not change. With it the components' properties hold at every
  request of a running service, not only at its first.
\<close>

definition loaded :: "service \<Rightarrow> bool" where
  "loaded svc \<longleftrightarrow> cityOnce svc \<and> districtOnce svc \<and> subDistrictOnce svc \<and> hierarchyOnce svc"

definition children_built :: "service \<Rightarrow> bool" where
  "children_built svc \<longleftrightarrow> loaded svc \<and> (\<exists>h. hierarchyCache svc = Some h \<and> children_ok h svc)"

definition service_ok :: "service \<Rightarrow> bool" where
  "service_ok svc \<longleftrightarrow> indexes_ok svc \<and> caches_distinct svc \<and> dicts_agree svc
     \<and> (childrenOnce svc \<longrightarrow> children_built svc)"

definition config :: "service \<Rightarrow> int \<times> gostring \<times> bool" where
  "config svc = (maxAddressLength svc, sourceCode svc, enableStoreRequest svc)"

lemma service_ok_new: "service_ok (new_service n code store)"
  by (simp add: service_ok_def indexes_ok_new new_service_distinct dicts_agree_new) (simp add: new_service_def)

section \<open>Loading\<close>

lemma children_built_loads:
  "children_built s \<Longrightarrow> children_built (snd (ensureProvincesLoaded repo s))"
  "children_built s \<Longrightarrow> children_built (snd (ensureCitiesLoaded repo s))"
  "children_built s \<Longrightarrow> children_built (snd (ensureDistrictsLoaded repo sid s))"
  "children_built s \<Longrightarrow> children_built (snd (ensureSubDistrictsLoaded repo sid s))"
  "children_built s \<Longrightarrow> children_built (snd (ensureHierarchyLoaded repo sid s))"
  "children_built s \<Longrightarrow> children_built (snd (ensureCityPriorityLoaded repo sid s))"
  by (auto simp: ensure_defs Let_def children_built_def loaded_def children_ok_def split: sum.split)

lemma childrenOnce_loads [simp]:
  "childrenOnce (snd (ensureProvincesLoaded repo s)) = childrenOnce s"
  "childrenOnce (snd (ensureCitiesLoaded repo s)) = childrenOnce s"
  "childrenOnce (snd (ensureDistrictsLoaded repo sid s)) = childrenOnce s"
  "childrenOnce (snd (ensureSubDistrictsLoaded repo sid s)) = childrenOnce s"
  "childrenOnce (snd (ensureHierarchyLoaded repo sid s)) = childrenOnce s"
  "childrenOnce (snd (ensureCityPriorityLoaded repo sid s)) = childrenOnce s"
  by (simp_all add: ensure_defs Let_def split: sum.split)

lemma config_loads [simp]:
  "config (snd (ensureProvincesLoaded repo s)) = config s"
  "config (snd (ensureCitiesLoaded repo s)) = config s"
  "config (snd (ensureDistrictsLoaded repo sid s)) = config s"
  "config (snd (ensureSubDistrictsLoaded repo sid s)) = config s"
  "config (snd (ensureHierarchyLoaded repo sid s)) = config s"
  "config (snd (ensureCityPriorityLoaded repo sid s)) = config s"
  by (simp_all add: ensure_defs Let_def config_def split: sum.split)

definition children_inv :: "int \<times> gostring \<times> bool \<Rightarrow> service \<Rightarrow> bool" where
  "children_inv c svc \<longleftrightarrow> (childrenOnce svc \<longrightarrow> children_built svc) \<and> config svc = c"

lemma children_inv_caches:
  "children_inv c s \<Longrightarrow> children_inv c (snd (ensureEntitiesCachesLoaded repo sid s))"
  unfolding ensureEntitiesCachesLoaded_def
  by (intro and_then_invariant [where P = "children_inv c"]) (auto simp: children_inv_def children_built_loads)

lemma service_ok_caches:
  assumes "service_ok s"
  shows "service_ok (snd (ensureEntitiesCachesLoaded repo sid s))
    \<and> config (snd (ensureEntitiesCachesLoaded repo sid s)) = config s"
proof -
  have "children_inv (config s) (snd (ensureEntitiesCachesLoaded repo sid s))"
    using assms by (intro children_inv_caches) (simp add: children_inv_def service_ok_def)
  then show ?thesis
    using assms by (simp add: service_ok_def children_inv_def ensureEntitiesCachesLoaded_indexes
        ensureEntitiesCachesLoaded_distinct dicts_agree_caches)
qed

lemma and_then_None:
  "fst (and_then f g s) = None \<Longrightarrow> snd (and_then f g s) = snd (g (snd (f s))) \<and> fst (g (snd (f s))) = None"
  by (simp add: and_then_def split_beta split: option.splits)

lemma Once_loads [simp]:
  "cityOnce (snd (ensureCitiesLoaded repo s))"
  "districtOnce (snd (ensureDistrictsLoaded repo sid s))"
  "subDistrictOnce (snd (ensureSubDistrictsLoaded repo sid s))"
  "hierarchyOnce (snd (ensureHierarchyLoaded repo sid s))"
  "cityOnce (snd (ensureDistrictsLoaded repo sid s)) = cityOnce s"
  "cityOnce (snd (ensureSubDistrictsLoaded repo sid s)) = cityOnce s"
  "cityOnce (snd (ensureHierarchyLoaded repo sid s)) = cityOnce s"
  "cityOnce (snd (ensureCityPriorityLoaded repo sid s)) = cityOnce s"
  "districtOnce (snd (ensureSubDistrictsLoaded repo sid s)) = districtOnce s"
  "districtOnce (snd (ensureHierarchyLoaded repo sid s)) = districtOnce s"
  "districtOnce (snd (ensureCityPriorityLoaded repo sid s)) = districtOnce s"
  "subDistrictOnce (snd (ensureHierarchyLoaded repo sid s)) = subDistrictOnce s"
  "subDistrictOnce (snd (ensureCityPriorityLoaded repo sid s)) = subDistrictOnce s"
  "hierarchyOnce (snd (ensureCityPriorityLoaded repo sid s)) = hierarchyOnce s"
  by (simp_all add: ensure_defs Let_def split: sum.split)

lemma caches_loaded:
  assumes "fst (ensureEntitiesCachesLoaded repo sid s) = None"
  shows "loaded (snd (ensureEntitiesCachesLoaded repo sid s))"
proof -
  note step = and_then_None
  from step [OF assms [unfolded ensureEntitiesCachesLoaded_def]]
  show ?thesis
    unfolding ensureEntitiesCachesLoaded_def
    by (auto simp: loaded_def dest!: step)
qed

section \<open>Resolution\<close>

lemma service_ok_frame:
  assumes "service_ok s"
    and "provinceByID s' = provinceByID s" "cityByID s' = cityByID s" "districtByID s' = districtByID s"
    and "subDistrictByID s' = subDistrictByID s" "provinceCache s' = provinceCache s" "cityCache s' = cityCache s"
    and "districtCache s' = districtCache s" "subDistrictCache s' = subDistrictCache s"
    and "hierarchyCache s' = hierarchyCache s" "loaded s' = loaded s" "childrenOnce s' = childrenOnce s"
    and "citiesByProvince s' = citiesByProvince s" "districtsByCity s' = districtsByCity s"
    and "subDistrictsByDistrict s' = subDistrictsByDistrict s" and "dicts_agree s'"
  shows "service_ok s'"
  using assms unfolding service_ok_def indexes_ok_def caches_distinct_def children_built_def children_ok_def
  by simp

lemma service_ok_phrases:
  assumes "is_range_orders ro" "service_ok s"
  shows "service_ok (snd (ensurePhraseDictLoaded ro s))"
  using dicts_agree_phrases [OF assms(1)] assms(2)
  by (intro service_ok_frame [OF assms(2)])
    (simp_all add: ensurePhraseDictLoaded_def loadPhraseDict_def Let_def loaded_def service_ok_def)

lemma service_ok_compact:
  assumes "is_range_orders ro" "service_ok s"
  shows "service_ok (snd (matchCompactPhrases ro sid ctext s))"
  using dicts_agree_compact [OF assms(1)] assms(2)
  by (intro service_ok_frame [OF assms(2)])
    (simp_all add: matchCompactPhrases_def Let_def loaded_def service_ok_def)

lemma loaded_resolve [simp]:
  "loaded (snd (ensurePhraseDictLoaded ro s)) = loaded s"
  "loaded (snd (matchCompactPhrases ro sid ctext s)) = loaded s"
  "config (snd (ensurePhraseDictLoaded ro s)) = config s"
  "config (snd (matchCompactPhrases ro sid ctext s)) = config s"
  by (simp_all add: ensurePhraseDictLoaded_def loadPhraseDict_def matchCompactPhrases_def Let_def loaded_def config_def)

lemma service_ok_resolve:
  assumes "is_range_orders ro" "service_ok s"
  shows "service_ok (snd (ResolveEvidence ro sid evs words cwords roads s))
    \<and> loaded (snd (ResolveEvidence ro sid evs words cwords roads s)) = loaded s
    \<and> config (snd (ResolveEvidence ro sid evs words cwords roads s)) = config s"
proof -
  from assms(2) have "phraseDictErr s = None" by (simp add: service_ok_def dicts_agree_def)
  then obtain s' where s': "s' = snd (ensurePhraseDictLoaded ro s)"
    and "ResolveEvidence ro sid evs words cwords roads s =
      (if hasHierarchyCompatibleExactSubdistrict s' (literal_pass ro sid evs words roads s')
       then (Some (literal_pass ro sid evs words roads s'), s')
       else (Some (map (add_respaced (fst (matchCompactPhrases ro sid cwords s'))) (literal_pass ro sid evs words roads s')),
             snd (matchCompactPhrases ro sid cwords s')))"
    by (rule ResolveEvidence_cases)
  then have "snd (ResolveEvidence ro sid evs words cwords roads s) \<in> {s', snd (matchCompactPhrases ro sid cwords s')}"
    by simp
  moreover have "service_ok s'" unfolding s' using assms by (rule service_ok_phrases)
  ultimately show ?thesis using service_ok_compact [OF assms(1)] by (auto simp: s')
qed

section \<open>Recovery\<close>

lemma service_ok_children:
  assumes "is_range_orders ro" "service_ok s" "loaded s" "hierarchyCache s = Some h"
  shows "service_ok (ensureChildrenIndexesLoaded ro s)"
proof -
  have "childrenOnce s \<Longrightarrow> children_ok h s"
    using assms(2,4) by (auto simp: service_ok_def children_built_def)
  with assms(1,4) have "children_ok h (ensureChildrenIndexesLoaded ro s)" by (intro ensureChildren_ok)
  moreover have "loaded (ensureChildrenIndexesLoaded ro s) = loaded s"
    by (simp add: loaded_def ensureChildrenIndexesLoaded_def loadChildrenIndexes_def split: option.split)
  ultimately have "children_built (ensureChildrenIndexesLoaded ro s)"
    using assms(3,4) by (simp add: children_built_def)
  moreover have "indexes_ok (ensureChildrenIndexesLoaded ro s)" "caches_distinct (ensureChildrenIndexesLoaded ro s)"
    "dicts_agree (ensureChildrenIndexesLoaded ro s)"
    using assms(2) by (auto simp: service_ok_def indexes_ok_def caches_distinct_def dicts_agree_def compact_ok_def
        ensureChildrenIndexesLoaded_def loadChildrenIndexes_def split: option.split)
  ultimately show ?thesis by (simp add: service_ok_def)
qed

lemma ensureChildren_config [simp]:
  "loaded (ensureChildrenIndexesLoaded ro s) = loaded s"
  "config (ensureChildrenIndexesLoaded ro s) = config s"
  by (simp_all add: loaded_def config_def ensureChildrenIndexesLoaded_def loadChildrenIndexes_def split: option.split)

text \<open>The part of the invariant that holds between the load of the caches and the response.\<close>

definition serving :: "int \<times> gostring \<times> bool \<Rightarrow> service \<Rightarrow> bool" where
  "serving c s \<longleftrightarrow> service_ok s \<and> loaded s \<and> config s = c"

lemma serving_neighborhood:
  "is_range_orders ro \<Longrightarrow> serving c s \<Longrightarrow> serving c (snd (candidateNeighborhood ro cand s))"
  by (auto simp: candidateNeighborhood_def serving_def Let_def service_ok_children)

lemma serving_frontier:
  assumes "is_range_orders ro" "serving c s"
  shows "serving c (snd (frontier_entities ro frontier s))"
proof -
  have "serving c (snd (foldl (\<lambda>(entities, svc) fc.
      let (es, svc) = candidateNeighborhood ro (cc_Candidate fc) svc
      in (appendUniqueEntities entities es, svc)) (es, s) frontier))" if "serving c s" for es s
    using that
  proof (induction frontier arbitrary: es s)
    case (Cons fc frontier)
    show ?case
      using Cons.IH [OF serving_neighborhood [OF assms(1) Cons.prems, of "cc_Candidate fc"]]
      by (simp add: Let_def split_beta)
  qed simp
  from this [OF assms(2)] show ?thesis by (simp only: frontier_entities_def)
qed

lemma serving_recover:
  assumes "is_range_orders ro" "serving c s"
  shows "serving c (snd (RecoverContextualEvidence ro cands res words roads s))"
  using serving_frontier [OF assms] assms(2)
  by (simp add: RecoverContextualEvidence_def Let_def split_beta)

end
