(* ===== verification/Validate_Laws.thy ===== *)
theory Validate_Laws
  imports Service_Invariant
begin

text \<open>
  Properties of a request: the choice of a location by postal code, the ranking of the
  candidates and the status, what an error leaves behind, what is stored, and the invariant
  that requests keep of the service.
\<close>

section \<open>The postal code fallback\<close>

definition better_group :: "gostring \<times> location list \<Rightarrow> gostring \<times> location list \<Rightarrow> bool" where
  "better_group g h \<longleftrightarrow> length (snd h) < length (snd g) \<or> length (snd g) = length (snd h) \<and> fst g < fst h"

lemma larger_group_better: "larger_group best g = (if better_group g best then g else best)"
  by (simp add: larger_group_def better_group_def)

lemma foldl_larger_group:
  "foldl larger_group b gs \<in> insert b (set gs) \<and> (\<forall>g\<in>insert b (set gs). \<not> better_group g (foldl larger_group b gs))"
proof (induction gs arbitrary: b)
  case Nil
  show ?case by (simp add: better_group_def)
next
  case (Cons g gs)
  let ?b = "larger_group b g"
  have le: "\<not> better_group g ?b" "\<not> better_group b ?b"
    by (auto simp: larger_group_better better_group_def)
  have tr: "\<not> better_group x y \<Longrightarrow> \<not> better_group y z \<Longrightarrow> \<not> better_group x z" for x y z
    by (auto simp: better_group_def not_less)
  have "?b = b \<or> ?b = g" by (simp add: larger_group_better)
  with Cons [of ?b] le tr show ?case by auto
qed

lemma district_groups:
  "get_list (foldl (\<lambda>m r. map_append (l_District r) r m) m rs) d
     = get_list m d @ filter (\<lambda>r. l_District r = d) rs"
  by (induction rs arbitrary: m) (auto simp: get_list_append)

text \<open>
  C30. Without any other location the lookup answers with the first result, in the repository's
  order, of the district that has the most results, the bytewise smallest of such districts;
  the order in which the groups are ranged over has no part in it.
\<close>

theorem resolveLocationByPostalCode_choice:
  assumes "is_range_orders ro" and "extractPostalCode normalized \<noteq> []"
    and "FindByPostalCode repo (extractPostalCode normalized) sid = Inr results" and "results \<noteq> []"
  shows "\<exists>loc. resolveLocationByPostalCode ro repo empty_location normalized sid = Inr (loc, True)
    \<and> (let count = (\<lambda>d. length (filter (\<lambda>r. l_District r = d) results)) in
       loc = hd (filter (\<lambda>r. l_District r = l_District loc) results) \<and> loc \<in> set results
     \<and> list_all (\<lambda>r. count (l_District r) < count (l_District loc)
          \<or> count (l_District r) = count (l_District loc) \<and> l_District loc \<le> l_District r) results)"
proof -
  define groups where "groups = foldl (\<lambda>m r. map_append (l_District r) r m) [] results"
  have dist: "distinct (map fst groups)" unfolding groups_def by (rule distinct_foldl_map_append) simp
  have get: "get_list groups d = filter (\<lambda>r. l_District r = d) results" for d
    by (simp add: groups_def district_groups)
  have dom: "fst ` set groups = l_District ` set results"
    unfolding groups_def by (simp add: dom_foldl_map_append)
  have group: "locs = filter (\<lambda>r. l_District r = d) results" if "(d, locs) \<in> set groups" for d locs
    using that dist get [of d] by (simp add: get_list_def)
  have set: "set (ro_groups ro groups) = set groups"
    using assms(1) by (simp add: is_range_orders_def is_order_set)
  obtain d locs where best: "best_group ro results = (d, locs)" by (cases "best_group ro results")
  have fold: "(d, locs) \<in> insert ([], []) (set groups)"
    "g \<in> insert ([], []) (set groups) \<Longrightarrow> \<not> better_group g (d, locs)" for g
    using foldl_larger_group [of "([], [])" "ro_groups ro groups"] best
    unfolding best_group_def groups_def [symmetric] set by auto
  have other: "\<exists>g. (l_District r, g) \<in> set groups" if "r \<in> set results" for r
    using dom that by (metis (no_types, lifting) imageE imageI prod.collapse)
  have r0: "hd results \<in> set results" using assms(4) by simp
  then obtain g0 where "(l_District (hd results), g0) \<in> set groups" using other by blast
  moreover from group [OF this] r0 have "g0 \<noteq> []" by (auto simp: filter_empty_conv)
  ultimately have "locs \<noteq> []" using fold(2) [of "(l_District (hd results), g0)"] by (auto simp: better_group_def)
  then have locs: "locs = filter (\<lambda>r. l_District r = d) results" using fold(1) group by auto
  define loc where "loc = hd locs"
  have loc: "loc \<in> set results" "l_District loc = d"
    using hd_in_set [OF \<open>locs \<noteq> []\<close>] unfolding loc_def locs by auto
  have "list_all (\<lambda>r. length (filter (\<lambda>x. l_District x = l_District r) results) < length locs
      \<or> length (filter (\<lambda>x. l_District x = l_District r) results) = length locs \<and> d \<le> l_District r) results"
    unfolding list_all_iff
  proof
    fix r assume "r \<in> set results"
    from other [OF this] obtain g where g: "(l_District r, g) \<in> set groups" by blast
    with fold(2) [of "(l_District r, g)"] group [OF g]
    show "length (filter (\<lambda>x. l_District x = l_District r) results) < length locs
      \<or> length (filter (\<lambda>x. l_District x = l_District r) results) = length locs \<and> d \<le> l_District r"
      by (auto simp: better_group_def not_less)
  qed
  moreover have "resolveLocationByPostalCode ro repo empty_location normalized sid = Inr (loc, True)"
    using assms by (simp add: resolveLocationByPostalCode_def best loc_def)
  ultimately show ?thesis using loc by (intro exI [of _ loc]) (simp add: Let_def locs [symmetric] loc_def)
qed

definition demo_places :: "location list" where
  "demo_places = [empty_location\<lparr>l_District := ''Coblong'', l_PostalCode := ''40132''\<rparr>,
     empty_location\<lparr>l_District := ''Bandung Wetan'', l_PostalCode := ''40132''\<rparr>]"

definition demo_repository :: location_repository where
  "demo_repository = \<lparr>FindAllProvinces = Inr [], FindAllCities = Inr [], FindAllDistricts = (\<lambda>_. Inr []),
     FindAllSubDistricts = (\<lambda>_. Inr []), FindByPostalCode = (\<lambda>_ _. Inr demo_places),
     FindSourceByCode = (\<lambda>_. Inr (1, ''2025'')),
     LoadFullHierarchy = (\<lambda>_. Inr \<lparr>CityToProvince = Map.empty, DistrictToCity = Map.empty, SubDistrictToDist = Map.empty\<rparr>),
     FindAllCityPriority = (\<lambda>_. Inr [])\<rparr>"

theorem resolveLocationByPostalCode_choice_witness:
  "\<exists>loc. resolveLocationByPostalCode insertion_orders demo_repository empty_location ''40132'' 1 = Inr (loc, True)
     \<and> l_District loc \<le> ''Coblong''"
proof -
  have pc: "extractPostalCode ''40132'' = ''40132''" by code_simp
  then have "extractPostalCode ''40132'' \<noteq> []"
    and "FindByPostalCode demo_repository (extractPostalCode ''40132'') 1 = Inr demo_places"
    and "demo_places \<noteq> []"
    by (simp_all add: demo_repository_def demo_places_def)
  from resolveLocationByPostalCode_choice [OF insertion_orders_ok this] obtain loc where
    l: "resolveLocationByPostalCode insertion_orders demo_repository empty_location ''40132'' 1 = Inr (loc, True)"
    and all: "list_all (\<lambda>r. length (filter (\<lambda>x. l_District x = l_District r) demo_places)
          < length (filter (\<lambda>x. l_District x = l_District loc) demo_places)
        \<or> length (filter (\<lambda>x. l_District x = l_District r) demo_places)
          = length (filter (\<lambda>x. l_District x = l_District loc) demo_places) \<and> l_District loc \<le> l_District r) demo_places"
    by (auto simp: Let_def)
  have "length (filter (\<lambda>x. l_District x = l_District loc) demo_places) \<le> 1"
    by (cases "l_District loc = ''Coblong''") (auto simp: demo_places_def)
  moreover have "length (filter (\<lambda>x. l_District x = ''Coblong'') demo_places) = 1"
    by (simp add: demo_places_def)
  ultimately have "l_District loc \<le> ''Coblong''"
    using all by (auto simp: demo_places_def)
  with l show ?thesis by blast
qed

section \<open>Ranking and status\<close>

text \<open>The confidence in whole hundredths.\<close>

definition points :: "evidence list \<Rightarrow> scored_candidate \<Rightarrow> int" where
  "points evs s = confidence_points (sc_candidate s) (if evs \<noteq> [] then length (UnusedEvidence (sc_eval s)) else 0)"

definition outranks :: "evidence list \<Rightarrow> scored_candidate \<Rightarrow> scored_candidate \<Rightarrow> bool" where
  "outranks evs a b \<longleftrightarrow>
     (if points evs a \<noteq> points evs b then points evs b < points evs a
      else if countNonNil (Location (sc_candidate a)) \<noteq> countNonNil (Location (sc_candidate b))
      then countNonNil (Location (sc_candidate b)) < countNonNil (Location (sc_candidate a))
      else length (ce_Conflicts (sc_eval a)) < length (ce_Conflicts (sc_eval b)))"

definition score_candidate ::
  "environment \<Rightarrow> service \<Rightarrow> evidence list \<Rightarrow> admin_candidate \<Rightarrow> scored_candidate" where
  "score_candidate env svc evs c =
     (let eval = EvaluateCandidate (ro_counts (env_orders env)) c (hierarchyCache svc) evs
      in \<lparr>sc_candidate = ce_Candidate eval, sc_eval = eval\<rparr>)"

lemma confidence_points_bound:
  "raw_points c \<ge> 0 \<Longrightarrow> n \<le> 2 ^ 30 \<Longrightarrow> \<bar>100 * confidence_points c n\<bar> \<le> 2 ^ 40"
  by (auto simp: confidence_points_def)

lemma raw_points_nonneg: "0 \<le> raw_points c"
  using raw_score_inv [of "\<lambda>x. x" c] by (simp add: score_inv_def)

lemma unused_length:
  "length (UnusedEvidence (EvaluateCandidate ord c h evs)) \<le> length evs"
  by (simp add: EvaluateCandidate_def Let_def evaluateEvidenceCoverage_def)

lemma scored_confidence:
  assumes "is_order (ro_counts (env_orders env))" and "length evs \<le> 2 ^ 30"
  shows "Confidence (sc_eval (score_candidate env svc evs c)) = basis_points (100 * points evs (score_candidate env svc evs c))"
    and "\<bar>100 * points evs (score_candidate env svc evs c)\<bar> \<le> 2 ^ 40"
proof -
  let ?e = "EvaluateCandidate (ro_counts (env_orders env)) c (hierarchyCache svc) evs"
  have n: "length (UnusedEvidence ?e) \<le> 2 ^ 30"
    using unused_length assms(2) by (rule order_trans)
  have "Confidence ?e = scoreConfidence (ro_counts (env_orders env)) (ce_Candidate ?e) (UnusedEvidence ?e) (0 < length evs)"
    by (simp add: EvaluateCandidate_def Let_def)
  with confidence_exact [OF assms(1) n]
  show "Confidence (sc_eval (score_candidate env svc evs c)) = basis_points (100 * points evs (score_candidate env svc evs c))"
    by (simp add: score_candidate_def points_def Let_def)
  show "\<bar>100 * points evs (score_candidate env svc evs c)\<bar> \<le> 2 ^ 40"
    using confidence_points_bound [OF raw_points_nonneg] n
    unfolding points_def score_candidate_def Let_def by (simp add: Let_def)
qed


lemma strict_weak_ranks: "strict_weak ranks_before"
proof -
  let ?conf = "\<lambda>a b. Confidence (sc_eval b) < Confidence (sc_eval a)"
  let ?count = "\<lambda>a b. countNonNil (Location (sc_candidate b)) < countNonNil (Location (sc_candidate a))"
  let ?confl = "\<lambda>a b. length (ce_Conflicts (sc_eval a)) < length (ce_Conflicts (sc_eval b))"
  have "strict_weak ?conf" "strict_weak ?count" "strict_weak ?confl"
    unfolding strict_weak_def by auto
  then have sw: "strict_weak (\<lambda>a b. if ?conf a b \<or> ?conf b a then ?conf a b
      else if ?count a b \<or> ?count b a then ?count a b else ?confl a b)"
    by (intro strict_weak_lex [where a = ?conf and b = "\<lambda>a b. if ?count a b \<or> ?count b a then ?count a b else ?confl a b"]
        strict_weak_lex [where a = ?count and b = ?confl])
  have eq: "ranks_before = (\<lambda>a b. if ?conf a b \<or> ?conf b a then ?conf a b
      else if ?count a b \<or> ?count b a then ?count a b else ?confl a b)"
    unfolding ranks_before_def by (intro ext) (auto simp: Let_def)
  show ?thesis unfolding eq by (rule sw)
qed

lemma ranks_outranks:
  assumes "is_order (ro_counts (env_orders env))" and "length evs \<le> 2 ^ 30"
    and "a \<in> range (score_candidate env svc evs)" and "b \<in> range (score_candidate env svc evs)"
  shows "ranks_before a b \<longleftrightarrow> outranks evs a b"
proof -
  obtain c d where ab: "a = score_candidate env svc evs c" "b = score_candidate env svc evs d"
    using assms(3,4) by auto
  note ca = scored_confidence [OF assms(1,2), of svc c, folded ab]
  note cb = scored_confidence [OF assms(1,2), of svc d, folded ab]
  have "Confidence (sc_eval a) = Confidence (sc_eval b) \<longleftrightarrow> points evs a = points evs b"
    unfolding ca(1) cb(1) basis_points_eq_iff [OF ca(2) cb(2)] by simp
  moreover have "Confidence (sc_eval b) < Confidence (sc_eval a) \<longleftrightarrow> points evs b < points evs a"
    unfolding ca(1) cb(1) basis_points_less_iff [OF cb(2) ca(2)] by simp
  ultimately show ?thesis unfolding ranks_before_def outranks_def Let_def by simp
qed

lemma evaluateCandidates_map:
  "evaluateCandidates env svc cands evs = env_sort_scored env ranks_before (map (score_candidate env svc evs) cands)"
  by (simp add: evaluateCandidates_def score_candidate_def [abs_def])

lemma evaluateCandidates_set:
  "is_environment env \<Longrightarrow> set (evaluateCandidates env svc cands evs) = score_candidate env svc evs ` set cands"
  by (simp add: evaluateCandidates_map is_environment_def go_sort.set_sort)

text \<open>
  C26. The ranking has each candidate once and is by exact score, then by the number of levels,
  then by the number of conflicts: nothing comes after something that it outranks in whole
  hundredths, so rounding and map orders never decide a place.
\<close>

theorem evaluateCandidates_ranked:
  assumes "is_environment env" and "length evs \<le> 2 ^ 30"
  shows "mset (evaluateCandidates env svc cands evs) = image_mset (score_candidate env svc evs) (mset cands)
    \<and> sorted_wrt (\<lambda>a b. \<not> outranks evs b a) (evaluateCandidates env svc cands evs)"
proof
  have sort: "go_sort (env_sort_scored env)" and order: "is_order (ro_counts (env_orders env))"
    using assms(1) by (simp_all add: is_environment_def is_range_orders_def)
  show "mset (evaluateCandidates env svc cands evs) = image_mset (score_candidate env svc evs) (mset cands)"
    by (simp add: evaluateCandidates_map go_sort.permutes [OF sort])
  have "sorted_wrt (\<lambda>a b. \<not> ranks_before b a) (evaluateCandidates env svc cands evs)"
    unfolding evaluateCandidates_map using go_sort.ordered [OF sort strict_weak_ranks] .
  then show "sorted_wrt (\<lambda>a b. \<not> outranks evs b a) (evaluateCandidates env svc cands evs)"
  proof (rule sorted_wrt_mono_rel [rotated])
    fix a b assume "a \<in> set (evaluateCandidates env svc cands evs)" "b \<in> set (evaluateCandidates env svc cands evs)"
    then have "a \<in> range (score_candidate env svc evs)" "b \<in> range (score_candidate env svc evs)"
      unfolding evaluateCandidates_set [OF assms(1)] by auto
    from ranks_outranks [OF order assms(2) this(2,1)]
    show "\<not> ranks_before b a \<Longrightarrow> \<not> outranks evs b a" by simp
  qed
qed

text \<open>The tenth that separates a valid from an ambiguous result, in exact points.\<close>

lemma tenth: "\<bar>rnd (1 / 10) - 1 / 10\<bar> \<le> 1 / 1000"
  using rnd_error [of "1 / 10"] by simp

lemma gap_points:
  assumes "\<bar>100 * i\<bar> \<le> 2 ^ 40" "\<bar>100 * j\<bar> \<le> 2 ^ 40" and "\<bar>i - j\<bar> \<noteq> 10"
  shows "\<bar>fsub (basis_points (100 * i)) (basis_points (100 * j))\<bar> < rnd (1 / 10) \<longleftrightarrow> \<bar>i - j\<bar> < 10"
proof -
  define y where "y = basis_points (100 * i) - basis_points (100 * j)"
  define d where "d = \<bar>i - j\<bar>"
  have ij: "\<bar>basis_points (100 * i) - of_int i / 100\<bar> \<le> 1 / 10 ^ 6" "\<bar>basis_points (100 * j) - of_int j / 100\<bar> \<le> 1 / 10 ^ 6"
    using basis_points_error [OF assms(1)] basis_points_error [OF assms(2)] by simp_all
  have "\<bar>of_int i / 100 - of_int j / 100 :: rat\<bar> = of_int d / 100"
    by (simp add: d_def flip: diff_divide_distrib of_int_diff)
  with ij have y: "\<bar>\<bar>y\<bar> - of_int d / 100\<bar> \<le> 2 / 10 ^ 6" unfolding y_def by linarith
  have e: "(2 :: rat) / 10 ^ 6 \<le> 1 / 1000" by simp
  have r: "\<bar>rnd y - y\<bar> \<le> \<bar>y\<bar> / 2 ^ 53" by (rule rnd_error)
  have small: "\<bar>y\<bar> / 2 ^ 53 \<le> \<bar>y\<bar> / 1000" by simp
  consider "d \<le> 9" | "11 \<le> d" using assms(3) unfolding d_def by linarith
  then show ?thesis
  proof cases
    case 1
    then have "(of_int d :: rat) \<le> 9" by (metis of_int_le_iff of_int_numeral)
    then have "\<bar>y\<bar> \<le> 91 / 1000" using y e by linarith
    with r small have "\<bar>rnd y\<bar> \<le> 92 / 1000" by linarith
    with tenth have "\<bar>rnd y\<bar> < rnd (1 / 10)" by linarith
    with 1 show ?thesis by (simp add: fsub_def y_def d_def)
  next
    case 2
    then have "(11 :: rat) \<le> of_int d" by (metis of_int_le_iff of_int_numeral)
    then have "109 / 1000 \<le> \<bar>y\<bar>" using y e by linarith
    with r small have "108 / 1000 \<le> \<bar>rnd y\<bar>" by linarith
    with tenth have "\<not> \<bar>rnd y\<bar> < rnd (1 / 10)" by linarith
    with 2 show ?thesis by (simp add: fsub_def y_def d_def)
  qed
qed

lemma status_of_best_two:
  assumes "is_environment env" and "length evs \<le> 2 ^ 30"
    and "evaluateCandidates env svc cands evs = best # second # others"
  shows "(\<bar>fsub (Confidence (sc_eval best)) (Confidence (sc_eval second))\<bar> < rnd (1 / 10))
    = (if points evs best - points evs second = 10
       then \<bar>fsub (Confidence (sc_eval best)) (Confidence (sc_eval second))\<bar> < rnd (1 / 10)
       else points evs best - points evs second < 10)"
proof -
  have order: "is_order (ro_counts (env_orders env))"
    using assms(1) by (simp add: is_environment_def is_range_orders_def)
  have "best \<in> score_candidate env svc evs ` set cands" "second \<in> score_candidate env svc evs ` set cands"
    using evaluateCandidates_set [OF assms(1), of svc cands evs] assms(3) by auto
  then obtain c d where cd: "best = score_candidate env svc evs c" "second = score_candidate env svc evs d"
    by auto
  note cb = scored_confidence [OF order assms(2), of svc c, folded cd]
  note cs = scored_confidence [OF order assms(2), of svc d, folded cd]
  have "go_sort (env_sort_scored env)" using assms(1) by (simp add: is_environment_def)
  then have "\<not> ranks_before second best"
    using go_sort.ordered [OF _ strict_weak_ranks, of "env_sort_scored env"] assms(3)
    unfolding evaluateCandidates_map by (metis list.set_intros(1) sorted_wrt.simps(2))
  moreover have "best \<in> range (score_candidate env svc evs)" "second \<in> range (score_candidate env svc evs)"
    using cd by simp_all
  ultimately have "\<not> outranks evs second best" using ranks_outranks [OF order assms(2)] by blast
  then have le: "points evs second \<le> points evs best" by (auto simp: outranks_def split: if_splits)
  show ?thesis
    using gap_points [OF cb(2) cs(2)] le
    by (auto simp: cb(1) cs(1))
qed

text \<open>
  C31. The status of a response is that of the best candidate, or AMBIGUOUS when that one is
  VALID and the second is less than ten points behind; at exactly ten points the rounding of
  the two scores decides.
\<close>

theorem response_status_points:
  assumes "is_environment env" and "length evs \<le> 2 ^ 30"
  shows "response_status (evaluateCandidates env svc cands evs) =
    (case evaluateCandidates env svc cands evs of
       [] \<Rightarrow> StatusUnknown
     | [best] \<Rightarrow> Status (sc_eval best)
     | best # second # _ \<Rightarrow>
         if Status (sc_eval best) = StatusValid
           \<and> (if points evs best - points evs second = 10
              then \<bar>fsub (Confidence (sc_eval best)) (Confidence (sc_eval second))\<bar> < rnd (1 / 10)
              else points evs best - points evs second < 10)
         then StatusAmbiguous else Status (sc_eval best))"
  using status_of_best_two [OF assms] by (simp add: response_status_def split: list.split)

definition demo_environment :: environment where
  "demo_environment = \<lparr>env_orders = insertion_orders, env_merges = [], env_second_merges = [],
     env_addressID = ''a'', env_uuids = (\<lambda>_. ''u''), env_second_uuids = (\<lambda>_. ''v''),
     env_sort_candidates = stable_sort, env_sort_scored = stable_sort, env_sort_corrections = stable_sort,
     env_sanitize = (\<lambda>s. s),
     env_now = \<lparr>t_year = 2026, t_month = 7, t_day = 29, t_hour = 5, t_minute = 8, t_second = 5, t_nanosecond = 0\<rparr>,
     env_Marshal = (\<lambda>_. ''{}'')\<rparr>"

lemma demo_environment_ok: "is_environment demo_environment"
  by (simp add: is_environment_def demo_environment_def insertion_orders_ok stable.go_sort_axioms)

theorem response_status_points_witness:
  "response_status (evaluateCandidates demo_environment (new_service 500 ''x'' True) [] []) = StatusUnknown"
  using response_status_points [OF demo_environment_ok, of "[]" "new_service 500 ''x'' True" "[]"]
  by (simp add: evaluateCandidates_def demo_environment_def stable_sort_def)

theorem evaluateCandidates_ranked_witness:
  "length (evaluateCandidates demo_environment (new_service 500 ''x'' True) [sample_candidate, sample_candidate] []) = 2"
proof -
  let ?es = "evaluateCandidates demo_environment (new_service 500 ''x'' True) [sample_candidate, sample_candidate] []"
  have "mset ?es = image_mset (score_candidate demo_environment (new_service 500 ''x'' True) [])
      (mset [sample_candidate, sample_candidate])"
    using evaluateCandidates_ranked [OF demo_environment_ok, of "[]" "new_service 500 ''x'' True"
        "[sample_candidate, sample_candidate]"] by simp
  then have "size (mset ?es) = 2" by simp
  then show ?thesis by (simp only: size_mset)
qed

lemma tenth_rounding:
  "\<bar>fsub (basis_points 3000) (basis_points 2000)\<bar> < rnd (1 / 10)
   \<and> \<not> \<bar>fsub (basis_points 8000) (basis_points 7000)\<bar> < rnd (1 / 10)"
proof -
  have v: "basis_points 3000 = 5404319552844595 / 18014398509481984"
    unfolding basis_points_def by code_simp
  have w: "basis_points 2000 = 3602879701896397 / 18014398509481984"
    unfolding basis_points_def by code_simp
  have x: "basis_points 8000 = 3602879701896397 / 4503599627370496"
    unfolding basis_points_def by code_simp
  have z: "basis_points 7000 = 3152519739159347 / 4503599627370496"
    unfolding basis_points_def by code_simp
  have t: "rnd (1 / 10) = 3602879701896397 / 36028797018963968" by code_simp
  have "basis_points 3000 - basis_points 2000 = of_int 1801439850948198 * 2 powi - 54"
    by (simp add: v w power_int_def power_divide)
  then have "fsub (basis_points 3000) (basis_points 2000) = of_int 1801439850948198 * 2 powi - 54"
    unfolding fsub_def by (simp only:) (rule rnd_exact, simp)
  moreover have "basis_points 8000 - basis_points 7000 = of_int 450359962737050 * 2 powi - 52"
    by (simp add: x z power_int_def power_divide)
  then have "fsub (basis_points 8000) (basis_points 7000) = of_int 450359962737050 * 2 powi - 52"
    unfolding fsub_def by (simp only:) (rule rnd_exact, simp)
  ultimately show ?thesis by (simp add: t power_int_def power_divide)
qed

definition valid_with :: "int \<Rightarrow> scored_candidate" where
  "valid_with k = \<lparr>sc_candidate = sample_candidate,
     sc_eval = empty_evaluation\<lparr>Status := StatusValid, Confidence := basis_points k\<rparr>\<rparr>"

text \<open>
  Two valid candidates ten points apart make an ambiguous result or not, depending on where
  they are: 0.30 and 0.20 do, 0.80 and 0.70 do not.
\<close>

theorem ambiguity_tie:
  "response_status [valid_with 3000, valid_with 2000] = StatusAmbiguous
   \<and> response_status [valid_with 8000, valid_with 7000] = StatusValid"
  using tenth_rounding by (simp add: response_status_def valid_with_def)

section \<open>The stages of a request\<close>

definition v1_code :: "service \<Rightarrow> address_request \<Rightarrow> gostring" where
  "v1_code svc req = (if req_SourceCode req = [] then sourceCode svc else req_SourceCode req)"

definition v1_text :: "environment \<Rightarrow> address_request \<Rightarrow> gostring" where
  "v1_text env req = Normalize (env_sanitize env (req_Address req))"

definition v1_resolve ::
  "environment \<Rightarrow> address_request \<Rightarrow> int64 \<Rightarrow> service \<Rightarrow> (resolved_evidence list option \<times> evidence list) \<times> service" where
  "v1_resolve env req sid svc = resolveEvidenceStage env sid (v1_text env req)
     (Normalize (stripRoadContext (env_sanitize env (req_Address req))))
     (detectRoadContextTokens (env_sanitize env (req_Address req))) svc"

definition v1_rank ::
  "environment \<Rightarrow> address_request \<Rightarrow> int64 \<Rightarrow> service
     \<Rightarrow> (scored_candidate list \<times> (gostring \<times> gostring) list) \<times> service" where
  "v1_rank env req sid svc =
     (let r = v1_resolve env req sid svc
      in rank_candidates env (fst (fst r)) (snd (fst r)) (v1_text env req)
           (detectRoadContextTokens (env_sanitize env (req_Address req))) (snd r))"

definition winner :: "scored_candidate list \<Rightarrow> location" where
  "winner scored = resolveLocationFromCandidate (case scored of [] \<Rightarrow> None | w # _ \<Rightarrow> Some w)"

definition v1_data ::
  "environment \<Rightarrow> address_request \<Rightarrow> gostring \<Rightarrow> gostring \<Rightarrow> scored_candidate list \<Rightarrow> (gostring \<times> gostring) list
     \<Rightarrow> location \<Rightarrow> bool \<Rightarrow> response_data" where
  "v1_data env req code version scored corrections loc applied =
     (let noted = (if applied then note_lookup scored else scored)
      in build_response_data env req (v1_text env req) code version (response_status scored) noted
           (final_evaluation applied noted) loc corrections)"

lemma ValidateAddressV1_stages:
  "ValidateAddressV1 env repo req rid (svc, q) =
     (case AddressRequest_Validate (maxAddressLength svc) req of
        Some err \<Rightarrow> (Inl (ErrValidation err), svc, q)
      | None \<Rightarrow>
          (case sourceAndCaches repo (v1_code svc req) svc of
             (Inl err, svc1) \<Rightarrow> (Inl (RepositoryError err), svc1, q)
           | (Inr (sid, version), svc1) \<Rightarrow>
               (case v1_rank env req sid svc1 of
                  ((scored, corrections), svc2) \<Rightarrow>
                    (case resolveLocationByPostalCode (env_orders env) repo (winner scored) (v1_text env req) sid of
                       Inl err \<Rightarrow> (Inl (RepositoryError err), svc2, q)
                     | Inr (loc, applied) \<Rightarrow>
                         let data = v1_data env req (v1_code svc req) version scored corrections loc applied
                         in (Inr \<lparr>ar_Timestamp = format_RFC3339 (env_now env), ar_RequestID = rid, ar_Data = data\<rparr>,
                             svc2, store_response env rid data svc2 q)))))"
proof (cases "AddressRequest_Validate (maxAddressLength svc) req")
  case (Some err)
  then show ?thesis by (simp add: ValidateAddressV1_def)
next
  case None
  obtain r svc1 where sc: "sourceAndCaches repo (v1_code svc req) svc = (r, svc1)" by (cases "sourceAndCaches repo (v1_code svc req) svc")
  show ?thesis
  proof (cases r)
    case (Inl err)
    with None sc show ?thesis by (simp add: ValidateAddressV1_def Let_def v1_code_def split del: if_split)
  next
    case (Inr p)
    obtain sid version where p: "p = (sid, version)" by (cases p)
    obtain res evs svc1' where res: "v1_resolve env req sid svc1 = ((res, evs), svc1')" by (metis prod.collapse)
    obtain scored corrections svc2 where rank: "v1_rank env req sid svc1 = ((scored, corrections), svc2)"
      by (metis prod.collapse)
    note stages = sc [unfolded v1_code_def] res [unfolded v1_resolve_def v1_text_def]
      rank [unfolded v1_rank_def res Let_def v1_text_def, simplified]
    show ?thesis
      using None stages rank sc Inr p
      by (cases "resolveLocationByPostalCode (env_orders env) repo (winner scored) (v1_text env req) sid")
        (simp_all add: ValidateAddressV1_def Let_def v1_text_def winner_def v1_data_def v1_code_def
          split del: if_split cong: if_cong)
  qed
qed

section \<open>Outcomes\<close>

lemma resolveLocation_error:
  "resolveLocationByPostalCode ro repo loc words sid = Inl err \<Longrightarrow>
     FindByPostalCode repo (extractPostalCode words) sid = Inl err"
  by (auto simp: resolveLocationByPostalCode_def Let_def split: if_splits sum.splits)

lemma v1_outcome:
  "case ValidateAddressV1 env repo req rid (svc, q) of
     (Inl (ErrValidation m), svc', q') \<Rightarrow>
       AddressRequest_Validate (maxAddressLength svc) req = Some m \<and> svc' = svc \<and> q' = q
   | (Inl (RepositoryError err), svc', q') \<Rightarrow>
       AddressRequest_Validate (maxAddressLength svc) req = None \<and> q' = q
       \<and> (fst (sourceAndCaches repo (v1_code svc req) svc) = Inl err
          \<or> (\<exists>source. fst (sourceAndCaches repo (v1_code svc req) svc) = Inr source
              \<and> FindByPostalCode repo (extractPostalCode (v1_text env req)) (fst source) = Inl err))
   | (Inr resp, svc', q') \<Rightarrow>
       AddressRequest_Validate (maxAddressLength svc) req = None
       \<and> ar_RequestID resp = rid \<and> ar_Timestamp resp = format_RFC3339 (env_now env)
       \<and> q' = store_response env rid (ar_Data resp) svc' q"
proof (cases "AddressRequest_Validate (maxAddressLength svc) req")
  case (Some err)
  then show ?thesis by (simp add: ValidateAddressV1_stages)
next
  case None
  obtain r svc1 where sc: "sourceAndCaches repo (v1_code svc req) svc = (r, svc1)"
    by (cases "sourceAndCaches repo (v1_code svc req) svc")
  show ?thesis
  proof (cases r)
    case (Inl err)
    with None sc show ?thesis by (simp add: ValidateAddressV1_stages)
  next
    case (Inr p)
    obtain sid version where p: "p = (sid, version)" by (cases p)
    obtain scored corrections svc2 where rank: "v1_rank env req sid svc1 = ((scored, corrections), svc2)"
      by (metis prod.collapse)
    let ?l = "resolveLocationByPostalCode (env_orders env) repo (winner scored) (v1_text env req) sid"
    show ?thesis
    proof (cases ?l)
      case l: (Inl err)
      from resolveLocation_error [OF this] None sc Inr p rank l show ?thesis
        by (simp add: ValidateAddressV1_stages)
    next
      case l: (Inr la)
      obtain loc applied where "la = (loc, applied)" by (cases la)
      with None sc Inr p rank l show ?thesis by (simp add: ValidateAddressV1_stages Let_def)
    qed
  qed
qed

text \<open>
  C7. A request that fails its check leaves everything as it was; every other error is one
  that the repository gave for the source, a cache or the postal code, and stores nothing; a
  response is stored as it is, in its queue, if storing is on.
\<close>

theorem ValidateAddressV1_outcome:
  "case ValidateAddressV1 env repo req rid (svc, q) of
     (Inl (ErrValidation m), svc', q') \<Rightarrow>
       AddressRequest_Validate (maxAddressLength svc) req = Some m \<and> svc' = svc \<and> q' = q
   | (Inl (RepositoryError err), svc', q') \<Rightarrow>
       AddressRequest_Validate (maxAddressLength svc) req = None \<and> q' = q
       \<and> (fst (sourceAndCaches repo (v1_code svc req) svc) = Inl err
          \<or> (\<exists>source. fst (sourceAndCaches repo (v1_code svc req) svc) = Inr source
              \<and> FindByPostalCode repo (extractPostalCode (v1_text env req)) (fst source) = Inl err))
   | (Inr resp, svc', q') \<Rightarrow>
       AddressRequest_Validate (maxAddressLength svc) req = None
       \<and> ar_RequestID resp = rid \<and> ar_Timestamp resp = format_RFC3339 (env_now env)
       \<and> q' = store_response env rid (ar_Data resp) svc' q"
  by (rule v1_outcome)

section \<open>The response\<close>

text \<open>What holds of the data of every response.\<close>

definition consistent_response :: "address_request \<Rightarrow> gostring \<Rightarrow> response_data \<Rightarrow> bool" where
  "consistent_response req words d \<longleftrightarrow>
     rd_RawInput d = req_Address req \<and> rd_NormalizedInput d = words
   \<and> rd_FormattedAddr d = formatLocation (rd_Location d)
   \<and> rn_CandidateCount (rd_Resolution d) = length (rn_Candidates (rd_Resolution d))
   \<and> sorted_wrt (\<lambda>a b. rsc_Score b \<le> rsc_Score a) (rn_Candidates (rd_Resolution d))
   \<and> list_all (\<lambda>c. rsc_Score c \<le> rd_Confidence d) (rn_Candidates (rd_Resolution d))
   \<and> sorted_wrt (\<lambda>a b. fuz_From a \<le> fuz_From b) (md_FuzzyCorrections (rd_Metadata d))
   \<and> (if ''postal_code_inferred'' \<in> set (rn_Strategy (rd_Resolution d))
      then rd_Status d = StatusUnknown \<and> rd_Confidence d = 0 \<and> rn_Candidates (rd_Resolution d) = []
      else True)"

lemma ranked_confidence:
  assumes "is_environment env"
  shows "sorted_wrt (\<lambda>a b. Confidence (sc_eval b) \<le> Confidence (sc_eval a)) (evaluateCandidates env svc cands evs)"
proof -
  have "go_sort (env_sort_scored env)" using assms by (simp add: is_environment_def)
  from go_sort.ordered [OF this strict_weak_ranks]
  have "sorted_wrt (\<lambda>a b. \<not> ranks_before b a) (evaluateCandidates env svc cands evs)"
    unfolding evaluateCandidates_map .
  then show ?thesis
    by (rule sorted_wrt_mono_rel [rotated]) (auto simp: ranks_before_def Let_def split: if_splits)
qed

lemma scored_reasons:
  "is_environment env \<Longrightarrow> s \<in> set (evaluateCandidates env svc cands evs) \<Longrightarrow>
     ReasonPostalCodeInferred \<notin> set (Reasons (sc_eval s))"
  by (auto simp: evaluateCandidates_set score_candidate_def EvaluateCandidate_def BuildReasons_def Let_def
      split: if_splits)

lemma sorted_corrections:
  assumes "is_environment env"
  shows "sorted_wrt (\<lambda>a b. fuz_From a \<le> fuz_From b) (sortedFuzzyCorrections env cs)"
proof -
  have sort: "go_sort (env_sort_corrections env)" using assms by (simp add: is_environment_def)
  have "sorted_wrt (\<lambda>a b. \<not> fuz_From b < fuz_From a) (env_sort_corrections env (\<lambda>a b. fuz_From a < fuz_From b) xs)" for xs
    by (rule go_sort.ordered [OF sort strict_weak_key])
  then show ?thesis by (simp add: sortedFuzzyCorrections_def not_less)
qed

lemma resolution_sorted:
  assumes "sorted_wrt (\<lambda>a b. Confidence (sc_eval b) \<le> Confidence (sc_eval a)) scored"
  shows "sorted_wrt (\<lambda>a b. rsc_Score b \<le> rsc_Score a) (resolution_candidates scored)"
  using assms by (induction scored) (auto simp: resolution_candidates_def)

lemma note_lookup_simps [simp]:
  "note_lookup [] = []"
  "note_lookup (w # rest) = w\<lparr>sc_eval := (sc_eval w)\<lparr>Reasons := Reasons (sc_eval w) @ [ReasonPostalCodeLookup]\<rparr>\<rparr> # rest"
  by (simp_all add: note_lookup_def)

lemma consistent_data:
  assumes "is_environment env" and scored: "scored = evaluateCandidates env svc cands evs"
  shows "consistent_response req (v1_text env req) (v1_data env req code version scored corrections loc applied)"
proof -
  let ?noted = "if applied then note_lookup scored else scored"
  have conf: "sorted_wrt (\<lambda>a b. Confidence (sc_eval b) \<le> Confidence (sc_eval a)) scored"
    unfolding scored by (rule ranked_confidence [OF assms(1)])
  then have noted: "sorted_wrt (\<lambda>a b. Confidence (sc_eval b) \<le> Confidence (sc_eval a)) ?noted"
    by (cases scored) auto
  have max: "list_all (\<lambda>c. rsc_Score c \<le> Confidence (final_evaluation applied ?noted)) (resolution_candidates ?noted)"
    using noted by (cases scored) (auto simp: list_all_iff resolution_candidates_def final_evaluation_def)
  have inferred: "ReasonPostalCodeInferred \<in> set (Reasons (final_evaluation applied ?noted)) \<Longrightarrow> scored = []"
    using scored_reasons [OF assms(1), of _ svc cands evs] unfolding scored [symmetric]
    by (cases scored) (auto simp: final_evaluation_def split: if_splits)
  have string: "''postal_code_inferred'' = reason_string r \<longleftrightarrow> r = ReasonPostalCodeInferred" for r
    by (cases r) simp_all
  have tail: "response_status scored = StatusUnknown \<and> Confidence (final_evaluation applied ?noted) = 0
      \<and> resolution_candidates ?noted = []"
    if "ReasonPostalCodeInferred \<in> set (Reasons (final_evaluation applied ?noted))"
    using inferred [OF that]
    by (simp add: response_status_def final_evaluation_def empty_evaluation_def resolution_candidates_def)
  have strategy: "''postal_code_inferred'' \<in> reason_string ` set rs \<longleftrightarrow> ReasonPostalCodeInferred \<in> set rs" for rs
    by (simp add: image_iff string)
  show ?thesis
    using resolution_sorted [OF noted] max tail sorted_corrections [OF assms(1)]
    unfolding consistent_response_def v1_data_def Let_def build_response_data_def
    by (simp add: strategy)
qed

lemma rank_candidates_scored:
  "\<exists>svc' cands evs'. fst (fst (rank_candidates env res evs words roads svc)) = evaluateCandidates env svc' cands evs'"
  unfolding rank_candidates_def Let_def split_beta prod.sel by blast

text \<open>
  C8. Every response repeats its input, shows the formatted form of its own location, counts
  its candidates, lists them from the best score down with none above the response's own
  confidence, sorts its corrections, and names the inferred postal code as its strategy only
  with status UNKNOWN, confidence 0 and no candidate.
\<close>

theorem ValidateAddressV1_consistent:
  assumes "is_environment env"
  shows "case fst (ValidateAddressV1 env repo req rid (svc, q)) of
      Inl _ \<Rightarrow> True
    | Inr resp \<Rightarrow> consistent_response req (v1_text env req) (ar_Data resp)"
proof (cases "AddressRequest_Validate (maxAddressLength svc) req")
  case (Some err)
  then show ?thesis by (simp add: ValidateAddressV1_stages)
next
  case None
  obtain r svc1 where sc: "sourceAndCaches repo (v1_code svc req) svc = (r, svc1)"
    by (cases "sourceAndCaches repo (v1_code svc req) svc")
  show ?thesis
  proof (cases r)
    case (Inl err)
    with None sc show ?thesis by (simp add: ValidateAddressV1_stages)
  next
    case (Inr p)
    obtain sid version where p: "p = (sid, version)" by (cases p)
    obtain scored corrections svc2 where rank: "v1_rank env req sid svc1 = ((scored, corrections), svc2)"
      by (metis prod.collapse)
    then have "scored = fst (fst (v1_rank env req sid svc1))" by simp
    then obtain svc' cands evs where scored: "scored = evaluateCandidates env svc' cands evs"
      unfolding v1_rank_def Let_def using rank_candidates_scored by metis
    note ok = consistent_data [OF assms scored]
    show ?thesis
    proof (cases "resolveLocationByPostalCode (env_orders env) repo (winner scored) (v1_text env req) sid")
      case l: (Inl err)
      with None sc Inr p rank show ?thesis by (simp add: ValidateAddressV1_stages)
    next
      case l: (Inr la)
      obtain loc applied where "la = (loc, applied)" by (cases la)
      with None sc Inr p rank l ok show ?thesis by (simp add: ValidateAddressV1_stages Let_def)
    qed
  qed
qed

definition demo_request :: address_request where
  "demo_request = \<lparr>req_Address = ''Dago 40132'', req_SourceCode = []\<rparr>"

theorem ValidateAddressV1_consistent_witness:
  "case fst (ValidateAddressV1 demo_environment demo_repository demo_request ''r''
       (new_service 500 ''x'' True, new_queue 1000 2)) of
      Inl _ \<Rightarrow> True
    | Inr resp \<Rightarrow> consistent_response demo_request (v1_text demo_environment demo_request) (ar_Data resp)"
  by (rule ValidateAddressV1_consistent [OF demo_environment_ok])

section \<open>A running service\<close>

lemma serving_rank:
  assumes "is_environment env" "serving c s"
  shows "serving c (snd (v1_rank env req sid s))"
proof -
  have ro: "is_range_orders (env_orders env)" using assms(1) by (simp add: is_environment_def)
  have "serving c (snd (v1_resolve env req sid s))"
    using service_ok_resolve [OF ro] assms(2)
    by (simp add: v1_resolve_def resolveEvidenceStage_def serving_def Let_def split_beta)
  from serving_recover [OF ro this] show ?thesis
    by (simp add: v1_rank_def rank_candidates_def Let_def split_beta)
qed

lemma request_ok:
  assumes "is_environment env" "service_ok s"
  shows "service_ok (fst (snd (ValidateAddressV1 env repo req rid (s, q))))
    \<and> config (fst (snd (ValidateAddressV1 env repo req rid (s, q)))) = config s"
proof (cases "AddressRequest_Validate (maxAddressLength s) req")
  case (Some err)
  with assms(2) show ?thesis by (simp add: ValidateAddressV1_stages)
next
  case None
  show ?thesis
  proof (cases "FindSourceByCode repo (v1_code s req)")
    case (Inl err)
    with None assms(2) show ?thesis by (simp add: ValidateAddressV1_stages sourceAndCaches_cases)
  next
    case (Inr p)
    obtain sid version where p: "p = (sid, version)" by (cases p)
    define s1 where "s1 = snd (ensureEntitiesCachesLoaded repo sid s)"
    have ok1: "service_ok s1" "config s1 = config s" using service_ok_caches [OF assms(2)] by (simp_all add: s1_def)
    show ?thesis
    proof (cases "fst (ensureEntitiesCachesLoaded repo sid s)")
      case (Some err)
      with None Inr p ok1 show ?thesis by (simp add: ValidateAddressV1_stages sourceAndCaches_cases s1_def)
    next
      case none: None
      from caches_loaded [OF this] ok1 have "serving (config s) s1" by (simp add: serving_def s1_def)
      from serving_rank [OF assms(1) this, of req sid]
      have "serving (config s) (snd (v1_rank env req sid s1))" .
      with None Inr p none show ?thesis
        by (simp add: ValidateAddressV1_stages sourceAndCaches_cases s1_def serving_def Let_def split_beta
            split: sum.split)
    qed
  qed
qed

text \<open>The states of a service: requests, worker goroutines and a shutdown in any order.\<close>

inductive served :: "service \<times> address_record queue \<Rightarrow> service \<times> address_record queue \<Rightarrow> bool" for st0 where
  served_start: "served st0 st0"
| served_request: "served st0 st \<Longrightarrow> is_environment env \<Longrightarrow>
     served st0 (snd (ValidateAddressV1 env repo req rid st))"
| served_worker: "served st0 (s, q) \<Longrightarrow> worker_step q q' \<Longrightarrow> served st0 (s, q')"
| served_shutdown: "served st0 (s, q) \<Longrightarrow> served st0 (s, close_queue q)"

lemma v1_queue:
  "snd (snd (ValidateAddressV1 env repo req rid (s, q))) = q
   \<or> enableStoreRequest (fst (snd (ValidateAddressV1 env repo req rid (s, q))))
     \<and> (\<exists>job. snd (snd (ValidateAddressV1 env repo req rid (s, q))) = snd (Submit job q))"
proof -
  obtain r s' q' where r: "ValidateAddressV1 env repo req rid (s, q) = (r, s', q')"
    by (metis prod.collapse)
  have "q' = q \<or> enableStoreRequest s' \<and> (\<exists>job. q' = snd (Submit job q))"
  proof (cases r)
    case (Inl e)
    then show ?thesis using v1_outcome [where env = env and repo = repo and req = req and rid = rid and svc = s and q = q] r by (cases e) simp_all
  next
    case (Inr resp)
    then show ?thesis using v1_outcome [where env = env and repo = repo and req = req and rid = rid and svc = s and q = q] r by (auto simp: store_response_def)
  qed
  then show ?thesis by (simp add: r)
qed

definition system_ok :: "int \<times> gostring \<times> bool \<Rightarrow> service \<times> address_record queue \<Rightarrow> bool" where
  "system_ok c st \<longleftrightarrow> service_ok (fst st) \<and> config (fst st) = c \<and> queue_inv (snd st)
     \<and> (enableStoreRequest (fst st) \<or> q_accepted (snd st) = [])"

lemma worker_step_accepted: "worker_step q q' \<Longrightarrow> q_accepted q' = q_accepted q"
  by (induction rule: worker_step.induct) simp_all

lemma system_ok_request:
  assumes "is_environment env" "system_ok c (s, q)"
  shows "system_ok c (snd (ValidateAddressV1 env repo req rid (s, q)))"
proof -
  let ?r = "ValidateAddressV1 env repo req rid (s, q)"
  have ok: "service_ok (fst (snd ?r))" "config (fst (snd ?r)) = c"
    using request_ok [OF assms(1), where s = s and q = q and repo = repo and req = req and rid = rid] assms(2) by (simp_all add: system_ok_def)
  moreover have "queue_inv (snd (snd ?r))"
    using v1_queue [of env repo req rid s q] assms(2) Submit_inv by (auto simp: system_ok_def)
  moreover have "enableStoreRequest (fst (snd ?r)) \<or> q_accepted (snd (snd ?r)) = []"
    using v1_queue [of env repo req rid s q] assms(2) ok(2)
    by (auto simp: system_ok_def config_def)
  ultimately show ?thesis by (simp add: system_ok_def)
qed

lemma system_ok_worker:
  "worker_step q q' \<Longrightarrow> system_ok c (s, q) \<Longrightarrow> system_ok c (s, q')"
  by (simp add: system_ok_def worker_step_accepted worker_step_inv)

lemma system_ok_shutdown: "system_ok c (s, q) \<Longrightarrow> system_ok c (s, close_queue q)"
  by (simp add: system_ok_def close_inv) (simp add: close_queue_def)

lemma served_ok: "served st0 st \<Longrightarrow> system_ok c st0 \<Longrightarrow> system_ok c st"
proof (induction rule: served.induct)
  case (served_request st env repo req rid)
  obtain s q where st: "st = (s, q)" by (cases st)
  with served_request show ?case by (simp only: system_ok_request)
qed (blast intro: system_ok_worker system_ok_shutdown)+

text \<open>
  C1. Whatever requests, worker steps and shutdowns a new service goes through, its indexes,
  caches, dictionaries and child indexes stay well formed, its configuration is as at the start,
  its queue loses no record, and nothing is ever queued if storing is off.
\<close>

theorem served_invariant:
  assumes "served (new_service maxLen code store, new_queue 1000 2) (svc, q)"
  shows "service_ok svc \<and> config svc = (maxLen, code, store) \<and> queue_inv q \<and> (store \<or> q_accepted q = [])"
proof -
  have "system_ok (maxLen, code, store) (new_service maxLen code store, new_queue 1000 2)"
    by (simp add: system_ok_def service_ok_new new_queue_inv)
      (simp add: config_def new_service_def new_queue_def Let_def)
  from served_ok [OF assms this] show ?thesis by (auto simp: system_ok_def config_def)
qed

theorem served_invariant_witness:
  "service_ok (fst (snd (ValidateAddressV1 demo_environment demo_repository demo_request ''r''
     (new_service 500 ''x'' False, new_queue 1000 2))))"
proof -
  let ?st = "snd (ValidateAddressV1 demo_environment demo_repository demo_request ''r''
     (new_service 500 ''x'' False, new_queue 1000 2))"
  have "served (new_service 500 ''x'' False, new_queue 1000 2) ?st"
    by (intro served.served_request served.served_start demo_environment_ok)
  then have "served (new_service 500 ''x'' False, new_queue 1000 2) (fst ?st, snd ?st)" by simp
  from served_invariant [OF this] show ?thesis by simp
qed

end
