(* ===== verification/Location_Tables.thy ===== *)
theory Location_Tables
  imports Source_Caches
begin

text \<open>
  The tables of \<open>db/location.sql\<close> and the way \<open>internal/database\<close> works on them. A
  table is the list of its rows; the columns \<open>created_at\<close>, which no statement reads, and
  the identifiers of the tables that are never joined on are left out. What belongs to the
  database engine is an argument: whether a statement fails, which identifier a new row gets,
  in which order a \<open>SELECT\<close> without \<open>ORDER BY\<close> answers, and how many parameters a
  statement may have. Every statement advances a clock, so that the engine may answer the same
  statement differently at another time. A failing statement changes nothing.
\<close>

section \<open>Rows and tables\<close>

record location_source =
  ls_ID :: int64
  ls_Code :: gostring
  ls_Version :: gostring
  ls_Name :: gostring
  ls_CodeDate :: gostring
  ls_Desc :: gostring
  ls_DeletedAt :: "gostring option"

record location_code =
  lc_ID :: int64
  lc_SourceID :: int64
  lc_Kode :: gostring
  lc_Name :: gostring
  lc_LowercaseNormalized :: gostring
  lc_LevelID :: int
  lc_PostalCode :: "gostring option"
  lc_UpdatedAt :: "gostring option"
  lc_DeletedAt :: "gostring option"

record hierarchy_row =
  hi_SourceID :: int64
  hi_ProvinceID :: int64
  hi_CityID :: int64
  hi_DistrictID :: int64
  hi_SubDistrictID :: int64
  hi_DeletedAt :: "gostring option"

record priority_row =
  pr_SourceID :: int64
  pr_LowercaseNormalized :: gostring
  pr_CityType :: gostring
  pr_DeletedAt :: "gostring option"

text \<open>\<open>t_names\<close> are the tables that exist.\<close>

record tables =
  t_names :: "gostring set"
  t_sources :: "location_source list"
  t_codes :: "location_code list"
  t_aliases :: "(int64 \<times> gostring) list"
  t_hierarchy :: "hierarchy_row list"
  t_priority :: "priority_row list"

definition location_tables :: "gostring list" where
  "location_tables = [''location_hierarchy'', ''location_alias'', ''location_city_priority'', ''location_codes'',
     ''location_sources'', ''location_levels'']"

definition empty_tables :: tables where
  "empty_tables = \<lparr>t_names = set location_tables, t_sources = [], t_codes = [], t_aliases = [],
     t_hierarchy = [], t_priority = []\<rparr>"

section \<open>The engine\<close>

record engine =
  en_fault :: "nat \<Rightarrow> go_error option"
  en_id :: "nat \<Rightarrow> int64 list \<Rightarrow> int64"
  en_codes :: "nat \<Rightarrow> location_code order"
  en_hierarchy :: "nat \<Rightarrow> hierarchy_row order"
  en_priority :: "nat \<Rightarrow> priority_row order"
  en_names :: "nat \<Rightarrow> gostring order"
  en_max_params :: nat
  en_now :: "nat \<Rightarrow> gostring"

definition is_engine :: "engine \<Rightarrow> bool" where
  "is_engine eng \<longleftrightarrow> (\<forall>n. is_order (en_codes eng n) \<and> is_order (en_hierarchy eng n)
     \<and> is_order (en_priority eng n) \<and> is_order (en_names eng n))"

lemma is_engineD [order_simps]:
  assumes "is_engine eng"
  shows "is_order (en_codes eng n)" and "is_order (en_hierarchy eng n)"
    and "is_order (en_priority eng n)" and "is_order (en_names eng n)"
  using assms by (simp_all add: is_engine_def)

record database =
  d_tables :: tables
  d_clock :: nat

type_synonym 'a outcome = "(go_error + 'a) \<times> database"

text \<open>
  A statement with its tables and the number of its parameters. The engine may refuse it, and
  does so if a table is missing or the parameters are too many.
\<close>

definition statement ::
  "engine \<Rightarrow> gostring list \<Rightarrow> nat \<Rightarrow> (nat \<Rightarrow> tables \<Rightarrow> (go_error + 'a) \<times> tables) \<Rightarrow> database \<Rightarrow> 'a outcome" where
  "statement eng names params f db =
     (let n = d_clock db; late = db\<lparr>d_clock := Suc n\<rparr>
      in case en_fault eng n of
           Some err \<Rightarrow> (Inl err, late)
         | None \<Rightarrow>
             if \<not> set names \<subseteq> t_names (d_tables db) then (Inl ''no such table'', late)
             else if en_max_params eng < params then (Inl ''too many SQL variables'', late)
             else (case f n (d_tables db) of
                     (Inl err, _) \<Rightarrow> (Inl err, late)
                   | (Inr x, t) \<Rightarrow> (Inr x, late\<lparr>d_tables := t\<rparr>)))"

definition query :: "engine \<Rightarrow> gostring list \<Rightarrow> nat \<Rightarrow> (nat \<Rightarrow> tables \<Rightarrow> 'a) \<Rightarrow> database \<Rightarrow> 'a outcome" where
  "query eng names params f = statement eng names params (\<lambda>n t. (Inr (f n t), t))"

text \<open>\<open>fmt.Errorf("...: %w", err)\<close> around the error of a call.\<close>

definition in_context :: "gostring \<Rightarrow> go_error \<Rightarrow> go_error" where
  "in_context c err = c @ '': '' @ err"

definition wrapped :: "(go_error \<Rightarrow> go_error) \<Rightarrow> (database \<Rightarrow> 'a outcome) \<Rightarrow> database \<Rightarrow> 'a outcome" where
  "wrapped w f db = (case f db of (Inl err, db) \<Rightarrow> (Inl (w err), db) | (Inr x, db) \<Rightarrow> (Inr x, db))"

definition and_do :: "(database \<Rightarrow> 'a outcome) \<Rightarrow> ('a \<Rightarrow> database \<Rightarrow> 'b outcome) \<Rightarrow> database \<Rightarrow> 'b outcome" where
  "and_do f g db = (case f db of (Inl err, db) \<Rightarrow> (Inl err, db) | (Inr x, db) \<Rightarrow> g x db)"

definition return :: "'a \<Rightarrow> database \<Rightarrow> 'a outcome" where
  "return x db = (Inr x, db)"

text \<open>A loop that stops at the first error.\<close>

fun for_each :: "('b \<Rightarrow> database \<Rightarrow> unit outcome) \<Rightarrow> 'b list \<Rightarrow> database \<Rightarrow> unit outcome" where
  "for_each f [] db = (Inr (), db)"
| "for_each f (x # xs) db = and_do (f x) (\<lambda>_. for_each f xs) db"

text \<open>
  \<open>BeginTx\<close>, the body, \<open>Commit\<close>, with \<open>defer tx.Rollback()\<close>: on every way out that
  is not a successful commit the tables are as they were.
\<close>

definition in_tx ::
  "engine \<Rightarrow> (go_error \<Rightarrow> go_error) \<Rightarrow> (go_error \<Rightarrow> go_error) \<Rightarrow> (database \<Rightarrow> unit outcome) \<Rightarrow> database \<Rightarrow> unit outcome" where
  "in_tx eng on_begin on_commit body db =
     (case and_do (wrapped on_begin (statement eng [] 0 (\<lambda>_ t. (Inr (), t))))
             (\<lambda>_. and_do body (\<lambda>_. wrapped on_commit (statement eng [] 0 (\<lambda>_ t. (Inr (), t))))) db of
        (Inl err, db') \<Rightarrow> (Inl err, db'\<lparr>d_tables := d_tables db\<rparr>)
      | (Inr x, db') \<Rightarrow> (Inr x, db'))"

section \<open>Reading, atomicity and success\<close>

text \<open>An operation that leaves the tables alone, and one that does so when it fails.\<close>

definition reads :: "(database \<Rightarrow> 'a outcome) \<Rightarrow> bool" where
  "reads f \<longleftrightarrow> (\<forall>db. d_tables (snd (f db)) = d_tables db)"

definition atomic :: "(database \<Rightarrow> 'a outcome) \<Rightarrow> bool" where
  "atomic f \<longleftrightarrow> (\<forall>db. (case f db of (Inl _, db') \<Rightarrow> d_tables db' = d_tables db | (Inr _, _) \<Rightarrow> True))"

named_theorems db_intros

lemma readsD: "reads f \<Longrightarrow> f db = (r, db') \<Longrightarrow> d_tables db' = d_tables db"
  by (metis reads_def snd_conv)

lemma atomicD: "atomic f \<Longrightarrow> f db = (Inl err, db') \<Longrightarrow> d_tables db' = d_tables db"
  by (auto simp: atomic_def dest: spec [of _ db])

lemma reads_atomic [db_intros]: "reads f \<Longrightarrow> atomic f"
  by (auto simp: atomic_def reads_def split: prod.split sum.split) (metis snd_conv)

lemma reads_query [db_intros]: "reads (query eng names n f)"
  by (simp add: reads_def query_def statement_def Let_def split: option.split)

lemma reads_return [db_intros]: "reads (return x)"
  by (simp add: reads_def return_def)

lemma reads_wrapped [db_intros]: "reads f \<Longrightarrow> reads (wrapped w f)"
  by (auto simp: reads_def wrapped_def split: prod.split sum.split) (metis snd_conv)+

lemma reads_and_do [db_intros]: "reads f \<Longrightarrow> (\<And>x. reads (g x)) \<Longrightarrow> reads (and_do f g)"
  by (auto simp: reads_def and_do_def split: prod.split sum.split) (metis snd_conv)+

lemma atomic_statement [db_intros]: "atomic (statement eng names n f)"
  by (simp add: atomic_def statement_def Let_def split: option.split sum.split prod.split)

lemma atomic_wrapped [db_intros]: "atomic f \<Longrightarrow> atomic (wrapped w f)"
  by (auto simp: atomic_def wrapped_def split: prod.splits sum.splits)

lemma atomic_read_then [db_intros]:
  assumes "reads f" and "\<And>x. atomic (g x)"
  shows "atomic (and_do f g)"
  using assms by (fastforce simp: atomic_def and_do_def split: prod.splits sum.splits dest: readsD)

lemma atomic_in_tx [db_intros]: "atomic (in_tx eng b c body)"
  by (simp add: atomic_def in_tx_def split: prod.split sum.split)

lemma atomic_in_tx_at: "atomic (\<lambda>db. in_tx eng b c (body db) db)"
  by (simp add: atomic_def in_tx_def split: prod.split sum.split)

lemma statementE:
  assumes "statement eng names n f db = (Inr x, db')"
  obtains t where "f (d_clock db) (d_tables db) = (Inr x, t)" and "d_tables db' = t"
  using assms by (auto simp: statement_def Let_def split: option.splits if_splits sum.splits prod.splits)

lemma queryE:
  assumes "query eng names n f db = (Inr x, db')"
  obtains "x = f (d_clock db) (d_tables db)" and "d_tables db' = d_tables db"
  using assms by (auto simp: query_def elim: statementE)

lemma wrapped_Inr [simp]: "wrapped w f db = (Inr x, db') \<longleftrightarrow> f db = (Inr x, db')"
  by (auto simp: wrapped_def split: prod.splits sum.splits)

lemma and_do_Inr: "and_do f g db = (Inr y, db'') \<longleftrightarrow> (\<exists>x db'. f db = (Inr x, db') \<and> g x db' = (Inr y, db''))"
  by (auto simp: and_do_def split: prod.splits sum.splits)

lemma in_txE:
  assumes "in_tx eng b c body db = (Inr x, db')"
  obtains db1 db2 where "d_tables db1 = d_tables db" and "body db1 = (Inr (), db2)" and "d_tables db' = d_tables db2"
  using assms by (auto simp: in_tx_def and_do_Inr split: prod.splits sum.splits elim!: statementE)

lemma for_each_append:
  "for_each f (xs @ ys) db = and_do (for_each f xs) (\<lambda>_. for_each f ys) db"
proof (induction xs arbitrary: db)
  case (Cons x xs)
  then show ?case by (simp add: and_do_def split: prod.split sum.split)
qed (simp add: and_do_def)

text \<open>A loop keeps on success what each of its steps keeps.\<close>

lemma for_each_relation:
  assumes "for_each f xs db = (Inr (), db')"
    and "\<And>x db db'. x \<in> set xs \<Longrightarrow> f x db = (Inr (), db') \<Longrightarrow> d_tables db' = step x (d_tables db)"
  shows "d_tables db' = fold step xs (d_tables db)"
  using assms
proof (induction xs arbitrary: db)
  case (Cons x xs)
  then obtain db1 where step1: "f x db = (Inr (), db1)" and rest: "for_each f xs db1 = (Inr (), db')"
    by (auto simp: and_do_Inr)
  have "d_tables db' = fold step xs (d_tables db1)" by (rule Cons.IH [OF rest]) (simp add: Cons.prems)
  moreover have "d_tables db1 = step x (d_tables db)" by (rule Cons.prems(2) [OF _ step1]) simp
  ultimately show ?case by simp
qed simp

section \<open>Operations that happen entirely or not at all\<close>

locale transactional =
  fixes op :: "'b \<Rightarrow> database \<Rightarrow> unit outcome"
  assumes all_or_nothing: "atomic (op x)"
begin

lemma failed: "op x db = (Inl err, db') \<Longrightarrow> d_tables db' = d_tables db"
  using all_or_nothing by (rule atomicD)

text \<open>A loop over such operations has done a first part of them, whether it ends well or not.\<close>

lemma for_each_prefix:
  "\<exists>k db'. k \<le> length xs \<and> for_each op (take k xs) db = (Inr (), db')
     \<and> d_tables (snd (for_each op xs db)) = d_tables db' \<and> (fst (for_each op xs db) = Inr () \<longrightarrow> k = length xs)"
proof (induction xs arbitrary: db)
  case Nil
  then show ?case by simp
next
  case (Cons x xs)
  show ?case
  proof (cases "op x db")
    case (Pair r db1)
    show ?thesis
    proof (cases r)
      case (Inl err)
      with Pair have "d_tables db1 = d_tables db" by (simp add: failed)
      with Pair Inl show ?thesis by (intro exI [of _ 0]) (simp add: and_do_def)
    next
      case (Inr u)
      with Pair Cons.IH [of db1] show ?thesis
        by (auto simp: and_do_def)
    qed
  qed
qed

end

section \<open>Batches\<close>

text \<open>\<open>for start := 0; start < len(rows); start += n\<close>, with \<open>rows[start:min(start+n, len(rows))]\<close>.\<close>

function batches :: "nat \<Rightarrow> 'a list \<Rightarrow> 'a list list" where
  "batches n xs = (if xs = [] \<or> n = 0 then [] else take n xs # batches n (drop n xs))"
  by pat_completeness auto
termination by (relation "measure (\<lambda>(n, xs). length xs)") auto

declare batches.simps [simp del]

lemma batches_Nil [simp]: "batches n [] = []"
  by (simp add: batches.simps)

lemma concat_batches [simp]: "0 < n \<Longrightarrow> concat (batches n xs) = xs"
  by (induction n xs rule: batches.induct) (subst batches.simps, simp)

lemma batches_length: "b \<in> set (batches n xs) \<Longrightarrow> 0 < length b \<and> length b \<le> n"
proof (induction n xs rule: batches.induct)
  case (1 n xs)
  then show ?case by (subst (asm) (2) batches.simps) (auto split: if_splits)
qed

lemma fold_concat: "fold (\<lambda>xs. fold f xs) xss = fold f (concat xss)"
  by (induction xss) simp_all

section \<open>Maps filled in a loop\<close>

text \<open>
  Where elements with the same key have the same value, a map that is filled in any order holds
  exactly the pairs of the elements.
\<close>

lemma foldl_upd_functional:
  assumes "\<And>x y. x \<in> set xs \<Longrightarrow> y \<in> set xs \<Longrightarrow> f x = f y \<Longrightarrow> g x = g y"
  shows "foldl (\<lambda>m x. m(f x \<mapsto> g x)) Map.empty xs k = Some v \<longleftrightarrow> (\<exists>x\<in>set xs. f x = k \<and> g x = v)"
  using assms
proof (induction xs rule: rev_induct)
  case (snoc x xs)
  then have IH: "foldl (\<lambda>m x. m(f x \<mapsto> g x)) Map.empty xs k = Some v \<longleftrightarrow> (\<exists>x\<in>set xs. f x = k \<and> g x = v)"
    by (intro snoc.IH snoc.prems) simp_all
  have "foldl (\<lambda>m x. m(f x \<mapsto> g x)) Map.empty (xs @ [x]) k =
      (if f x = k then Some (g x) else foldl (\<lambda>m x. m(f x \<mapsto> g x)) Map.empty xs k)"
    unfolding foldl_append foldl_Cons foldl_Nil by (simp only: fun_upd_apply eq_commute)
  also have "\<dots> = Some v \<longleftrightarrow> (\<exists>y\<in>set (xs @ [x]). f y = k \<and> g y = v)"
  proof (cases "f x = k")
    case True
    have same: "g y = g x" if "y \<in> set (xs @ [x])" and "f y = k" for y
      using snoc.prems [of y x] that True by simp
    have "x \<in> set (xs @ [x])" by simp
    with same True have "(\<exists>y\<in>set (xs @ [x]). f y = k \<and> g y = v) \<longleftrightarrow> g x = v" by metis
    with True show ?thesis by (simp only: refl if_True option.inject)
  next
    case False
    then show ?thesis unfolding IH [symmetric] by (simp add: IH)
  qed
  finally show ?case .
qed simp

lemma foldl_keep_functional:
  assumes "\<And>x y. x \<in> set xs \<Longrightarrow> y \<in> set xs \<Longrightarrow> f x = f y \<Longrightarrow> g x = g y"
  shows "foldl (\<lambda>m x. if m (f x) = None then m(f x \<mapsto> g x) else m) Map.empty xs
       = foldl (\<lambda>m x. m(f x \<mapsto> g x)) Map.empty xs"
  using assms
proof (induction xs rule: rev_induct)
  case (snoc x xs)
  let ?m = "foldl (\<lambda>m x. m(f x \<mapsto> g x)) Map.empty xs"
  have IH: "foldl (\<lambda>m x. if m (f x) = None then m(f x \<mapsto> g x) else m) Map.empty xs = ?m"
    by (intro snoc.IH snoc.prems) simp_all
  have "?m (f x) = Some (g x)" if "?m (f x) \<noteq> None"
  proof -
    from that obtain v where v: "?m (f x) = Some v" by blast
    have "\<exists>y\<in>set xs. f y = f x \<and> g y = v"
      using v foldl_upd_functional [of xs f g "f x" v] snoc.prems by simp
    with snoc.prems v show ?thesis by auto
  qed
  then have "(if ?m (f x) = None then ?m(f x \<mapsto> g x) else ?m) = ?m(f x \<mapsto> g x)"
    by (simp only: fun_upd_idem split: if_split) simp
  then show ?case unfolding foldl_append foldl_Cons foldl_Nil IH .
qed simp

end
