(* ===== verification/Location_Store.thy ===== *)
theory Location_Store
  imports Location_Tables
begin

text \<open>
  The queries of \<open>internal/database/location.go\<close>, and the repository that the service
  gets from them. A query whose rows break off is one that fails as a whole.
\<close>

section \<open>Location codes\<close>

abbreviation lc_live :: "location_code \<Rightarrow> bool" where "lc_live r \<equiv> lc_DeletedAt r = None"

abbreviation hi_live :: "hierarchy_row \<Rightarrow> bool" where "hi_live r \<equiv> hi_DeletedAt r = None"

definition coalesce :: "gostring option \<Rightarrow> gostring" where
  "coalesce v = (case v of None \<Rightarrow> [] | Some s \<Rightarrow> s)"

definition named_row :: "location_code \<Rightarrow> code_row" where
  "named_row r = \<lparr>cr_ID = lc_ID r, cr_SourceID = lc_SourceID r, cr_Kode = lc_Kode r, cr_Name = lc_Name r,
     cr_LowercaseNormalized = lc_LowercaseNormalized r, cr_PostalCode = []\<rparr>"

definition postal_row :: "location_code \<Rightarrow> code_row" where
  "postal_row r = (named_row r)\<lparr>cr_PostalCode := coalesce (lc_PostalCode r)\<rparr>"

definition select_codes :: "engine \<Rightarrow> (location_code \<Rightarrow> bool) \<Rightarrow> nat \<Rightarrow> tables \<Rightarrow> location_code list" where
  "select_codes eng P n t = en_codes eng n (filter (\<lambda>r. P r \<and> lc_live r) (t_codes t))"

definition query_codes ::
  "engine \<Rightarrow> nat \<Rightarrow> (location_code \<Rightarrow> bool) \<Rightarrow> (location_code \<Rightarrow> 'a) \<Rightarrow> database \<Rightarrow> 'a list outcome" where
  "query_codes eng params P f = query eng [''location_codes''] params (\<lambda>n t. map f (select_codes eng P n t))"

definition repo_FindAllProvinces :: "engine \<Rightarrow> database \<Rightarrow> code_row list outcome" where
  "repo_FindAllProvinces eng = wrapped (in_context ''find all provinces'')
     (query_codes eng 0 (\<lambda>r. lc_LevelID r = 2) named_row)"

definition repo_FindAllCities :: "engine \<Rightarrow> database \<Rightarrow> code_row list outcome" where
  "repo_FindAllCities eng = wrapped (in_context ''find all cities'')
     (query_codes eng 0 (\<lambda>r. lc_LevelID r = 3) postal_row)"

definition repo_FindAllDistricts :: "engine \<Rightarrow> int64 \<Rightarrow> database \<Rightarrow> code_row list outcome" where
  "repo_FindAllDistricts eng sourceID = wrapped (in_context ''find all districts'')
     (query_codes eng 1 (\<lambda>r. lc_LevelID r = 4 \<and> lc_SourceID r = sourceID) named_row)"

definition repo_FindAllSubDistricts :: "engine \<Rightarrow> int64 \<Rightarrow> database \<Rightarrow> code_row list outcome" where
  "repo_FindAllSubDistricts eng sourceID = wrapped (in_context ''find all subdistricts'')
     (query_codes eng 1 (\<lambda>r. lc_LevelID r = 5 \<and> lc_SourceID r = sourceID) postal_row)"

definition CityRowsByName :: "engine \<Rightarrow> int64 \<Rightarrow> gostring \<Rightarrow> database \<Rightarrow> code_row list outcome" where
  "CityRowsByName eng sourceID nm = wrapped (in_context ''city rows by name'')
     (query_codes eng 2 (\<lambda>r. lc_SourceID r = sourceID \<and> lc_LevelID r = 3 \<and> lc_LowercaseNormalized r = nm)
        postal_row)"

text \<open>\<open>SELECT DISTINCT\<close> with an \<open>EXISTS\<close> over the two lower levels.\<close>

definition overlapping_names :: "int64 \<Rightarrow> tables \<Rightarrow> gostring list" where
  "overlapping_names sourceID t =
     remdups [lc_LowercaseNormalized c3. c3 \<leftarrow> t_codes t,
       lc_SourceID c3 = sourceID \<and> lc_LevelID c3 = 3 \<and> lc_live c3
       \<and> list_ex (\<lambda>low. lc_SourceID low = lc_SourceID c3
           \<and> lc_LowercaseNormalized low = lc_LowercaseNormalized c3
           \<and> (lc_LevelID low = 4 \<or> lc_LevelID low = 5) \<and> lc_live low) (t_codes t)]"

definition CityNamesOverlappingLowerLevels :: "engine \<Rightarrow> int64 \<Rightarrow> database \<Rightarrow> gostring list outcome" where
  "CityNamesOverlappingLowerLevels eng sourceID = wrapped (in_context ''city names overlapping'')
     (query eng [''location_codes''] 1 (\<lambda>n t. en_names eng n (overlapping_names sourceID t)))"

section \<open>Sources\<close>

text \<open>\<open>ORDER BY id DESC LIMIT 1\<close> picks the row with the greatest identifier.\<close>

fun newest_source :: "location_source list \<Rightarrow> location_source option" where
  "newest_source [] = None"
| "newest_source (s # ss) = Some (foldl (\<lambda>best r. if sint (ls_ID best) < sint (ls_ID r) then r else best) s ss)"

definition ErrNoRows :: go_error where
  "ErrNoRows = ''sql: no rows in result set''"

definition query_row ::
  "engine \<Rightarrow> gostring list \<Rightarrow> nat \<Rightarrow> (nat \<Rightarrow> tables \<Rightarrow> 'a option) \<Rightarrow> database \<Rightarrow> 'a outcome" where
  "query_row eng names params f = statement eng names params (\<lambda>n t.
     case f n t of None \<Rightarrow> (Inl ErrNoRows, t) | Some x \<Rightarrow> (Inr x, t))"

definition repo_FindSourceByCode :: "engine \<Rightarrow> gostring \<Rightarrow> database \<Rightarrow> (int64 \<times> gostring) outcome" where
  "repo_FindSourceByCode eng code = wrapped (in_context (''find source by code '' @ code))
     (query_row eng [''location_sources''] 1 (\<lambda>n t.
        map_option (\<lambda>s. (ls_ID s, ls_Version s))
          (newest_source (filter (\<lambda>s. ls_Code s = code \<and> ls_DeletedAt s = None) (t_sources t)))))"

section \<open>Postal codes\<close>

definition name_by_kode :: "engine \<Rightarrow> int64 \<Rightarrow> gostring \<Rightarrow> database \<Rightarrow> gostring outcome" where
  "name_by_kode eng sourceID kode = query_row eng [''location_codes''] 2 (\<lambda>n t.
     (case select_codes eng (\<lambda>r. lc_Kode r = kode \<and> lc_SourceID r = sourceID) n t of
        [] \<Rightarrow> None | r # _ \<Rightarrow> Some (lc_Name r)))"

text \<open>A failed lookup is logged and leaves the field empty.\<close>

definition looked_up :: "engine \<Rightarrow> int64 \<Rightarrow> gostring \<Rightarrow> (gostring \<Rightarrow> location \<Rightarrow> location) \<Rightarrow> location \<times> database \<Rightarrow> location \<times> database" where
  "looked_up eng sourceID kode set_field = (\<lambda>(loc, db).
     (case name_by_kode eng sourceID kode db of
        (Inl _, db) \<Rightarrow> (loc, db)
      | (Inr nm, db) \<Rightarrow> (set_field nm loc, db)))"

definition set_district :: "gostring \<Rightarrow> location \<Rightarrow> location" where
  "set_district nm loc = loc\<lparr>l_District := nm\<rparr>"

definition set_city :: "gostring \<Rightarrow> location \<Rightarrow> location" where
  "set_city nm loc = loc\<lparr>l_City := nm\<rparr>"

definition set_province :: "gostring \<Rightarrow> location \<Rightarrow> location" where
  "set_province nm loc = loc\<lparr>l_Province := nm\<rparr>"

abbreviation dot :: char where "dot \<equiv> CHR ''.''"

text \<open>\<open>parts[0] + "." + parts[1] + ...\<close> over the first \<open>k\<close> parts, and the switch with its \<open>fallthrough\<close>s.\<close>

definition parent_kode :: "nat \<Rightarrow> gostring \<Rightarrow> gostring" where
  "parent_kode k kode = join [dot] (take k (split_on dot kode))"

definition complete_location :: "engine \<Rightarrow> int64 \<Rightarrow> gostring \<Rightarrow> location \<times> database \<Rightarrow> location \<times> database" where
  "complete_location eng sourceID kode st =
     (let parts = length (split_on dot kode);
          st = (if parts = 4 then looked_up eng sourceID (parent_kode 3 kode) set_district st else st);
          st = (if parts = 4 \<or> parts = 3 then looked_up eng sourceID (parent_kode 2 kode) set_city st else st)
      in if parts = 4 \<or> parts = 3 \<or> parts = 2
         then looked_up eng sourceID (parent_kode 1 kode) set_province st else st)"

fun complete_rows :: "engine \<Rightarrow> int64 \<Rightarrow> location_code list \<Rightarrow> database \<Rightarrow> location list \<times> database" where
  "complete_rows eng sourceID [] db = ([], db)"
| "complete_rows eng sourceID (r # rs) db =
     (let (loc, db) = complete_location eng sourceID (lc_Kode r)
            (empty_location\<lparr>l_SubDistrict := lc_Name r, l_PostalCode := coalesce (lc_PostalCode r)\<rparr>, db);
          (locs, db) = complete_rows eng sourceID rs db
      in (loc # locs, db))"

definition repo_FindByPostalCode :: "engine \<Rightarrow> gostring \<Rightarrow> int64 \<Rightarrow> database \<Rightarrow> location list outcome" where
  "repo_FindByPostalCode eng postalCode sourceID =
     and_do (query_codes eng 2 (\<lambda>r. lc_PostalCode r = Some postalCode \<and> lc_SourceID r = sourceID) (\<lambda>r. r))
       (\<lambda>rows db. (case complete_rows eng sourceID rows db of (locs, db) \<Rightarrow> (Inr locs, db)))"

section \<open>Hierarchy and city priority\<close>

definition select_hierarchy :: "engine \<Rightarrow> int64 \<Rightarrow> nat \<Rightarrow> tables \<Rightarrow> hierarchy_row list" where
  "select_hierarchy eng sourceID n t =
     en_hierarchy eng n (filter (\<lambda>r. hi_SourceID r = sourceID \<and> hi_live r) (t_hierarchy t))"

definition add_hierarchy_row :: "hierarchy_map \<Rightarrow> hierarchy_row \<Rightarrow> hierarchy_map" where
  "add_hierarchy_row h r = \<lparr>
     CityToProvince = (CityToProvince h)(hi_CityID r \<mapsto> hi_ProvinceID r),
     DistrictToCity = (DistrictToCity h)(hi_DistrictID r \<mapsto> hi_CityID r),
     SubDistrictToDist = (SubDistrictToDist h)(hi_SubDistrictID r \<mapsto> hi_DistrictID r)\<rparr>"

definition empty_hierarchy :: hierarchy_map where
  "empty_hierarchy = \<lparr>CityToProvince = Map.empty, DistrictToCity = Map.empty, SubDistrictToDist = Map.empty\<rparr>"

definition repo_LoadFullHierarchy :: "engine \<Rightarrow> int64 \<Rightarrow> database \<Rightarrow> hierarchy_map outcome" where
  "repo_LoadFullHierarchy eng sourceID = wrapped (in_context ''load full hierarchy'')
     (query eng [''location_hierarchy''] 1 (\<lambda>n t.
        foldl add_hierarchy_row empty_hierarchy (select_hierarchy eng sourceID n t)))"

definition LoadCityProvinceMapping :: "engine \<Rightarrow> int64 \<Rightarrow> database \<Rightarrow> (int64 \<rightharpoonup> int64) outcome" where
  "LoadCityProvinceMapping eng sourceID = wrapped (in_context ''load city province mapping'')
     (query eng [''location_hierarchy''] 1 (\<lambda>n t.
        foldl (\<lambda>m r. if m (hi_CityID r) = None then m(hi_CityID r \<mapsto> hi_ProvinceID r) else m) Map.empty
          (select_hierarchy eng sourceID n t)))"

definition repo_FindAllCityPriority :: "engine \<Rightarrow> int64 \<Rightarrow> database \<Rightarrow> city_priority_row list outcome" where
  "repo_FindAllCityPriority eng sourceID = wrapped (in_context ''find all city priority'')
     (query eng [''location_city_priority''] 1 (\<lambda>n t.
        map (\<lambda>r. \<lparr>cp_LowercaseNormalized = pr_LowercaseNormalized r, cp_CityType = pr_CityType r\<rparr>)
          (en_priority eng n (filter (\<lambda>r. pr_SourceID r = sourceID \<and> pr_DeletedAt r = None) (t_priority t)))))"

text \<open>
  On Postgres only; \<open>similar\<close> is its operator \<open>%>\<close>, \<open>word_similarity\<close> its function, both of the
  extension \<open>pg_trgm\<close>. The repository is \<open>None\<close> if it is nil.
\<close>

definition level_name :: "int \<Rightarrow> gostring" where
  "level_name levelID =
     (if levelID = 2 then ''PROVINCE'' else if levelID = 3 then ''CITY''
      else if levelID = 4 then ''DISTRICT'' else if levelID = 5 then ''SUBDISTRICT'' else [])"

definition repo_FindSimilarLocations ::
  "bool option \<Rightarrow> (gostring \<Rightarrow> gostring \<Rightarrow> bool) \<Rightarrow> (gostring \<Rightarrow> gostring \<Rightarrow> rat) \<Rightarrow> engine
     \<Rightarrow> int64 \<Rightarrow> gostring \<Rightarrow> int \<Rightarrow> rat \<Rightarrow> database \<Rightarrow> entity list outcome" where
  "repo_FindSimilarLocations pg similar word_similarity eng sourceID token limit minSimilarity =
     (if pg \<noteq> Some True then return []
      else statement eng [''location_codes''] 6 (\<lambda>n t.
        if limit < 0 then (Inl ''LIMIT must not be negative'', t)
        else (Inr (map (\<lambda>r. \<lparr>ent_ID = lc_ID r, ent_Name = lc_Name r, ent_Level = level_name (lc_LevelID r),
                  ent_PostalCode = coalesce (lc_PostalCode r)\<rparr>)
               (take (nat limit)
                 (sort_key (\<lambda>r. - word_similarity token (lc_LowercaseNormalized r))
                   (select_codes eng (\<lambda>r. lc_SourceID r = sourceID \<and> 2 \<le> lc_LevelID r \<and> lc_LevelID r \<le> 5
                      \<and> similar (lc_LowercaseNormalized r) token
                      \<and> minSimilarity \<le> word_similarity token (lc_LowercaseNormalized r)) n t)))), t)))"

section \<open>The repository of the service\<close>

text \<open>
  What the service's queries answer on a database. Each kind of query is asked at a time of
  its own, so that the engine may fail or order each of them as it likes.
\<close>

definition later :: "nat \<Rightarrow> database \<Rightarrow> database" where
  "later k db = db\<lparr>d_clock := d_clock db + k\<rparr>"

definition repository_of :: "engine \<Rightarrow> database \<Rightarrow> location_repository" where
  "repository_of eng db = \<lparr>
     FindAllProvinces = fst (repo_FindAllProvinces eng (later 1 db)),
     FindAllCities = fst (repo_FindAllCities eng (later 2 db)),
     FindAllDistricts = (\<lambda>sid. fst (repo_FindAllDistricts eng sid (later 3 db))),
     FindAllSubDistricts = (\<lambda>sid. fst (repo_FindAllSubDistricts eng sid (later 4 db))),
     FindByPostalCode = (\<lambda>pc sid. fst (repo_FindByPostalCode eng pc sid (later 7 db))),
     FindSourceByCode = (\<lambda>code. fst (repo_FindSourceByCode eng code db)),
     LoadFullHierarchy = (\<lambda>sid. fst (repo_LoadFullHierarchy eng sid (later 5 db))),
     FindAllCityPriority = (\<lambda>sid. fst (repo_FindAllCityPriority eng sid (later 6 db)))\<rparr>"

section \<open>No query changes a table\<close>

lemma reads_query_codes [db_intros]: "reads (query_codes eng n P f)"
  by (simp add: query_codes_def reads_query)

lemma reads_query_row [db_intros]: "reads (query_row eng names n f)"
  by (simp add: reads_def query_row_def statement_def Let_def split: option.split)

lemma reads_CityRowsByName [db_intros]: "reads (CityRowsByName eng sid nm)"
  unfolding CityRowsByName_def by (intro db_intros)

lemma reads_CityNamesOverlappingLowerLevels [db_intros]: "reads (CityNamesOverlappingLowerLevels eng sid)"
  unfolding CityNamesOverlappingLowerLevels_def by (intro db_intros)

lemma query_codesE:
  assumes "query_codes eng k P f db = (Inr xs, db')"
  obtains "xs = map f (select_codes eng P (d_clock db) (d_tables db))" and "d_tables db' = d_tables db"
  using assms by (auto simp: query_codes_def elim: queryE)

lemma set_select_codes:
  "is_engine eng \<Longrightarrow> set (select_codes eng P n t) = {r \<in> set (t_codes t). P r \<and> lc_live r}"
  by (auto simp: select_codes_def order_simps)

lemma set_select_hierarchy:
  "is_engine eng \<Longrightarrow> set (select_hierarchy eng sid n t) = {r \<in> set (t_hierarchy t). hi_SourceID r = sid \<and> hi_live r}"
  by (auto simp: select_hierarchy_def order_simps)

lemma level_name_range:
  assumes "2 \<le> n" "n \<le> 5"
  shows "level_name n \<noteq> []"
proof -
  from assms have "n = 2 \<or> n = 3 \<or> n = 4 \<or> n = 5" by linarith
  then show ?thesis by (auto simp: level_name_def)
qed

lemma similar_locations:
  assumes "is_engine eng" and "repo_FindSimilarLocations pg similar ws eng sid token limit m db = (Inr es, db')"
  shows "length es \<le> nat limit \<and> d_tables db' = d_tables db
    \<and> (\<forall>e\<in>set es. \<exists>r\<in>set (t_codes (d_tables db)). lc_live r \<and> lc_SourceID r = sid \<and> ent_ID e = lc_ID r
         \<and> m \<le> ws token (lc_LowercaseNormalized r) \<and> ent_Level e \<noteq> [])"
proof (cases "pg = Some True")
  case False
  with assms(2) show ?thesis by (simp add: repo_FindSimilarLocations_def return_def)
next
  case True
  let ?P = "\<lambda>r. lc_SourceID r = sid \<and> 2 \<le> lc_LevelID r \<and> lc_LevelID r \<le> 5
     \<and> similar (lc_LowercaseNormalized r) token \<and> m \<le> ws token (lc_LowercaseNormalized r)"
  define rs where "rs = take (nat limit) (sort_key (\<lambda>r. - ws token (lc_LowercaseNormalized r))
    (select_codes eng ?P (d_clock db) (d_tables db)))"
  define entity_of where "entity_of r = \<lparr>ent_ID = lc_ID r, ent_Name = lc_Name r, ent_Level = level_name (lc_LevelID r),
    ent_PostalCode = coalesce (lc_PostalCode r)\<rparr>" for r :: location_code
  have es: "es = map entity_of rs" and tables: "d_tables db' = d_tables db"
    using assms(2) [unfolded repo_FindSimilarLocations_def] True
    unfolding rs_def entity_of_def by (simp_all split: if_splits) (erule statementE, auto split: if_splits)+
  have rs: "set rs \<subseteq> {r \<in> set (t_codes (d_tables db)). ?P r \<and> lc_live r}"
  proof -
    have "set rs \<subseteq> set (select_codes eng ?P (d_clock db) (d_tables db))"
      unfolding rs_def by (rule order_trans [OF set_take_subset]) simp
    then show ?thesis unfolding set_select_codes [OF assms(1)] .
  qed
  have "\<exists>r\<in>set (t_codes (d_tables db)). lc_live r \<and> lc_SourceID r = sid \<and> ent_ID e = lc_ID r
      \<and> m \<le> ws token (lc_LowercaseNormalized r) \<and> ent_Level e \<noteq> []" if "e \<in> set es" for e
  proof -
    obtain r where "r \<in> set rs" and e: "e = entity_of r" using \<open>e \<in> set es\<close> by (auto simp: es)
    with rs have "r \<in> set (t_codes (d_tables db))" "?P r" "lc_live r" by auto
    then show ?thesis using level_name_range [of "lc_LevelID r"] by (intro bexI [of _ r]) (simp_all add: e entity_of_def)
  qed
  moreover have "length es \<le> nat limit" by (simp add: es rs_def)
  ultimately show ?thesis using tables by blast
qed

end
