(* ===== verification/Location_Rebuild.thy ===== *)
theory Location_Rebuild
  imports Location_Store
begin

text \<open>
  The operations of \<open>internal/database/location.go\<close> that change the tables: inserting a
  source and its codes, rebuilding the hierarchy, the normalised names and the city
  priorities, truncating and dropping. The multi-row statements of the code are one statement
  each here, with the number of parameters that the code binds. The numbers of a batch in the
  text of its error are left out.
\<close>

section \<open>Sources\<close>

definition insert_source ::
  "engine \<Rightarrow> gostring \<Rightarrow> gostring \<Rightarrow> gostring \<Rightarrow> gostring \<Rightarrow> gostring \<Rightarrow> nat \<Rightarrow> tables \<Rightarrow> (go_error + unit) \<times> tables" where
  "insert_source eng code version nm codeDate descr n t =
     (if list_ex (\<lambda>s. ls_Code s = code \<and> ls_Version s = version) (t_sources t) then (Inr (), t)
      else let i = en_id eng n (map ls_ID (t_sources t)) in
        if i \<in> set (map ls_ID (t_sources t)) then (Inl ''database or disk is full'', t)
        else (Inr (), t\<lparr>t_sources := t_sources t @ [\<lparr>ls_ID = i, ls_Code = code, ls_Version = version, ls_Name = nm,
               ls_CodeDate = codeDate, ls_Desc = descr, ls_DeletedAt = None\<rparr>]\<rparr>))"

definition InsertLocationSource ::
  "engine \<Rightarrow> gostring \<Rightarrow> gostring \<Rightarrow> gostring \<Rightarrow> gostring \<Rightarrow> gostring \<Rightarrow> database \<Rightarrow> int64 outcome" where
  "InsertLocationSource eng code version nm codeDate descr =
     and_do (wrapped (in_context ''insert source'')
               (statement eng [''location_sources''] 5 (insert_source eng code version nm codeDate descr)))
       (\<lambda>_. wrapped (in_context ''lookup source'')
          (query_row eng [''location_sources''] 2 (\<lambda>n t.
             (case filter (\<lambda>s. ls_Code s = code \<and> ls_Version s = version \<and> ls_DeletedAt s = None) (t_sources t) of
                [] \<Rightarrow> None | s # _ \<Rightarrow> Some (ls_ID s)))))"

section \<open>Codes\<close>

record location_code_row =
  lr_Kode :: gostring
  lr_Name :: gostring
  lr_LevelID :: int
  lr_PostalCode :: gostring

text \<open>\<open>ON CONFLICT DO NOTHING\<close> with the constraint \<open>UNIQUE(location_source_id, kode)\<close>.\<close>

definition new_code :: "int64 \<Rightarrow> int64 \<Rightarrow> location_code_row \<Rightarrow> location_code" where
  "new_code i sourceID row = \<lparr>lc_ID = i, lc_SourceID = sourceID, lc_Kode = lr_Kode row, lc_Name = lr_Name row,
     lc_LowercaseNormalized = Normalize (lr_Name row), lc_LevelID = lr_LevelID row,
     lc_PostalCode = Some (lr_PostalCode row), lc_UpdatedAt = None, lc_DeletedAt = None\<rparr>"

fun insert_codes ::
  "engine \<Rightarrow> int64 \<Rightarrow> location_code_row list \<Rightarrow> nat \<Rightarrow> tables \<Rightarrow> (go_error + unit) \<times> tables" where
  "insert_codes eng sourceID [] n t = (Inr (), t)"
| "insert_codes eng sourceID (row # rows) n t =
     (if list_ex (\<lambda>r. lc_SourceID r = sourceID \<and> lc_Kode r = lr_Kode row) (t_codes t)
      then insert_codes eng sourceID rows n t
      else let i = en_id eng n (map lc_ID (t_codes t)) in
        if i \<in> set (map lc_ID (t_codes t)) then (Inl ''database or disk is full'', t)
        else insert_codes eng sourceID rows n (t\<lparr>t_codes := t_codes t @ [new_code i sourceID row]\<rparr>))"

definition InsertLocationCodeBatch :: "engine \<Rightarrow> int64 \<Rightarrow> location_code_row list \<Rightarrow> database \<Rightarrow> unit outcome" where
  "InsertLocationCodeBatch eng sourceID rows =
     (if rows = [] then return ()
      else in_tx eng (in_context ''begin tx'') (\<lambda>err. err)
        (for_each (\<lambda>chunk. wrapped (in_context ''insert batch'')
           (statement eng [''location_codes''] (6 * length chunk) (insert_codes eng sourceID chunk)))
           (batches 4000 rows)))"

section \<open>The hierarchy\<close>

definition kode_to_id :: "location_code list \<Rightarrow> gostring \<rightharpoonup> int64" where
  "kode_to_id rows = foldl (\<lambda>m r. m(lc_Kode r \<mapsto> lc_ID r)) Map.empty rows"

text \<open>A sub-district with four parts and all of its ancestors becomes a row, another one is skipped.\<close>

definition hierarchy_insert :: "(gostring \<rightharpoonup> int64) \<Rightarrow> int64 \<Rightarrow> location_code \<Rightarrow> hierarchy_row option" where
  "hierarchy_insert kodeToID sourceID s =
     (if length (split_on dot (lc_Kode s)) \<noteq> 4 then None
      else case kodeToID (parent_kode 1 (lc_Kode s)) of
        None \<Rightarrow> None
      | Some provinceID \<Rightarrow>
          (case kodeToID (parent_kode 2 (lc_Kode s)) of
             None \<Rightarrow> None
           | Some cityID \<Rightarrow>
               (case kodeToID (parent_kode 3 (lc_Kode s)) of
                  None \<Rightarrow> None
                | Some districtID \<Rightarrow> Some \<lparr>hi_SourceID = sourceID, hi_ProvinceID = provinceID, hi_CityID = cityID,
                    hi_DistrictID = districtID, hi_SubDistrictID = lc_ID s, hi_DeletedAt = None\<rparr>)))"

definition insert_hierarchy :: "hierarchy_row \<Rightarrow> tables \<Rightarrow> tables" where
  "insert_hierarchy h t =
     (if list_ex (\<lambda>r. hi_SourceID r = hi_SourceID h \<and> hi_SubDistrictID r = hi_SubDistrictID h) (t_hierarchy t)
      then t else t\<lparr>t_hierarchy := t_hierarchy t @ [h]\<rparr>)"

definition hchunk :: nat where "hchunk = 4000"

definition flush_hierarchy :: "engine \<Rightarrow> hierarchy_row list \<Rightarrow> database \<Rightarrow> unit outcome" where
  "flush_hierarchy eng pending =
     (if pending = [] then return ()
      else wrapped (in_context ''insert hierarchy batch'')
        (statement eng [''location_hierarchy''] (5 * length pending)
           (\<lambda>n t. (Inr (), fold insert_hierarchy pending t))))"

fun hierarchy_loop ::
  "engine \<Rightarrow> (gostring \<rightharpoonup> int64) \<Rightarrow> int64 \<Rightarrow> hierarchy_row list \<Rightarrow> location_code list \<Rightarrow> database \<Rightarrow> unit outcome" where
  "hierarchy_loop eng kodeToID sourceID pending [] = flush_hierarchy eng pending"
| "hierarchy_loop eng kodeToID sourceID pending (s # subs) =
     (case hierarchy_insert kodeToID sourceID s of
        None \<Rightarrow> hierarchy_loop eng kodeToID sourceID pending subs
      | Some h \<Rightarrow>
          if hchunk \<le> length (pending @ [h])
          then and_do (flush_hierarchy eng (pending @ [h])) (\<lambda>_. hierarchy_loop eng kodeToID sourceID [] subs)
          else hierarchy_loop eng kodeToID sourceID (pending @ [h]) subs)"

definition RebuildLocationHierarchy :: "engine \<Rightarrow> int64 \<Rightarrow> database \<Rightarrow> unit outcome" where
  "RebuildLocationHierarchy eng sourceID =
     and_do (wrapped (in_context ''query parents'')
               (query_codes eng 1 (\<lambda>r. lc_SourceID r = sourceID \<and> lc_LevelID r \<in> {2, 3, 4}) (\<lambda>r. r)))
       (\<lambda>parents. and_do (wrapped (in_context ''query subdistricts'')
               (query_codes eng 1 (\<lambda>r. lc_SourceID r = sourceID \<and> lc_LevelID r = 5) (\<lambda>r. r)))
          (\<lambda>subs. in_tx eng (in_context ''begin tx'') (in_context ''commit'')
             (hierarchy_loop eng (kode_to_id parents) sourceID [] subs)))"

section \<open>Normalised names\<close>

text \<open>\<open>CASE id WHEN ? THEN ? ... END\<close> over the rows whose identifier is in the list.\<close>

definition update_normalized :: "gostring \<Rightarrow> location_code list \<Rightarrow> tables \<Rightarrow> tables" where
  "update_normalized now chunk t = t\<lparr>t_codes := map (\<lambda>r.
     (case map_of (map (\<lambda>c. (lc_ID c, Normalize (lc_Name c))) chunk) (lc_ID r) of
        None \<Rightarrow> r
      | Some s \<Rightarrow> r\<lparr>lc_LowercaseNormalized := s, lc_UpdatedAt := Some now\<rparr>)) (t_codes t)\<rparr>"

definition RebuildNormalized :: "engine \<Rightarrow> database \<Rightarrow> unit outcome" where
  "RebuildNormalized eng =
     and_do (wrapped (in_context ''rebuild normalized query'') (query_codes eng 0 (\<lambda>r. True) (\<lambda>r. r)))
       (\<lambda>codes db. in_tx eng (in_context ''begin tx'') (in_context ''commit'')
          (for_each (\<lambda>chunk. wrapped (in_context ''update batch'')
             (statement eng [''location_codes''] (3 * length chunk + 1)
                (\<lambda>n t. (Inr (), update_normalized (en_now eng (d_clock db)) chunk t)))) (batches 4000 codes)) db)"

section \<open>City priorities\<close>

definition preferred_type :: "code_row list \<Rightarrow> gostring" where
  "preferred_type cityRows =
     (if list_ex (\<lambda>cr. prefix ''Kota '' (cr_Name cr)) cityRows then ''KOTA'' else ''KABUPATEN'')"

fun priorities_of :: "engine \<Rightarrow> int64 \<Rightarrow> gostring list \<Rightarrow> database \<Rightarrow> (gostring \<times> gostring) list outcome" where
  "priorities_of eng sourceID [] = return []"
| "priorities_of eng sourceID (nm # names) =
     and_do (CityRowsByName eng sourceID nm) (\<lambda>cityRows.
       and_do (priorities_of eng sourceID names) (\<lambda>ps. return ((nm, preferred_type cityRows) # ps)))"

definition delete_priority :: "int64 \<Rightarrow> tables \<Rightarrow> tables" where
  "delete_priority sourceID t = t\<lparr>t_priority := filter (\<lambda>r. pr_SourceID r \<noteq> sourceID) (t_priority t)\<rparr>"

definition insert_priority :: "int64 \<Rightarrow> gostring \<times> gostring \<Rightarrow> tables \<Rightarrow> tables" where
  "insert_priority sourceID p t =
     (if list_ex (\<lambda>r. pr_SourceID r = sourceID \<and> pr_LowercaseNormalized r = fst p) (t_priority t) then t
      else t\<lparr>t_priority := t_priority t @ [\<lparr>pr_SourceID = sourceID, pr_LowercaseNormalized = fst p,
             pr_CityType = snd p, pr_DeletedAt = None\<rparr>]\<rparr>)"

definition RebuildCityPriority :: "engine \<Rightarrow> int64 \<Rightarrow> database \<Rightarrow> unit outcome" where
  "RebuildCityPriority eng sourceID =
     and_do (CityNamesOverlappingLowerLevels eng sourceID) (\<lambda>names.
       and_do (priorities_of eng sourceID names) (\<lambda>priorities.
         in_tx eng (in_context ''begin tx'') (\<lambda>err. err)
           (and_do (wrapped (in_context ''delete city priority'')
                      (statement eng [''location_city_priority''] 1 (\<lambda>n t. (Inr (), delete_priority sourceID t))))
              (\<lambda>_. and_do (wrapped (in_context ''prepare'')
                      (statement eng [''location_city_priority''] 0 (\<lambda>n t. (Inr (), t))))
                 (\<lambda>_. for_each (\<lambda>p. wrapped (in_context (''insert '' @ fst p))
                    (statement eng [''location_city_priority''] 3 (\<lambda>n t. (Inr (), insert_priority sourceID p t))))
                    priorities)))))"

section \<open>Truncating and dropping\<close>

definition drop_table :: "gostring \<Rightarrow> tables \<Rightarrow> tables" where
  "drop_table nm t =
     (let t = t\<lparr>t_names := t_names t - {nm}\<rparr>
      in if nm = ''location_hierarchy'' then t\<lparr>t_hierarchy := []\<rparr>
         else if nm = ''location_alias'' then t\<lparr>t_aliases := []\<rparr>
         else if nm = ''location_city_priority'' then t\<lparr>t_priority := []\<rparr>
         else if nm = ''location_codes'' then t\<lparr>t_codes := []\<rparr>
         else if nm = ''location_sources'' then t\<lparr>t_sources := []\<rparr>
         else t)"

definition DropAll :: "bool \<Rightarrow> engine \<Rightarrow> database \<Rightarrow> unit outcome" where
  "DropAll pg eng =
     (if pg then statement eng [] 0 (\<lambda>n t. (Inr (), fold drop_table location_tables t))
      else for_each (\<lambda>nm. wrapped (in_context (''drop '' @ nm))
             (statement eng [] 0 (\<lambda>n t. (Inr (), drop_table nm t)))) location_tables)"

text \<open>
  On SQLite the list of \<open>DELETE\<close>s does not name \<open>location_city_priority\<close>; the last one
  resets the counters of the identifiers, which belong to the engine.
\<close>

definition truncations :: "bool \<Rightarrow> (gostring list \<times> (tables \<Rightarrow> tables)) list" where
  "truncations pg =
     (if pg then [([''location_hierarchy'', ''location_alias'', ''location_codes'', ''location_sources'',
          ''location_city_priority''],
          \<lambda>t. t\<lparr>t_hierarchy := [], t_aliases := [], t_codes := [], t_sources := [], t_priority := []\<rparr>)]
      else [([''location_hierarchy''], \<lambda>t. t\<lparr>t_hierarchy := []\<rparr>), ([''location_alias''], \<lambda>t. t\<lparr>t_aliases := []\<rparr>),
        ([''location_codes''], \<lambda>t. t\<lparr>t_codes := []\<rparr>), ([''location_sources''], \<lambda>t. t\<lparr>t_sources := []\<rparr>),
        ([], \<lambda>t. t)])"

definition TruncateAll :: "bool \<Rightarrow> engine \<Rightarrow> database \<Rightarrow> unit outcome" where
  "TruncateAll pg eng =
     for_each (\<lambda>(names, f). wrapped (in_context ''truncate'') (statement eng names 0 (\<lambda>n t. (Inr (), f t))))
       (truncations pg)"

text \<open>Both dialects ask their catalogue.\<close>

definition HasLocationTables :: "engine \<Rightarrow> database \<Rightarrow> bool outcome" where
  "HasLocationTables eng = statement eng [] 0 (\<lambda>n t. (Inr (''location_sources'' \<in> t_names t), t))"

end
