(* ===== verification/Rebuild_Laws.thy ===== *)
theory Rebuild_Laws
  imports Location_Rebuild
begin

text \<open>
  What the operations of \<open>Location_Rebuild\<close> do to the tables: they keep the constraints of
  the schema whatever fails, they happen entirely or not at all, and on success their effect is
  the one of their rows, however these are cut into statements.
\<close>

section \<open>The constraints of the schema\<close>

definition tables_ok :: "tables \<Rightarrow> bool" where
  "tables_ok t \<longleftrightarrow>
     distinct (map ls_ID (t_sources t)) \<and> distinct (map (\<lambda>s. (ls_Code s, ls_Version s)) (t_sources t))
   \<and> distinct (map lc_ID (t_codes t)) \<and> distinct (map (\<lambda>r. (lc_SourceID r, lc_Kode r)) (t_codes t))
   \<and> distinct (map (\<lambda>r. (hi_SourceID r, hi_SubDistrictID r)) (t_hierarchy t))
   \<and> distinct (map (\<lambda>r. (pr_SourceID r, pr_LowercaseNormalized r)) (t_priority t))"

text \<open>
  The rows of the hierarchy refer to live codes of their source: a sub-district of four parts
  and the places with its first one, two and three parts.
\<close>

definition place :: "tables \<Rightarrow> int64 \<Rightarrow> gostring \<Rightarrow> int64 \<Rightarrow> bool" where
  "place t sid kode i \<longleftrightarrow> (\<exists>r\<in>set (t_codes t). lc_SourceID r = sid \<and> lc_LevelID r \<in> {2, 3, 4} \<and> lc_live r
     \<and> lc_Kode r = kode \<and> lc_ID r = i)"

definition chain_row :: "tables \<Rightarrow> int64 \<Rightarrow> hierarchy_row \<Rightarrow> bool" where
  "chain_row t sid h \<longleftrightarrow> hi_SourceID h = sid \<and> hi_live h \<and>
     (\<exists>s\<in>set (t_codes t). lc_SourceID s = sid \<and> lc_LevelID s = 5 \<and> lc_live s \<and> lc_ID s = hi_SubDistrictID h
        \<and> length (split_on dot (lc_Kode s)) = 4
        \<and> place t sid (parent_kode 1 (lc_Kode s)) (hi_ProvinceID h)
        \<and> place t sid (parent_kode 2 (lc_Kode s)) (hi_CityID h)
        \<and> place t sid (parent_kode 3 (lc_Kode s)) (hi_DistrictID h))"

definition schema_ok :: "tables \<Rightarrow> bool" where
  "schema_ok t \<longleftrightarrow> tables_ok t \<and> list_all (\<lambda>h. chain_row t (hi_SourceID h) h) (t_hierarchy t)"

definition keeps :: "(tables \<Rightarrow> bool) \<Rightarrow> (database \<Rightarrow> 'a outcome) \<Rightarrow> bool" where
  "keeps P f \<longleftrightarrow> (\<forall>db. P (d_tables db) \<longrightarrow> P (d_tables (snd (f db))))"

named_theorems keeps_intros

lemma reads_keeps [keeps_intros]: "reads f \<Longrightarrow> keeps P f"
  by (simp add: keeps_def reads_def)

lemma keeps_statement [keeps_intros]:
  assumes "\<And>n t t' x. f n t = (Inr x, t') \<Longrightarrow> P t \<Longrightarrow> P t'"
  shows "keeps P (statement eng names k f)"
  using assms by (auto simp: keeps_def statement_def Let_def split: option.split sum.split prod.split)

lemma keeps_wrapped [keeps_intros]: "keeps P f \<Longrightarrow> keeps P (wrapped w f)"
  by (auto simp: keeps_def wrapped_def split: prod.split sum.split)

lemma keeps_and_do [keeps_intros]: "keeps P f \<Longrightarrow> (\<And>x. keeps P (g x)) \<Longrightarrow> keeps P (and_do f g)"
  by (auto simp: keeps_def and_do_def split: prod.split sum.split)

lemma keeps_for_each [keeps_intros]:
  assumes "\<And>x. x \<in> set xs \<Longrightarrow> keeps P (f x)"
  shows "keeps P (for_each f xs)"
  using assms
proof (induction xs)
  case Nil
  then show ?case by (simp add: keeps_def)
next
  case (Cons x xs)
  have "for_each f (x # xs) = and_do (f x) (\<lambda>_. for_each f xs)" by (simp add: fun_eq_iff)
  then show ?case using Cons by (simp add: keeps_and_do)
qed

lemma keeps_atomic:
  assumes "atomic f" and "\<And>db x db'. f db = (Inr x, db') \<Longrightarrow> P (d_tables db) \<Longrightarrow> P (d_tables db')"
  shows "keeps P f"
  using assms unfolding keeps_def atomic_def by (auto split: prod.splits sum.splits) (metis obj_sumE surjective_pairing)

lemma same_row:
  assumes "tables_ok t" and "r \<in> set (t_codes t)" and "r' \<in> set (t_codes t)"
  shows "lc_ID r = lc_ID r' \<Longrightarrow> r = r'" and "lc_SourceID r = lc_SourceID r' \<Longrightarrow> lc_Kode r = lc_Kode r' \<Longrightarrow> r = r'"
  using assms by (auto simp: tables_ok_def distinct_map inj_on_def)

lemma place_unique:
  assumes "tables_ok t" and "place t sid kode i" and "place t sid kode' j"
  shows "kode = kode' \<longleftrightarrow> i = j"
  using assms same_row [OF assms(1)] unfolding place_def by metis

text \<open>More codes, or codes that agree but for their names, keep the chains.\<close>

lemma chain_row_mono:
  assumes "chain_row t sid h"
    and "\<And>r. r \<in> set (t_codes t) \<Longrightarrow> \<exists>r'\<in>set (t_codes t'). lc_ID r' = lc_ID r \<and> lc_SourceID r' = lc_SourceID r
      \<and> lc_Kode r' = lc_Kode r \<and> lc_LevelID r' = lc_LevelID r \<and> lc_DeletedAt r' = lc_DeletedAt r"
  shows "chain_row t' sid h"
proof -
  have place: "place t' sid k i" if "place t sid k i" for k i
    using that assms(2) unfolding place_def by metis
  show ?thesis
    using assms(1) unfolding chain_row_def
    by (elim conjE bexE) (drule assms(2), metis place)
qed

section \<open>Codes\<close>

text \<open>The codes of a source.\<close>

definition kodes_of :: "int64 \<Rightarrow> tables \<Rightarrow> gostring set" where
  "kodes_of sid t = lc_Kode ` {r \<in> set (t_codes t). lc_SourceID r = sid}"

text \<open>
  Rows were added: one for each code that the source did not have, the first of its name, with
  identifiers that are new and distinct.
\<close>

definition codes_added :: "int64 \<Rightarrow> location_code_row list \<Rightarrow> tables \<Rightarrow> tables \<Rightarrow> bool" where
  "codes_added sid rows t t' \<longleftrightarrow> (\<exists>ids.
     let fresh = dedup_by lr_Kode (kodes_of sid t) rows in
       length ids = length fresh \<and> distinct ids \<and> set ids \<inter> lc_ID ` set (t_codes t) = {}
     \<and> t' = t\<lparr>t_codes := t_codes t @ map2 (\<lambda>i. new_code i sid) ids fresh\<rparr>)"

lemma new_code_simps [simp]:
  "lc_ID (new_code i sid row) = i" "lc_SourceID (new_code i sid row) = sid" "lc_Kode (new_code i sid row) = lr_Kode row"
  "lc_Name (new_code i sid row) = lr_Name row" "lc_LevelID (new_code i sid row) = lr_LevelID row"
  "lc_DeletedAt (new_code i sid row) = None"
  by (simp_all add: new_code_def)

lemma map2_new_code:
  assumes "length ids = length rows"
  shows "map lc_ID (map2 (\<lambda>i. new_code i sid) ids rows) = ids"
    and "map lc_Kode (map2 (\<lambda>i. new_code i sid) ids rows) = map lr_Kode rows"
    and "r \<in> set (map2 (\<lambda>i. new_code i sid) ids rows) \<Longrightarrow> lc_SourceID r = sid \<and> lc_DeletedAt r = None"
  using assms by (induction ids rows rule: list_induct2) auto

lemma kodes_of_added:
  assumes "codes_added sid rows t t'"
  shows "kodes_of sid t' = kodes_of sid t \<union> lr_Kode ` set rows"
proof -
  obtain ids where len: "length ids = length (dedup_by lr_Kode (kodes_of sid t) rows)"
    and t': "t' = t\<lparr>t_codes := t_codes t @ map2 (\<lambda>i. new_code i sid) ids (dedup_by lr_Kode (kodes_of sid t) rows)\<rparr>"
    using assms by (auto simp: codes_added_def Let_def)
  let ?new = "map2 (\<lambda>i. new_code i sid) ids (dedup_by lr_Kode (kodes_of sid t) rows)"
  have "lc_Kode ` set ?new = lr_Kode ` set rows - kodes_of sid t"
    using arg_cong [OF map2_new_code(2) [OF len, of sid], of set] dedup_by_keys [of lr_Kode "kodes_of sid t" rows]
    by (simp add: image_image)
  moreover have "{r \<in> set (t_codes t @ ?new). lc_SourceID r = sid}
      = {r \<in> set (t_codes t). lc_SourceID r = sid} \<union> set ?new"
    using map2_new_code(3) [OF len] by auto
  ultimately show ?thesis
    by (simp add: kodes_of_def t' image_Un)
qed

lemma codes_added_refl: "codes_added sid [] t t"
  by (simp add: codes_added_def)

lemma codes_added_Cons_old:
  "lr_Kode row \<in> kodes_of sid t \<Longrightarrow> codes_added sid rows t t' \<Longrightarrow> codes_added sid (row # rows) t t'"
  by (simp add: codes_added_def)


lemma codes_added_Cons_new:
  assumes new: "lr_Kode row \<notin> kodes_of sid t" and i: "i \<notin> lc_ID ` set (t_codes t)"
    and rest: "codes_added sid rows (t\<lparr>t_codes := t_codes t @ [new_code i sid row]\<rparr>) t'"
  shows "codes_added sid (row # rows) t t'"
proof -
  let ?t1 = "t\<lparr>t_codes := t_codes t @ [new_code i sid row]\<rparr>"
  have "{r \<in> set (t_codes ?t1). lc_SourceID r = sid} = insert (new_code i sid row) {r \<in> set (t_codes t). lc_SourceID r = sid}"
    by auto
  then have "kodes_of sid ?t1 = insert (lr_Kode row) (kodes_of sid t)" by (simp add: kodes_of_def)
  with rest obtain ids where "length ids = length (dedup_by lr_Kode (insert (lr_Kode row) (kodes_of sid t)) rows)"
    and "distinct ids" and "set ids \<inter> lc_ID ` set (t_codes ?t1) = {}"
    and "t' = ?t1\<lparr>t_codes := t_codes ?t1 @ map2 (\<lambda>i. new_code i sid) ids
           (dedup_by lr_Kode (insert (lr_Kode row) (kodes_of sid t)) rows)\<rparr>"
    by (auto simp: codes_added_def Let_def)
  with new i show ?thesis
    unfolding codes_added_def Let_def by (intro exI [of _ "i # ids"]) auto
qed

lemma insert_codes_added:
  "insert_codes eng sid rows n t = (Inr (), t') \<Longrightarrow> codes_added sid rows t t'"
proof (induction eng sid rows n t rule: insert_codes.induct)
  case (1 eng sid n t)
  then show ?case by (simp add: codes_added_refl)
next
  case (2 eng sid row rows n t)
  have old: "list_ex (\<lambda>r. lc_SourceID r = sid \<and> lc_Kode r = lr_Kode row) (t_codes t) \<longleftrightarrow> lr_Kode row \<in> kodes_of sid t"
    by (force simp: list_ex_iff kodes_of_def)
  show ?case
  proof (cases "lr_Kode row \<in> kodes_of sid t")
    case True
    with 2 old show ?thesis by (simp add: codes_added_Cons_old)
  next
    case False
    let ?i = "en_id eng n (map lc_ID (t_codes t))"
    from False 2(3) old have fresh: "?i \<notin> set (map lc_ID (t_codes t))" by (auto simp: Let_def split: if_splits)
    with False 2 old have "codes_added sid rows (t\<lparr>t_codes := t_codes t @ [new_code ?i sid row]\<rparr>) t'"
      by (simp add: Let_def)
    with False fresh show ?thesis by (intro codes_added_Cons_new) simp_all
  qed
qed

lemma codes_added_trans:
  assumes "codes_added sid xs t t1" and "codes_added sid ys t1 t2"
  shows "codes_added sid (xs @ ys) t t2"
proof -
  let ?new = "dedup_by lr_Kode (kodes_of sid t) xs" and ?later = "dedup_by lr_Kode (kodes_of sid t1) ys"
  have k: "kodes_of sid t1 = kodes_of sid t \<union> lr_Kode ` set xs" using assms(1) by (rule kodes_of_added)
  obtain ids where ids: "length ids = length ?new" "distinct ids" "set ids \<inter> lc_ID ` set (t_codes t) = {}"
    and t1: "t1 = t\<lparr>t_codes := t_codes t @ map2 (\<lambda>i. new_code i sid) ids ?new\<rparr>"
    using assms(1) by (auto simp: codes_added_def Let_def)
  obtain ids' where ids': "length ids' = length ?later" "distinct ids'" "set ids' \<inter> lc_ID ` set (t_codes t1) = {}"
    and t2: "t2 = t1\<lparr>t_codes := t_codes t1 @ map2 (\<lambda>i. new_code i sid) ids' ?later\<rparr>"
    using assms(2) by (auto simp: codes_added_def Let_def)
  have "lc_ID ` set (map2 (\<lambda>i. new_code i sid) ids ?new) = set ids"
    using arg_cong [OF map2_new_code(1) [OF ids(1), of sid], of set] by (simp add: image_image)
  then have "lc_ID ` set (t_codes t1) = lc_ID ` set (t_codes t) \<union> set ids" by (simp add: t1 image_Un)
  with ids ids' have "distinct (ids @ ids')" and "set (ids @ ids') \<inter> lc_ID ` set (t_codes t) = {}" by auto
  with ids ids' show ?thesis
    unfolding codes_added_def Let_def
    by (intro exI [of _ "ids @ ids'"]) (simp add: dedup_by_append k [symmetric] t1 t2)
qed

lemma codes_added_ok: "tables_ok t \<Longrightarrow> codes_added sid rows t t' \<Longrightarrow> tables_ok t'"
proof -
  assume ok: "tables_ok t" and added: "codes_added sid rows t t'"
  let ?new = "dedup_by lr_Kode (kodes_of sid t) rows"
  obtain ids where ids: "length ids = length ?new" "distinct ids" "set ids \<inter> lc_ID ` set (t_codes t) = {}"
    and t': "t' = t\<lparr>t_codes := t_codes t @ map2 (\<lambda>i. new_code i sid) ids ?new\<rparr>"
    using added by (auto simp: codes_added_def Let_def)
  let ?rows = "map2 (\<lambda>i. new_code i sid) ids ?new" and ?key = "\<lambda>r. (lc_SourceID r, lc_Kode r)"
  have new_ids: "map lc_ID ?rows = ids" by (rule map2_new_code(1) [OF ids(1)])
  have kodes: "map lc_Kode ?rows = map lr_Kode ?new" by (rule map2_new_code(2) [OF ids(1)])
  have sids: "lc_SourceID r = sid" if "r \<in> set ?rows" for r using map2_new_code(3) [OF ids(1) that] by simp
  have "map ?key ?rows = map (Pair sid \<circ> lc_Kode) ?rows"
    by (rule map_cong [OF refl]) (simp only: sids o_apply)
  also have "\<dots> = map (Pair sid) (map lr_Kode ?new)" by (simp only: map_map [symmetric] kodes)
  finally have keys: "map ?key ?rows = map (Pair sid) (map lr_Kode ?new)" .
  have "distinct (map (Pair sid) (map lr_Kode ?new))"
    using dedup_by_distinct [of lr_Kode "kodes_of sid t" rows] by (simp add: distinct_map inj_on_def)
  moreover have "set (map (Pair sid) (map lr_Kode ?new)) \<inter> set (map ?key (t_codes t)) = {}"
    using dedup_by_keys [of lr_Kode "kodes_of sid t" rows] by (auto simp: kodes_of_def)
  ultimately have "distinct (map ?key (t_codes t) @ map ?key ?rows)"
    unfolding keys using ok by (auto simp: tables_ok_def)
  moreover have "distinct (map lc_ID (t_codes t) @ map lc_ID ?rows)"
    unfolding new_ids using ok ids by (auto simp: tables_ok_def)
  ultimately show "tables_ok t'" using ok by (simp add: tables_ok_def t' del: map_map)
qed


lemma for_each_codes_added:
  assumes "for_each (\<lambda>chunk. wrapped w (statement eng names (k chunk) (insert_codes eng sid chunk))) chunks db
      = (Inr (), db')"
  shows "codes_added sid (concat chunks) (d_tables db) (d_tables db')"
  using assms
proof (induction chunks arbitrary: db)
  case Nil
  then show ?case by (simp add: codes_added_refl)
next
  case (Cons c cs)
  then obtain db1 where first: "statement eng names (k c) (insert_codes eng sid c) db = (Inr (), db1)"
    and rest: "codes_added sid (concat cs) (d_tables db1) (d_tables db')"
    by (auto simp: and_do_Inr)
  from first have "codes_added sid c (d_tables db) (d_tables db1)"
    by (auto elim!: statementE dest: insert_codes_added)
  from codes_added_trans [OF this rest] show ?case by simp
qed

lemma InsertLocationCodeBatch_success:
  assumes "InsertLocationCodeBatch eng sid rows db = (Inr (), db')"
  shows "codes_added sid rows (d_tables db) (d_tables db')"
proof (cases "rows = []")
  case True
  with assms show ?thesis by (simp add: InsertLocationCodeBatch_def return_def codes_added_refl)
next
  case False
  with assms obtain db1 db2 where "d_tables db1 = d_tables db" and "d_tables db' = d_tables db2"
    and "for_each (\<lambda>chunk. wrapped (in_context ''insert batch'')
           (statement eng [''location_codes''] (6 * length chunk) (insert_codes eng sid chunk))) (batches 4000 rows) db1
         = (Inr (), db2)"
    by (auto simp: InsertLocationCodeBatch_def elim!: in_txE)
  with for_each_codes_added [OF this(3)] show ?thesis by simp
qed

lemma InsertLocationCodeBatch_atomic: "atomic (InsertLocationCodeBatch eng sid rows)"
  unfolding InsertLocationCodeBatch_def by (simp add: db_intros)

lemma codes_added_schema:
  assumes "schema_ok t" and "codes_added sid rows t t'"
  shows "schema_ok t'"
proof -
  obtain new where t': "t' = t\<lparr>t_codes := t_codes t @ new\<rparr>"
    using assms(2) by (auto simp: codes_added_def Let_def)
  have "chain_row t' sid' h" if "chain_row t sid' h" for sid' h
    using that by (rule chain_row_mono) (auto simp: t')
  with assms show ?thesis
    by (auto simp: schema_ok_def list_all_iff t' dest: codes_added_ok)
qed

lemma InsertLocationCodeBatch_keeps: "keeps schema_ok (InsertLocationCodeBatch eng sid rows)"
  using InsertLocationCodeBatch_atomic
  by (rule keeps_atomic) (metis (full_types) codes_added_schema InsertLocationCodeBatch_success old.unit.exhaust)

interpretation code_batch: transactional "InsertLocationCodeBatch eng sid" for eng sid
  by unfold_locales (rule InsertLocationCodeBatch_atomic)

section \<open>Sources\<close>

lemma schema_ok_codes:
  "t_codes t' = t_codes t \<Longrightarrow> t_hierarchy t' = t_hierarchy t \<Longrightarrow> tables_ok t' \<Longrightarrow> schema_ok t \<Longrightarrow> schema_ok t'"
  by (simp add: schema_ok_def chain_row_def place_def)

lemma insert_source_ok: "insert_source eng code version nm codeDate descr n t = (Inr x, t') \<Longrightarrow> schema_ok t \<Longrightarrow> schema_ok t'"
  by (rule schema_ok_codes [of t' t])
    (auto simp: insert_source_def Let_def tables_ok_def schema_ok_def list_ex_iff split: if_splits)

lemma InsertLocationSource_keeps: "keeps schema_ok (InsertLocationSource eng code version nm codeDate descr)"
  unfolding InsertLocationSource_def
  by (intro keeps_intros reads_query_row) (blast intro: insert_source_ok)

section \<open>The hierarchy\<close>

lemma flush_hierarchy_success:
  "flush_hierarchy eng pending db = (Inr (), db') \<Longrightarrow> d_tables db' = fold insert_hierarchy pending (d_tables db)"
  by (auto simp: flush_hierarchy_def return_def split: if_splits elim!: statementE)

lemma hierarchy_loop_success:
  assumes "hierarchy_loop eng m sid pending subs db = (Inr (), db')"
  shows "d_tables db' = fold insert_hierarchy (pending @ List.map_filter (hierarchy_insert m sid) subs) (d_tables db)"
  using assms
proof (induction subs arbitrary: pending db)
  case Nil
  then show ?case by (simp add: flush_hierarchy_success List.map_filter_def)
next
  case (Cons s subs)
  show ?case
  proof (cases "hierarchy_insert m sid s")
    case None
    with Cons show ?thesis by (simp add: map_filter_simps)
  next
    case (Some h)
    show ?thesis
    proof (cases "hchunk \<le> length (pending @ [h])")
      case True
      with Some Cons.prems obtain db1 where "flush_hierarchy eng (pending @ [h]) db = (Inr (), db1)"
        and "hierarchy_loop eng m sid [] subs db1 = (Inr (), db')"
        by (auto simp: and_do_Inr)
      with Cons.IH [of "[]" db1] flush_hierarchy_success [of eng "pending @ [h]" db db1] Some
      show ?thesis by (simp add: map_filter_simps)
    next
      case False
      with Some Cons.prems Cons.IH [of "pending @ [h]" db] show ?thesis by (simp add: map_filter_simps)
    qed
  qed
qed

text \<open>The rows that a rebuild asks for, in the order in which the engine lists the sub-districts.\<close>

definition wanted_rows :: "engine \<Rightarrow> int64 \<Rightarrow> nat \<Rightarrow> nat \<Rightarrow> tables \<Rightarrow> hierarchy_row list" where
  "wanted_rows eng sid n n' t = List.map_filter
     (hierarchy_insert (kode_to_id (select_codes eng (\<lambda>r. lc_SourceID r = sid \<and> lc_LevelID r \<in> {2, 3, 4}) n t)) sid)
     (select_codes eng (\<lambda>r. lc_SourceID r = sid \<and> lc_LevelID r = 5) n' t)"

lemma RebuildLocationHierarchy_success:
  assumes "RebuildLocationHierarchy eng sid db = (Inr (), db')"
  obtains n n' where "d_tables db' = fold insert_hierarchy (wanted_rows eng sid n n' (d_tables db)) (d_tables db)"
proof -
  obtain parents subs db1 db2 where
    "query_codes eng 1 (\<lambda>r. lc_SourceID r = sid \<and> lc_LevelID r \<in> {2, 3, 4}) (\<lambda>r. r) db = (Inr parents, db1)"
    and "query_codes eng 1 (\<lambda>r. lc_SourceID r = sid \<and> lc_LevelID r = 5) (\<lambda>r. r) db1 = (Inr subs, db2)"
    and tx: "in_tx eng (in_context ''begin tx'') (in_context ''commit'')
          (hierarchy_loop eng (kode_to_id parents) sid [] subs) db2 = (Inr (), db')"
    using assms unfolding RebuildLocationHierarchy_def and_do_Inr wrapped_Inr by blast
  then have parents: "parents = select_codes eng (\<lambda>r. lc_SourceID r = sid \<and> lc_LevelID r \<in> {2, 3, 4}) (d_clock db) (d_tables db)"
    and subs: "subs = select_codes eng (\<lambda>r. lc_SourceID r = sid \<and> lc_LevelID r = 5) (d_clock db1) (d_tables db)"
    and same: "d_tables db2 = d_tables db"
    by (auto elim!: query_codesE)
  from tx have "d_tables db' = fold insert_hierarchy (List.map_filter (hierarchy_insert (kode_to_id parents) sid) subs) (d_tables db)"
    by (auto simp: same elim!: in_txE dest!: hierarchy_loop_success)
  then show ?thesis by (intro that [of "d_clock db" "d_clock db1"]) (simp only: wanted_rows_def parents subs)
qed

lemma RebuildLocationHierarchy_atomic: "atomic (RebuildLocationHierarchy eng sid)"
  unfolding RebuildLocationHierarchy_def by (intro db_intros)

interpretation hierarchy_build: transactional "RebuildLocationHierarchy eng" for eng
  by unfold_locales (rule RebuildLocationHierarchy_atomic)


text \<open>Appending what is new of a list of rows.\<close>

abbreviation hi_key :: "hierarchy_row \<Rightarrow> int64 \<times> int64" where
  "hi_key h \<equiv> (hi_SourceID h, hi_SubDistrictID h)"

lemma fold_insert_hierarchy:
  "fold insert_hierarchy hs t =
     t\<lparr>t_hierarchy := t_hierarchy t @ dedup_by hi_key (hi_key ` set (t_hierarchy t)) hs\<rparr>"
proof (induction hs arbitrary: t)
  case (Cons h hs)
  have present: "list_ex (\<lambda>r. hi_SourceID r = hi_SourceID h \<and> hi_SubDistrictID r = hi_SubDistrictID h) (t_hierarchy t)
      \<longleftrightarrow> hi_key h \<in> hi_key ` set (t_hierarchy t)"
    by (auto simp: list_ex_iff image_iff) metis
  show ?case
  proof (cases "hi_key h \<in> hi_key ` set (t_hierarchy t)")
    case True
    with present Cons show ?thesis by (simp add: insert_hierarchy_def)
  next
    case False
    with present have "insert_hierarchy h t = t\<lparr>t_hierarchy := t_hierarchy t @ [h]\<rparr>"
      by (simp add: insert_hierarchy_def)
    with False Cons show ?thesis by simp
  qed
qed simp

lemma fold_insert_hierarchy_ok: "tables_ok t \<Longrightarrow> tables_ok (fold insert_hierarchy hs t)"
  unfolding fold_insert_hierarchy tables_ok_def
  using dedup_by_distinct [of hi_key "hi_key ` set (t_hierarchy t)" hs]
    dedup_by_keys [of hi_key "hi_key ` set (t_hierarchy t)" hs]
  by (simp add: disjoint_iff)

section \<open>What the hierarchy holds\<close>

lemma kode_to_id_place:
  assumes "is_engine eng" and "tables_ok t"
  shows "kode_to_id (select_codes eng (\<lambda>r. lc_SourceID r = sid \<and> lc_LevelID r \<in> {2, 3, 4}) n t) k = Some i
    \<longleftrightarrow> place t sid k i"
proof -
  have "kode_to_id (select_codes eng (\<lambda>r. lc_SourceID r = sid \<and> lc_LevelID r \<in> {2, 3, 4}) n t) k = Some i \<longleftrightarrow>
      (\<exists>r\<in>set (select_codes eng (\<lambda>r. lc_SourceID r = sid \<and> lc_LevelID r \<in> {2, 3, 4}) n t). lc_Kode r = k \<and> lc_ID r = i)"
    unfolding kode_to_id_def
  proof (rule foldl_upd_functional)
    fix r r' :: location_code
    assume "r \<in> set (select_codes eng (\<lambda>r. lc_SourceID r = sid \<and> lc_LevelID r \<in> {2, 3, 4}) n t)"
      and "r' \<in> set (select_codes eng (\<lambda>r. lc_SourceID r = sid \<and> lc_LevelID r \<in> {2, 3, 4}) n t)"
      and "lc_Kode r = lc_Kode r'"
    then have "r = r'" by (intro same_row(2) [OF assms(2)]) (simp_all add: set_select_codes [OF assms(1)])
    then show "lc_ID r = lc_ID r'" by simp
  qed
  then show ?thesis by (auto simp: set_select_codes [OF assms(1)] place_def)
qed


lemma hierarchy_insert_Some:
  "hierarchy_insert m sid s = Some h \<longleftrightarrow> length (split_on dot (lc_Kode s)) = 4
     \<and> m (parent_kode 1 (lc_Kode s)) = Some (hi_ProvinceID h) \<and> m (parent_kode 2 (lc_Kode s)) = Some (hi_CityID h)
     \<and> m (parent_kode 3 (lc_Kode s)) = Some (hi_DistrictID h)
     \<and> hi_SourceID h = sid \<and> hi_SubDistrictID h = lc_ID s \<and> hi_live h"
  by (cases h) (auto simp: hierarchy_insert_def split: option.split)

lemma set_map_filter: "set (List.map_filter f xs) = {y. \<exists>x\<in>set xs. f x = Some y}"
  by (force simp: List.map_filter_def)

lemma set_wanted_rows:
  assumes "is_engine eng" and "tables_ok t"
  shows "set (wanted_rows eng sid n n' t) = Collect (chain_row t sid)"
proof -
  have "h \<in> set (wanted_rows eng sid n n' t) \<longleftrightarrow> chain_row t sid h" for h
    unfolding wanted_rows_def set_map_filter mem_Collect_eq hierarchy_insert_Some kode_to_id_place [OF assms]
      set_select_codes [OF assms(1)] chain_row_def
    by auto
  then show ?thesis by blast
qed

lemma chain_row_unique:
  assumes ok: "tables_ok t" and "chain_row t sid h" and "chain_row t sid h'" and same: "hi_SubDistrictID h = hi_SubDistrictID h'"
  shows "h = h'"
proof -
  obtain s where s: "s \<in> set (t_codes t)" "lc_ID s = hi_SubDistrictID h"
      "place t sid (parent_kode 1 (lc_Kode s)) (hi_ProvinceID h)"
      "place t sid (parent_kode 2 (lc_Kode s)) (hi_CityID h)" "place t sid (parent_kode 3 (lc_Kode s)) (hi_DistrictID h)"
    using assms(2) unfolding chain_row_def by blast
  obtain s' where s': "s' \<in> set (t_codes t)" "lc_ID s' = hi_SubDistrictID h'"
      "place t sid (parent_kode 1 (lc_Kode s')) (hi_ProvinceID h')"
      "place t sid (parent_kode 2 (lc_Kode s')) (hi_CityID h')" "place t sid (parent_kode 3 (lc_Kode s')) (hi_DistrictID h')"
    using assms(3) unfolding chain_row_def by blast
  have "s = s'" using s(1,2) s'(1,2) same by (intro same_row(1) [OF ok]) simp_all
  then have "hi_ProvinceID h = hi_ProvinceID h'" and "hi_CityID h = hi_CityID h'" and "hi_DistrictID h = hi_DistrictID h'"
    using place_unique [OF ok s(3)] place_unique [OF ok s(4)] place_unique [OF ok s(5)] s' by blast+
  with same assms(2,3) show ?thesis by (cases h; cases h') (simp add: chain_row_def)
qed

lemma dedup_by_set_unique:
  assumes "\<And>x y. x \<in> set xs \<Longrightarrow> y \<in> set xs \<Longrightarrow> key x = key y \<Longrightarrow> x = y"
  shows "set (dedup_by key seen xs) = {x \<in> set xs. key x \<notin> seen}"
proof -
  have "x \<in> set (dedup_by key seen xs)" if "x \<in> set xs" and "key x \<notin> seen" for x
  proof -
    from that have "key x \<in> key ` set (dedup_by key seen xs)" by (simp add: dedup_by_keys)
    then obtain y where "y \<in> set (dedup_by key seen xs)" and "key y = key x" by auto
    with assms [of y x] that(1) dedup_by_subset [of key seen xs] show ?thesis by blast
  qed
  then show ?thesis using dedup_by_subset [of key seen xs] dedup_by_fresh [of _ key seen xs] by blast
qed

lemma rebuilt_hierarchy:
  assumes eng: "is_engine eng" and ok: "tables_ok (d_tables db)"
    and success: "RebuildLocationHierarchy eng sid db = (Inr (), db')"
  shows "d_tables db' = (d_tables db)\<lparr>t_hierarchy := t_hierarchy (d_tables db')\<rparr>"
    and "set (t_hierarchy (d_tables db')) = set (t_hierarchy (d_tables db))
      \<union> {h. chain_row (d_tables db) sid h \<and> hi_key h \<notin> hi_key ` set (t_hierarchy (d_tables db))}"
proof -
  let ?t = "d_tables db"
  obtain n n' where t': "d_tables db' = fold insert_hierarchy (wanted_rows eng sid n n' ?t) ?t"
    using success by (rule RebuildLocationHierarchy_success)
  then show "d_tables db' = ?t\<lparr>t_hierarchy := t_hierarchy (d_tables db')\<rparr>" by (simp add: fold_insert_hierarchy)
  have "set (dedup_by hi_key seen (wanted_rows eng sid n n' ?t)) = {h. chain_row ?t sid h \<and> hi_key h \<notin> seen}" for seen
    unfolding set_wanted_rows [OF eng ok, symmetric]
  proof -
    have "set (dedup_by hi_key seen (wanted_rows eng sid n n' ?t)) = {h \<in> set (wanted_rows eng sid n n' ?t). hi_key h \<notin> seen}"
      by (rule dedup_by_set_unique)
        (auto simp: set_wanted_rows [OF eng ok] intro: chain_row_unique [OF ok])
    then show ?thesis by (simp add: set_wanted_rows [OF eng ok])
  qed
  then show "set (t_hierarchy (d_tables db')) = set (t_hierarchy ?t)
      \<union> {h. chain_row ?t sid h \<and> hi_key h \<notin> hi_key ` set (t_hierarchy ?t)}"
    by (simp add: t' fold_insert_hierarchy)
qed

section \<open>Loading a rebuilt hierarchy\<close>

lemma parent_parent_kode: "j \<le> k \<Longrightarrow> 0 < k \<Longrightarrow> parent_kode j (parent_kode k kode) = parent_kode j kode"
proof -
  assume "j \<le> k" and "0 < k"
  have "split_on dot (parent_kode k kode) = take k (split_on dot kode)"
    unfolding parent_kode_def using \<open>0 < k\<close>
    by (intro split_on_join) (auto dest: in_set_takeD split_on_no_sep)
  with \<open>j \<le> k\<close> show ?thesis by (simp add: parent_kode_def min_absorb1)
qed

text \<open>In the rows of a source a district has one city and a city one province.\<close>

lemma chain_functional:
  assumes ok: "tables_ok t" and "chain_row t sid h" and "chain_row t sid h'"
  shows "hi_DistrictID h = hi_DistrictID h' \<Longrightarrow> hi_CityID h = hi_CityID h'"
    and "hi_CityID h = hi_CityID h' \<Longrightarrow> hi_ProvinceID h = hi_ProvinceID h'"
proof -
  obtain k where k: "place t sid (parent_kode 1 k) (hi_ProvinceID h)" "place t sid (parent_kode 2 k) (hi_CityID h)"
      "place t sid (parent_kode 3 k) (hi_DistrictID h)"
    using assms(2) unfolding chain_row_def by blast
  obtain k' where k': "place t sid (parent_kode 1 k') (hi_ProvinceID h')" "place t sid (parent_kode 2 k') (hi_CityID h')"
      "place t sid (parent_kode 3 k') (hi_DistrictID h')"
    using assms(3) unfolding chain_row_def by blast
  show "hi_CityID h = hi_CityID h'" if "hi_DistrictID h = hi_DistrictID h'"
  proof -
    have "parent_kode 3 k = parent_kode 3 k'" using place_unique [OF ok k(3) k'(3)] that by simp
    then have "parent_kode 2 k = parent_kode 2 k'"
      using parent_parent_kode [of 2 3 k] parent_parent_kode [of 2 3 k'] by simp
    then show ?thesis using place_unique [OF ok k(2) k'(2)] by simp
  qed
  show "hi_ProvinceID h = hi_ProvinceID h'" if "hi_CityID h = hi_CityID h'"
  proof -
    have "parent_kode 2 k = parent_kode 2 k'" using place_unique [OF ok k(2) k'(2)] that by simp
    then have "parent_kode 1 k = parent_kode 1 k'"
      using parent_parent_kode [of 1 2 k] parent_parent_kode [of 1 2 k'] by simp
    then show ?thesis using place_unique [OF ok k(1) k'(1)] by simp
  qed
qed

lemma foldl_add_hierarchy_row:
  "foldl add_hierarchy_row h rows = \<lparr>
     CityToProvince = foldl (\<lambda>m r. m(hi_CityID r \<mapsto> hi_ProvinceID r)) (CityToProvince h) rows,
     DistrictToCity = foldl (\<lambda>m r. m(hi_DistrictID r \<mapsto> hi_CityID r)) (DistrictToCity h) rows,
     SubDistrictToDist = foldl (\<lambda>m r. m(hi_SubDistrictID r \<mapsto> hi_DistrictID r)) (SubDistrictToDist h) rows\<rparr>"
  by (induction rows arbitrary: h) (simp_all add: add_hierarchy_row_def)

text \<open>What a hierarchy says of the rows of a source.\<close>

definition hierarchy_reads :: "tables \<Rightarrow> int64 \<Rightarrow> hierarchy_map \<Rightarrow> bool" where
  "hierarchy_reads t sid h \<longleftrightarrow>
     (\<forall>c p. CityToProvince h c = Some p \<longleftrightarrow> (\<exists>r. chain_row t sid r \<and> hi_CityID r = c \<and> hi_ProvinceID r = p))
   \<and> (\<forall>d c. DistrictToCity h d = Some c \<longleftrightarrow> (\<exists>r. chain_row t sid r \<and> hi_DistrictID r = d \<and> hi_CityID r = c))
   \<and> (\<forall>s d. SubDistrictToDist h s = Some d
        \<longleftrightarrow> (\<exists>r. chain_row t sid r \<and> hi_SubDistrictID r = s \<and> hi_DistrictID r = d))"

lemma hierarchy_reads_rows:
  assumes ok: "tables_ok t" and rows: "set rows = Collect (chain_row t sid)"
  shows "hierarchy_reads t sid (foldl add_hierarchy_row empty_hierarchy rows)"
proof -
  have in_rows: "chain_row t sid r" if "r \<in> set rows" for r using that rows by simp
  have cp: "foldl (\<lambda>m r. m(hi_CityID r \<mapsto> hi_ProvinceID r)) Map.empty rows c = Some p
      \<longleftrightarrow> (\<exists>r\<in>set rows. hi_CityID r = c \<and> hi_ProvinceID r = p)" for c p
    by (rule foldl_upd_functional) (rule chain_functional(2) [OF ok in_rows in_rows])
  have dc: "foldl (\<lambda>m r. m(hi_DistrictID r \<mapsto> hi_CityID r)) Map.empty rows d = Some c
      \<longleftrightarrow> (\<exists>r\<in>set rows. hi_DistrictID r = d \<and> hi_CityID r = c)" for d c
    by (rule foldl_upd_functional) (rule chain_functional(1) [OF ok in_rows in_rows])
  have sd: "foldl (\<lambda>m r. m(hi_SubDistrictID r \<mapsto> hi_DistrictID r)) Map.empty rows s = Some d
      \<longleftrightarrow> (\<exists>r\<in>set rows. hi_SubDistrictID r = s \<and> hi_DistrictID r = d)" for s d
    by (rule foldl_upd_functional) (auto dest: chain_row_unique [OF ok in_rows in_rows])
  show ?thesis
    unfolding hierarchy_reads_def foldl_add_hierarchy_row empty_hierarchy_def hierarchy_map.simps cp dc sd rows
    by simp
qed


lemma loaded_hierarchy:
  assumes "is_engine eng" and "tables_ok (d_tables db)"
    and rows: "{r \<in> set (t_hierarchy (d_tables db)). hi_SourceID r = sid \<and> hi_live r} = Collect (chain_row t sid)"
    and "tables_ok t" and load: "repo_LoadFullHierarchy eng sid db = (Inr h, db')"
  shows "hierarchy_reads t sid h"
proof -
  have "h = foldl add_hierarchy_row empty_hierarchy (select_hierarchy eng sid (d_clock db) (d_tables db))"
    using load unfolding repo_LoadFullHierarchy_def wrapped_Inr by (auto elim: queryE)
  with assms(1,4) rows show ?thesis by (simp add: hierarchy_reads_rows set_select_hierarchy)
qed

lemma rebuilt_rows:
  assumes "is_engine eng" and "tables_ok (d_tables db)"
    and "RebuildLocationHierarchy eng sid db = (Inr (), db')"
    and "\<forall>r\<in>set (t_hierarchy (d_tables db)). hi_SourceID r \<noteq> sid"
  shows "{r \<in> set (t_hierarchy (d_tables db')). hi_SourceID r = sid \<and> hi_live r} = Collect (chain_row (d_tables db) sid)"
  unfolding rebuilt_hierarchy(2) [OF assms(1-3)] using assms(4) by (auto simp: chain_row_def)

section \<open>Normalised names\<close>

text \<open>Every live row has the normalised name of its name, the others are as they were.\<close>

definition renormalized :: "gostring \<Rightarrow> location_code \<Rightarrow> location_code" where
  "renormalized now r =
     (if lc_live r then r\<lparr>lc_LowercaseNormalized := Normalize (lc_Name r), lc_UpdatedAt := Some now\<rparr> else r)"

lemma update_normalized_rows:
  assumes "distinct (map lc_ID (t_codes t))" and "set done_rows \<union> set chunk \<subseteq> set rows"
    and "t_codes t = map (\<lambda>r. if r \<in> set done_rows then renormalized now r else r) rows"
    and live: "\<forall>r\<in>set chunk. lc_live r"
  shows "t_codes (update_normalized now chunk t)
       = map (\<lambda>r. if r \<in> set (done_rows @ chunk) then renormalized now r else r) rows"
proof -
  have same_id: "lc_ID (if r \<in> set done_rows then renormalized now r else r) = lc_ID r" for r
    by (simp add: renormalized_def)
  then have ids: "distinct (map lc_ID rows)" using assms(1) unfolding assms(3) by (simp add: o_def)
  have found: "map_of (map (\<lambda>c. (lc_ID c, Normalize (lc_Name c))) chunk) (lc_ID r)
      = (if r \<in> set chunk then Some (Normalize (lc_Name r)) else None)" if "r \<in> set rows" for r
  proof (cases "r \<in> set chunk")
    case True
    have "map_of (map (\<lambda>c. (lc_ID c, Normalize (lc_Name c))) chunk) (lc_ID r) \<noteq> None"
      unfolding map_of_eq_None_iff using True by (simp add: image_image)
    then obtain v where v: "map_of (map (\<lambda>c. (lc_ID c, Normalize (lc_Name c))) chunk) (lc_ID r) = Some v" by blast
    from map_of_SomeD [OF this] obtain c where c: "c \<in> set chunk" "lc_ID c = lc_ID r" "v = Normalize (lc_Name c)" by auto
    have "c = r" using ids c(1,2) that assms(2) by (auto simp: distinct_map inj_on_def)
    with v c True show ?thesis by simp
  next
    case False
    have "lc_ID r \<notin> lc_ID ` set chunk"
      using ids that False assms(2) by (auto simp: distinct_map inj_on_def)
    with False show ?thesis by (simp add: map_of_eq_None_iff image_image)
  qed
  show ?thesis
    unfolding update_normalized_def assms(3)
    by (auto simp: found same_id renormalized_def live)
qed


lemma for_each_normalized:
  assumes "for_each (\<lambda>chunk. wrapped w (statement eng names (k chunk)
             (\<lambda>n t. (Inr (), update_normalized now chunk t)))) chunks db = (Inr (), db')"
    and "distinct (map lc_ID rows)" and "set done_rows \<union> set (concat chunks) \<subseteq> set rows"
    and "t_codes (d_tables db) = map (\<lambda>r. if r \<in> set done_rows then renormalized now r else r) rows"
    and "\<forall>r\<in>set (concat chunks). lc_live r"
  shows "t_codes (d_tables db') = map (\<lambda>r. if r \<in> set (done_rows @ concat chunks) then renormalized now r else r) rows
    \<and> d_tables db' = (d_tables db)\<lparr>t_codes := t_codes (d_tables db')\<rparr>"
  using assms
proof (induction chunks arbitrary: db done_rows)
  case Nil
  then show ?case by simp
next
  case (Cons c cs)
  then obtain db1 where first: "d_tables db1 = update_normalized now c (d_tables db)"
    and rest: "for_each (\<lambda>chunk. wrapped w (statement eng names (k chunk)
             (\<lambda>n t. (Inr (), update_normalized now chunk t)))) cs db1 = (Inr (), db')"
    by (auto simp: and_do_Inr elim!: statementE)
  have "lc_ID (if r \<in> set done_rows then renormalized now r else r) = lc_ID r" for r
    by (simp add: renormalized_def)
  then have "distinct (map lc_ID (t_codes (d_tables db)))" using Cons.prems(2,4) by (simp add: o_def)
  then have "t_codes (d_tables db1) = map (\<lambda>r. if r \<in> set (done_rows @ c) then renormalized now r else r) rows"
    unfolding first using Cons.prems by (intro update_normalized_rows) auto
  then have IH: "t_codes (d_tables db') = map (\<lambda>r. if r \<in> set ((done_rows @ c) @ concat cs) then renormalized now r else r) rows
      \<and> d_tables db' = (d_tables db1)\<lparr>t_codes := t_codes (d_tables db')\<rparr>"
    using Cons.prems(3,5) by (intro Cons.IH [OF rest Cons.prems(2)]) auto
  have "\<exists>x. d_tables db1 = (d_tables db)\<lparr>t_codes := x\<rparr>" by (simp add: first update_normalized_def) blast
  then obtain x where db1: "d_tables db1 = (d_tables db)\<lparr>t_codes := x\<rparr>" by blast
  have "d_tables db' = (d_tables db1)\<lparr>t_codes := t_codes (d_tables db')\<rparr>" using IH by (rule conjunct2)
  also have "\<dots> = (d_tables db)\<lparr>t_codes := t_codes (d_tables db')\<rparr>" by (simp add: db1)
  finally show ?case using conjunct1 [OF IH] by (simp only: append_assoc concat.simps simp_thms)
qed

lemma RebuildNormalized_success:
  assumes "is_engine eng" and "tables_ok (d_tables db)" and "RebuildNormalized eng db = (Inr (), db')"
  obtains n where "d_tables db' = (d_tables db)\<lparr>t_codes := map (renormalized (en_now eng n)) (t_codes (d_tables db))\<rparr>"
proof -
  obtain codes db1 db2 db3 where
    codes: "query_codes eng 0 (\<lambda>r. True) (\<lambda>r. r) db = (Inr codes, db1)"
    and same: "d_tables db2 = d_tables db1"
    and loop: "for_each (\<lambda>chunk. wrapped (in_context ''update batch'')
             (statement eng [''location_codes''] (3 * length chunk + 1)
                (\<lambda>n t. (Inr (), update_normalized (en_now eng (d_clock db1)) chunk t)))) (batches 4000 codes) db2
          = (Inr (), db3)" and db': "d_tables db' = d_tables db3"
    using assms(3) unfolding RebuildNormalized_def and_do_Inr wrapped_Inr by (auto elim!: in_txE)
  have set_codes: "set codes = {r \<in> set (t_codes (d_tables db)). lc_live r}" and "d_tables db1 = d_tables db"
    using codes by (auto simp: set_select_codes [OF assms(1)] elim: query_codesE)
  with same have t2: "d_tables db2 = d_tables db" by simp
  have both: "t_codes (d_tables db3) = map (\<lambda>r. if r \<in> set ([] @ concat (batches 4000 codes))
          then renormalized (en_now eng (d_clock db1)) r else r) (t_codes (d_tables db))
      \<and> d_tables db3 = (d_tables db2)\<lparr>t_codes := t_codes (d_tables db3)\<rparr>"
    by (rule for_each_normalized [OF loop]) (use assms(2) in \<open>auto simp: tables_ok_def set_codes t2\<close>)
  have "map (\<lambda>r. if r \<in> set ([] @ concat (batches 4000 codes)) then renormalized now r else r) (t_codes (d_tables db))
      = map (renormalized now) (t_codes (d_tables db))" for now
    by (rule map_cong [OF refl]) (simp add: set_codes renormalized_def)
  with both have codes3: "t_codes (d_tables db3) = map (renormalized (en_now eng (d_clock db1))) (t_codes (d_tables db))"
    by (simp only:)
  have "d_tables db3 = (d_tables db2)\<lparr>t_codes := t_codes (d_tables db3)\<rparr>" using both by (rule conjunct2)
  then have "d_tables db' = (d_tables db)\<lparr>t_codes := map (renormalized (en_now eng (d_clock db1))) (t_codes (d_tables db))\<rparr>"
    by (simp only: codes3 t2 db')
  then show ?thesis by (rule that)
qed

lemma RebuildNormalized_atomic: "atomic (RebuildNormalized eng)"
  unfolding RebuildNormalized_def
  by (intro atomic_read_then atomic_in_tx_at db_intros)

lemma renormalized_ok: "tables_ok t \<Longrightarrow> tables_ok (t\<lparr>t_codes := map (renormalized now) (t_codes t)\<rparr>)"
proof -
  have "lc_ID (renormalized now r) = lc_ID r" "lc_SourceID (renormalized now r) = lc_SourceID r"
    "lc_Kode (renormalized now r) = lc_Kode r" for r
    by (simp_all add: renormalized_def)
  then show "tables_ok t \<Longrightarrow> tables_ok (t\<lparr>t_codes := map (renormalized now) (t_codes t)\<rparr>)"
    by (simp add: tables_ok_def o_def)
qed

section \<open>City priorities\<close>

lemma reads_priorities_of [db_intros]: "reads (priorities_of eng sid names)"
proof (induction names)
  case Nil
  have "priorities_of eng sid [] = return []" by (simp add: fun_eq_iff)
  then show ?case by (simp add: reads_return)
next
  case (Cons nm names)
  have "priorities_of eng sid (nm # names) = and_do (CityRowsByName eng sid nm) (\<lambda>cityRows.
       and_do (priorities_of eng sid names) (\<lambda>ps. return ((nm, preferred_type cityRows) # ps)))"
    by (simp add: fun_eq_iff)
  with Cons show ?case by (simp add: db_intros)
qed

lemma RebuildCityPriority_atomic: "atomic (RebuildCityPriority eng sid)"
  unfolding RebuildCityPriority_def by (intro db_intros)

interpretation priority_build: transactional "RebuildCityPriority eng" for eng
  by unfold_locales (rule RebuildCityPriority_atomic)

interpretation normalize_build: transactional "\<lambda>_::unit. RebuildNormalized eng" for eng
  by unfold_locales (rule RebuildNormalized_atomic)

lemma insert_priority_ok: "tables_ok t \<Longrightarrow> tables_ok (insert_priority sid p t)"
  by (auto simp: insert_priority_def tables_ok_def list_ex_iff)

lemma delete_priority_ok: "tables_ok t \<Longrightarrow> tables_ok (delete_priority sid t)"
  by (simp add: delete_priority_def tables_ok_def distinct_map_filter)


lemma set_insert_priority_loop:
  "distinct names \<Longrightarrow> \<forall>nm\<in>set names. \<forall>r\<in>set (t_priority t). pr_SourceID r = sid \<longrightarrow> pr_LowercaseNormalized r \<noteq> nm \<Longrightarrow>
   fold (insert_priority sid) (map (\<lambda>nm. (nm, ty nm)) names) t = t\<lparr>t_priority := t_priority t @
     map (\<lambda>nm. \<lparr>pr_SourceID = sid, pr_LowercaseNormalized = nm, pr_CityType = ty nm, pr_DeletedAt = None\<rparr>) names\<rparr>"
proof (induction names arbitrary: t)
  case (Cons nm names)
  let ?row = "\<lparr>pr_SourceID = sid, pr_LowercaseNormalized = nm, pr_CityType = ty nm, pr_DeletedAt = None\<rparr>"
  have "\<not> list_ex (\<lambda>r. pr_SourceID r = sid \<and> pr_LowercaseNormalized r = nm) (t_priority t)"
    using Cons.prems(2) by (auto simp: list_ex_iff)
  then have step: "insert_priority sid (nm, ty nm) t = t\<lparr>t_priority := t_priority t @ [?row]\<rparr>"
    by (simp add: insert_priority_def)
  have "fold (insert_priority sid) (map (\<lambda>nm. (nm, ty nm)) names) (t\<lparr>t_priority := t_priority t @ [?row]\<rparr>)
      = (t\<lparr>t_priority := t_priority t @ [?row]\<rparr>)\<lparr>t_priority := t_priority (t\<lparr>t_priority := t_priority t @ [?row]\<rparr>) @
     map (\<lambda>nm. \<lparr>pr_SourceID = sid, pr_LowercaseNormalized = nm, pr_CityType = ty nm, pr_DeletedAt = None\<rparr>) names\<rparr>"
    by (rule Cons.IH) (use Cons.prems in auto)
  then show ?case by (simp add: step)
qed simp

text \<open>KOTA where a live city of that name is a "Kota ...", KABUPATEN otherwise.\<close>

definition city_type_of :: "tables \<Rightarrow> int64 \<Rightarrow> gostring \<Rightarrow> gostring" where
  "city_type_of t sid nm =
     (if list_ex (\<lambda>r. lc_SourceID r = sid \<and> lc_LevelID r = 3 \<and> lc_LowercaseNormalized r = nm \<and> lc_live r
           \<and> prefix ''Kota '' (lc_Name r)) (t_codes t) then ''KOTA'' else ''KABUPATEN'')"

lemma priorities_of_success:
  assumes "is_engine eng" and "priorities_of eng sid names db = (Inr ps, db')"
  shows "ps = map (\<lambda>nm. (nm, city_type_of (d_tables db) sid nm)) names \<and> d_tables db' = d_tables db"
  using assms(2)
proof (induction names arbitrary: db ps db')
  case Nil
  then show ?case by (simp add: return_def)
next
  case (Cons nm names)
  then obtain rows db1 ps' where rows: "CityRowsByName eng sid nm db = (Inr rows, db1)"
    and rest: "priorities_of eng sid names db1 = (Inr ps', db')" and ps: "ps = (nm, preferred_type rows) # ps'"
    by (auto simp: and_do_Inr return_def)
  have same: "d_tables db1 = d_tables db" using readsD [OF reads_CityRowsByName rows] .
  have "set rows = postal_row ` {r \<in> set (t_codes (d_tables db)). (lc_SourceID r = sid \<and> lc_LevelID r = 3
      \<and> lc_LowercaseNormalized r = nm) \<and> lc_live r}"
    using rows unfolding CityRowsByName_def wrapped_Inr
    by (auto simp: set_select_codes [OF assms(1)] elim!: query_codesE)
  then have "preferred_type rows = city_type_of (d_tables db) sid nm"
    by (auto simp: preferred_type_def city_type_of_def list_ex_iff postal_row_def named_row_def)
  with Cons.IH [OF rest] same ps show ?case by simp
qed

lemma distinct_overlapping: "is_engine eng \<Longrightarrow> distinct (en_names eng n (overlapping_names sid t))"
  using is_order_distinct [OF is_engineD(4), of eng "\<lambda>x. x" n "overlapping_names sid t"]
  by (simp add: overlapping_names_def del: remdups_map_remdups)

lemma RebuildCityPriority_success:
  assumes "is_engine eng" and "RebuildCityPriority eng sid db = (Inr (), db')"
  obtains n where "d_tables db' = (d_tables db)\<lparr>t_priority :=
    filter (\<lambda>r. pr_SourceID r \<noteq> sid) (t_priority (d_tables db)) @
      map (\<lambda>nm. \<lparr>pr_SourceID = sid, pr_LowercaseNormalized = nm, pr_CityType = city_type_of (d_tables db) sid nm,
                 pr_DeletedAt = None\<rparr>) (en_names eng n (overlapping_names sid (d_tables db)))\<rparr>"
proof -
  let ?t = "d_tables db"
  let ?insert = "\<lambda>p. wrapped (in_context (''insert '' @ fst p))
      (statement eng [''location_city_priority''] 3 (\<lambda>n t. (Inr (), insert_priority sid p t)))"
  obtain names ps db1 db2 where
    names: "CityNamesOverlappingLowerLevels eng sid db = (Inr names, db1)"
    and ps: "priorities_of eng sid names db1 = (Inr ps, db2)"
    and tx: "in_tx eng (in_context ''begin tx'') (\<lambda>err. err)
           (and_do (wrapped (in_context ''delete city priority'')
                      (statement eng [''location_city_priority''] 1 (\<lambda>n t. (Inr (), delete_priority sid t))))
              (\<lambda>_. and_do (wrapped (in_context ''prepare'')
                      (statement eng [''location_city_priority''] 0 (\<lambda>n t. (Inr (), t))))
                 (\<lambda>_. for_each ?insert ps))) db2 = (Inr (), db')"
    using assms(2) unfolding RebuildCityPriority_def and_do_Inr by blast
  obtain db3 db6 where t3: "d_tables db3 = d_tables db2" and t6: "d_tables db' = d_tables db6"
    and body: "and_do (wrapped (in_context ''delete city priority'')
                      (statement eng [''location_city_priority''] 1 (\<lambda>n t. (Inr (), delete_priority sid t))))
              (\<lambda>_. and_do (wrapped (in_context ''prepare'')
                      (statement eng [''location_city_priority''] 0 (\<lambda>n t. (Inr (), t))))
                 (\<lambda>_. for_each ?insert ps)) db3 = (Inr (), db6)"
    using tx by (rule in_txE)
  obtain u db4 v db5 where
    "statement eng [''location_city_priority''] 1 (\<lambda>n t. (Inr (), delete_priority sid t)) db3 = (Inr u, db4)"
    and "statement eng [''location_city_priority''] 0 (\<lambda>n t. (Inr (), t)) db4 = (Inr v, db5)"
    and loop: "for_each ?insert ps db5 = (Inr (), db6)"
    using body unfolding and_do_Inr wrapped_Inr by blast
  then have t4: "d_tables db4 = delete_priority sid (d_tables db3)" and t5: "d_tables db5 = d_tables db4"
    by (auto elim!: statementE)
  have names': "names = en_names eng (d_clock db) (overlapping_names sid ?t)" and t1: "d_tables db1 = ?t"
    using names unfolding CityNamesOverlappingLowerLevels_def wrapped_Inr by (auto elim: queryE)
  have ps': "ps = map (\<lambda>nm. (nm, city_type_of ?t sid nm)) names" and t2: "d_tables db2 = ?t"
    using priorities_of_success [OF assms(1) ps] t1 by simp_all
  have "d_tables db6 = fold (insert_priority sid) ps (d_tables db5)"
    by (rule for_each_relation [OF loop]) (auto elim: statementE)
  also have "d_tables db5 = delete_priority sid ?t" by (simp add: t2 t3 t4 t5)
  also have "fold (insert_priority sid) ps (delete_priority sid ?t)
      = (delete_priority sid ?t)\<lparr>t_priority := t_priority (delete_priority sid ?t) @
          map (\<lambda>nm. \<lparr>pr_SourceID = sid, pr_LowercaseNormalized = nm, pr_CityType = city_type_of ?t sid nm,
                 pr_DeletedAt = None\<rparr>) names\<rparr>"
    unfolding ps'
    by (rule set_insert_priority_loop)
      (auto simp: names' delete_priority_def distinct_overlapping [OF assms(1)])
  finally show ?thesis by (intro that [of "d_clock db"]) (simp add: t6 names' delete_priority_def)
qed

section \<open>Every operation keeps the schema\<close>

lemma RebuildLocationHierarchy_keeps:
  assumes "is_engine eng"
  shows "keeps schema_ok (RebuildLocationHierarchy eng sid)"
  using RebuildLocationHierarchy_atomic
proof (rule keeps_atomic)
  fix db x db' assume run: "RebuildLocationHierarchy eng sid db = (Inr x, db')" and ok: "schema_ok (d_tables db)"
  let ?t = "d_tables db" and ?t' = "d_tables db'"
  have run: "RebuildLocationHierarchy eng sid db = (Inr (), db')" using run by simp
  have ok1: "tables_ok ?t" using ok by (simp add: schema_ok_def)
  have t': "?t' = ?t\<lparr>t_hierarchy := t_hierarchy ?t'\<rparr>" by (rule rebuilt_hierarchy(1) [OF assms ok1 run])
  obtain n n' where "?t' = fold insert_hierarchy (wanted_rows eng sid n n' ?t) ?t"
    using run by (rule RebuildLocationHierarchy_success)
  then have "tables_ok ?t'" using ok1 by (simp add: fold_insert_hierarchy_ok)
  moreover have same: "t_codes ?t' = t_codes ?t" by (subst t') simp
  then have "chain_row ?t' = chain_row ?t" by (simp add: fun_eq_iff chain_row_def place_def)
  with ok rebuilt_hierarchy(2) [OF assms ok1 run] have "\<forall>h\<in>set (t_hierarchy ?t'). chain_row ?t' (hi_SourceID h) h"
    by (auto simp: schema_ok_def list_all_iff chain_row_def)
  ultimately show "schema_ok ?t'" by (simp add: schema_ok_def list_all_iff)
qed

lemma RebuildNormalized_keeps:
  assumes "is_engine eng"
  shows "keeps schema_ok (RebuildNormalized eng)"
  using RebuildNormalized_atomic
proof (rule keeps_atomic)
  fix db x db' assume run: "RebuildNormalized eng db = (Inr x, db')" and ok: "schema_ok (d_tables db)"
  then have run: "RebuildNormalized eng db = (Inr (), db')" and ok1: "tables_ok (d_tables db)"
    by (simp_all add: schema_ok_def)
  obtain n where t': "d_tables db' = (d_tables db)\<lparr>t_codes := map (renormalized (en_now eng n)) (t_codes (d_tables db))\<rparr>"
    using RebuildNormalized_success [OF assms ok1 run] .
  have "chain_row (d_tables db') sid h" if "chain_row (d_tables db) sid h" for sid h
  proof (rule chain_row_mono [OF that])
    fix r assume "r \<in> set (t_codes (d_tables db))"
    then show "\<exists>r'\<in>set (t_codes (d_tables db')). lc_ID r' = lc_ID r \<and> lc_SourceID r' = lc_SourceID r
      \<and> lc_Kode r' = lc_Kode r \<and> lc_LevelID r' = lc_LevelID r \<and> lc_DeletedAt r' = lc_DeletedAt r"
      by (intro bexI [of _ "renormalized (en_now eng n) r"]) (simp_all add: t' renormalized_def)
  qed
  with ok show "schema_ok (d_tables db')"
    using renormalized_ok [OF ok1, of "en_now eng n"] by (auto simp: schema_ok_def list_all_iff t')
qed

lemma RebuildCityPriority_keeps:
  assumes "is_engine eng"
  shows "keeps schema_ok (RebuildCityPriority eng sid)"
  using RebuildCityPriority_atomic
proof (rule keeps_atomic)
  fix db x db' assume run: "RebuildCityPriority eng sid db = (Inr x, db')" and ok: "schema_ok (d_tables db)"
  then have run: "RebuildCityPriority eng sid db = (Inr (), db')" by simp
  obtain n where t': "d_tables db' = (d_tables db)\<lparr>t_priority :=
    filter (\<lambda>r. pr_SourceID r \<noteq> sid) (t_priority (d_tables db)) @
      map (\<lambda>nm. \<lparr>pr_SourceID = sid, pr_LowercaseNormalized = nm, pr_CityType = city_type_of (d_tables db) sid nm,
                 pr_DeletedAt = None\<rparr>) (en_names eng n (overlapping_names sid (d_tables db)))\<rparr>"
    using RebuildCityPriority_success [OF assms run] .
  have "distinct (en_names eng n (overlapping_names sid (d_tables db)))"
    by (rule distinct_overlapping [OF assms])
  then show "schema_ok (d_tables db')"
    using ok by (intro schema_ok_codes [OF _ _ _ ok])
      (auto simp: t' schema_ok_def tables_ok_def distinct_map_filter o_def distinct_map inj_on_def)
qed


lemma schema_ok_no_hierarchy: "t_hierarchy t = [] \<Longrightarrow> tables_ok t \<Longrightarrow> schema_ok t"
  by (simp add: schema_ok_def)

lemma schema_ok_parts:
  assumes "schema_ok t"
  shows "schema_ok (t\<lparr>t_hierarchy := []\<rparr>)" and "schema_ok (t\<lparr>t_aliases := []\<rparr>)" and "schema_ok (t\<lparr>t_priority := []\<rparr>)"
    and "schema_ok (t\<lparr>t_sources := []\<rparr>)" and "schema_ok (t\<lparr>t_names := ns\<rparr>)"
    and "t_hierarchy t = [] \<Longrightarrow> schema_ok (t\<lparr>t_codes := []\<rparr>)"
  using assms by (simp_all add: schema_ok_def tables_ok_def chain_row_def place_def)

text \<open>
  Both lists begin with the hierarchy, so that its rows are gone before the codes that they
  refer to. A loop that fails in between has done a first part of the list.
\<close>

lemma truncations_keep:
  assumes "schema_ok t"
  shows "schema_ok (fold snd (take k (truncations pg)) t)"
proof (cases pg)
  case True
  then show ?thesis
    using assms by (cases k) (simp_all add: truncations_def schema_ok_def tables_ok_def)
next
  case False
  then have "k = 0 \<or> k = 1 \<or> k = 2 \<or> k = 3 \<or> k = 4 \<or> 5 \<le> k \<and> take k (truncations pg) = truncations pg"
    by (simp add: truncations_def) presburger
  with False assms show ?thesis
    by (elim disjE) (simp_all add: truncations_def numeral_2_eq_2 numeral_3_eq_3 numeral_eq_Suc schema_ok_def tables_ok_def
        chain_row_def place_def)
qed


interpretation truncation: transactional
  "\<lambda>(names, f). wrapped (in_context ''truncate'') (statement eng names 0 (\<lambda>n t. (Inr (), f t)))" for eng
  by unfold_locales (auto split: prod.split intro: db_intros)

interpretation dropping: transactional
  "\<lambda>nm. wrapped (in_context (''drop '' @ nm)) (statement eng [] 0 (\<lambda>n t. (Inr (), drop_table nm t)))" for eng
  by unfold_locales (intro db_intros)

lemma TruncateAll_prefix:
  "\<exists>k. d_tables (snd (TruncateAll pg eng db)) = fold snd (take k (truncations pg)) (d_tables db)"
proof -
  let ?op = "\<lambda>(names, f). wrapped (in_context ''truncate'') (statement eng names 0 (\<lambda>n t. (Inr (), f t)))"
  obtain k db' where run: "for_each ?op (take k (truncations pg)) db = (Inr (), db')"
    and t: "d_tables (snd (TruncateAll pg eng db)) = d_tables db'"
    using truncation.for_each_prefix [of "truncations pg" eng db] unfolding TruncateAll_def by blast
  have "d_tables db' = fold snd (take k (truncations pg)) (d_tables db)"
    by (rule for_each_relation [OF run]) (auto elim!: statementE)
  with t show ?thesis by auto
qed

lemma TruncateAll_keeps: "keeps schema_ok (TruncateAll pg eng)"
  using TruncateAll_prefix truncations_keep by (metis keeps_def)

lemma drops_keep:
  assumes "schema_ok t"
  shows "schema_ok (fold drop_table (take k location_tables) t)"
proof -
  have "k = 0 \<or> k = 1 \<or> k = 2 \<or> k = 3 \<or> k = 4 \<or> k = 5 \<or> 6 \<le> k \<and> take k location_tables = location_tables"
    by (simp add: location_tables_def) presburger
  with assms show ?thesis
    by (elim disjE) (simp_all add: location_tables_def drop_table_def numeral_eq_Suc schema_ok_def tables_ok_def
        chain_row_def place_def)
qed

lemma DropAll_prefix:
  "\<exists>k. d_tables (snd (DropAll pg eng db)) = fold drop_table (take k location_tables) (d_tables db)"
proof (cases pg)
  case True
  have "d_tables (snd (DropAll pg eng db)) = d_tables db
      \<or> d_tables (snd (DropAll pg eng db)) = fold drop_table location_tables (d_tables db)"
    using True by (simp add: DropAll_def statement_def Let_def split: option.split)
  then show ?thesis
  proof
    assume "d_tables (snd (DropAll pg eng db)) = d_tables db"
    then show ?thesis by (intro exI [of _ 0]) simp
  next
    assume "d_tables (snd (DropAll pg eng db)) = fold drop_table location_tables (d_tables db)"
    then show ?thesis by (intro exI [of _ "length location_tables"]) simp
  qed
next
  case False
  let ?op = "\<lambda>nm. wrapped (in_context (''drop '' @ nm)) (statement eng [] 0 (\<lambda>n t. (Inr (), drop_table nm t)))"
  obtain k db' where run: "for_each ?op (take k location_tables) db = (Inr (), db')"
    and t: "d_tables (snd (DropAll pg eng db)) = d_tables db'"
    using dropping.for_each_prefix [of location_tables eng db] False unfolding DropAll_def by auto
  have "d_tables db' = fold drop_table (take k location_tables) (d_tables db)"
    by (rule for_each_relation [OF run]) (auto elim!: statementE)
  with t show ?thesis by auto
qed

lemma DropAll_keeps: "keeps schema_ok (DropAll pg eng)"
  using DropAll_prefix drops_keep by (metis keeps_def)

section \<open>Any sequence of operations\<close>

text \<open>Each operation may end well or fail at any of its statements, and the engine may change.\<close>

inductive stored :: "database \<Rightarrow> bool" where
  created: "stored \<lparr>d_tables = empty_tables, d_clock = n\<rparr>"
| source: "stored db \<Longrightarrow> stored (snd (InsertLocationSource eng code version nm codeDate descr db))"
| codes: "stored db \<Longrightarrow> stored (snd (InsertLocationCodeBatch eng sid rows db))"
| hierarchy: "stored db \<Longrightarrow> is_engine eng \<Longrightarrow> stored (snd (RebuildLocationHierarchy eng sid db))"
| normalized: "stored db \<Longrightarrow> is_engine eng \<Longrightarrow> stored (snd (RebuildNormalized eng db))"
| priority: "stored db \<Longrightarrow> is_engine eng \<Longrightarrow> stored (snd (RebuildCityPriority eng sid db))"
| truncated: "stored db \<Longrightarrow> stored (snd (TruncateAll pg eng db))"
| dropped: "stored db \<Longrightarrow> stored (snd (DropAll pg eng db))"

lemma stored_schema: "stored db \<Longrightarrow> schema_ok (d_tables db)"
proof (induction rule: stored.induct)
  case (created n)
  then show ?case by (simp add: empty_tables_def schema_ok_def tables_ok_def)
qed (use InsertLocationSource_keeps InsertLocationCodeBatch_keeps RebuildLocationHierarchy_keeps RebuildNormalized_keeps
      RebuildCityPriority_keeps TruncateAll_keeps DropAll_keeps in \<open>simp_all add: keeps_def\<close>)

text \<open>Whatever rows of the hierarchy a source has, a hierarchy that is loaded follows the codes.\<close>

definition follows_codes :: "tables \<Rightarrow> int64 \<Rightarrow> hierarchy_map \<Rightarrow> bool" where
  "follows_codes t sid h \<longleftrightarrow> (\<forall>s d. SubDistrictToDist h s = Some d \<longrightarrow>
     (\<exists>r. chain_row t sid r \<and> hi_SubDistrictID r = s \<and> hi_DistrictID r = d
        \<and> DistrictToCity h d = Some (hi_CityID r) \<and> CityToProvince h (hi_CityID r) = Some (hi_ProvinceID r)))"

lemma loaded_lookups:
  assumes "is_engine eng" and ok: "schema_ok (d_tables db)"
    and load: "repo_LoadFullHierarchy eng sid db = (Inr h, db')"
  shows "CityToProvince h c = Some p \<longleftrightarrow> (\<exists>r\<in>set (select_hierarchy eng sid (d_clock db) (d_tables db)).
      hi_CityID r = c \<and> hi_ProvinceID r = p)"
    and "DistrictToCity h d = Some c \<longleftrightarrow> (\<exists>r\<in>set (select_hierarchy eng sid (d_clock db) (d_tables db)).
      hi_DistrictID r = d \<and> hi_CityID r = c)"
    and "SubDistrictToDist h s = Some d \<longleftrightarrow> (\<exists>r\<in>set (select_hierarchy eng sid (d_clock db) (d_tables db)).
      hi_SubDistrictID r = s \<and> hi_DistrictID r = d)"
proof -
  let ?t = "d_tables db"
  let ?rows = "select_hierarchy eng sid (d_clock db) ?t"
  have ok1: "tables_ok ?t" using ok by (simp add: schema_ok_def)
  have h: "h = foldl add_hierarchy_row empty_hierarchy ?rows"
    using load unfolding repo_LoadFullHierarchy_def wrapped_Inr by (auto elim: queryE)
  have in_rows: "chain_row ?t sid r" if "r \<in> set ?rows" for r
    using that ok by (auto simp: set_select_hierarchy [OF assms(1)] schema_ok_def list_all_iff)
  show "CityToProvince h c = Some p \<longleftrightarrow> (\<exists>r\<in>set ?rows. hi_CityID r = c \<and> hi_ProvinceID r = p)"
    unfolding h foldl_add_hierarchy_row empty_hierarchy_def hierarchy_map.simps
    by (rule foldl_upd_functional) (rule chain_functional(2) [OF ok1 in_rows in_rows])
  show "DistrictToCity h d = Some c \<longleftrightarrow> (\<exists>r\<in>set ?rows. hi_DistrictID r = d \<and> hi_CityID r = c)"
    unfolding h foldl_add_hierarchy_row empty_hierarchy_def hierarchy_map.simps
    by (rule foldl_upd_functional) (rule chain_functional(1) [OF ok1 in_rows in_rows])
  show "SubDistrictToDist h s = Some d \<longleftrightarrow> (\<exists>r\<in>set ?rows. hi_SubDistrictID r = s \<and> hi_DistrictID r = d)"
    unfolding h foldl_add_hierarchy_row empty_hierarchy_def hierarchy_map.simps
    by (rule foldl_upd_functional) (auto dest: chain_row_unique [OF ok1 in_rows in_rows])
qed

lemma loaded_follows:
  assumes "is_engine eng" and ok: "schema_ok (d_tables db)"
    and load: "repo_LoadFullHierarchy eng sid db = (Inr h, db')"
  shows "follows_codes (d_tables db) sid h"
proof -
  have "chain_row (d_tables db) sid r" if "r \<in> set (select_hierarchy eng sid (d_clock db) (d_tables db))" for r
    using that ok by (auto simp: set_select_hierarchy [OF assms(1)] schema_ok_def list_all_iff)
  then show ?thesis unfolding follows_codes_def loaded_lookups [OF assms] by blast
qed

text \<open>Each row of the source is in the hierarchy that is loaded.\<close>

lemma loaded_row:
  assumes "is_engine eng" and ok: "schema_ok (d_tables db)"
    and load: "repo_LoadFullHierarchy eng sid db = (Inr h, db')"
    and row: "row \<in> set (t_hierarchy (d_tables db))" "hi_SourceID row = sid"
  shows "SubDistrictToDist h (hi_SubDistrictID row) = Some (hi_DistrictID row)"
    and "DistrictToCity h (hi_DistrictID row) = Some (hi_CityID row)"
    and "CityToProvince h (hi_CityID row) = Some (hi_ProvinceID row)"
proof -
  have chain: "chain_row (d_tables db) sid row" using ok row by (auto simp: schema_ok_def list_all_iff)
  have "row \<in> set (select_hierarchy eng sid (d_clock db) (d_tables db))"
    using row chain by (simp add: set_select_hierarchy [OF assms(1)] chain_row_def)
  with loaded_lookups [OF assms(1-3)]
  show "SubDistrictToDist h (hi_SubDistrictID row) = Some (hi_DistrictID row)"
    and "DistrictToCity h (hi_DistrictID row) = Some (hi_CityID row)"
    and "CityToProvince h (hi_CityID row) = Some (hi_ProvinceID row)"
    by blast+
qed

end
