(* ===== verification/Store_Progress.thy ===== *)
theory Store_Progress
  imports Rebuild_Laws
begin

text \<open>
  The operations on the tables come to a good end on an engine that refuses no statement, has
  fresh identifiers and takes as many parameters as SQLite does: the batches of the code stay
  within that limit.
\<close>

section \<open>Obliging engines\<close>

definition sqlite_max_params :: nat where "sqlite_max_params = 32766"

definition obliging :: "engine \<Rightarrow> bool" where
  "obliging eng \<longleftrightarrow> (\<forall>n. en_fault eng n = None) \<and> sqlite_max_params \<le> en_max_params eng
     \<and> (\<forall>n ids. length ids < 2 ^ 62 \<longrightarrow> en_id eng n ids \<notin> set ids)"

text \<open>The first identifier from 1 on that is free, the rows as they were inserted.\<close>

definition free_id :: "int64 list \<Rightarrow> int64" where
  "free_id ids = hd (filter (\<lambda>i. i \<notin> set ids) (map of_nat [1..<length ids + 2]))"

definition plain_engine :: engine where
  "plain_engine = \<lparr>en_fault = (\<lambda>_. None), en_id = (\<lambda>_. free_id), en_codes = (\<lambda>_ xs. xs), en_hierarchy = (\<lambda>_ xs. xs),
     en_priority = (\<lambda>_ xs. xs), en_names = (\<lambda>_ xs. xs), en_max_params = sqlite_max_params,
     en_now = (\<lambda>_. ''2026-01-01T00:00:00Z'')\<rparr>"

lemma free_id_free:
  assumes "length ids < 2 ^ 62"
  shows "free_id ids \<notin> set ids"
proof -
  let ?candidates = "map (of_nat :: nat \<Rightarrow> int64) [1..<length ids + 2]"
  have "inj_on (of_nat :: nat \<Rightarrow> int64) {1..<length ids + 2}"
  proof (rule inj_onI)
    fix a b assume a: "a \<in> {1..<length ids + 2}" and b: "b \<in> {1..<length ids + 2}"
      and same: "(of_nat a :: int64) = of_nat b"
    have small: "unat (of_nat k :: int64) = k" if "k \<in> {1..<length ids + 2}" for k
    proof -
      from that assms have "k < 2 ^ 64" by simp
      then show ?thesis by (intro of_nat_inverse [OF refl]) simp
    qed
    have "a = unat (of_nat a :: int64)" by (simp only: small [OF a])
    also have "\<dots> = b" by (simp only: same small [OF b])
    finally show "a = b" .
  qed
  then have "card (set ?candidates) = length ids + 1" by (simp only: set_map set_upt card_image card_atLeastLessThan)
  then have more: "card (set ids) < card (set ?candidates)" using card_length [of ids] by (simp only: less_Suc_eq_le Suc_eq_plus1 [symmetric])
  have "\<not> set ?candidates \<subseteq> set ids"
  proof
    assume "set ?candidates \<subseteq> set ids"
    then have "card (set ?candidates) \<le> card (set ids)" by (intro card_mono) simp
    with more show False by (simp only: leD)
  qed
  then have "filter (\<lambda>i. i \<notin> set ids) ?candidates \<noteq> []" by (auto simp: filter_empty_conv)
  then have "free_id ids \<in> set (filter (\<lambda>i. i \<notin> set ids) ?candidates)" unfolding free_id_def by (rule hd_in_set)
  then show ?thesis by (simp only: set_filter mem_Collect_eq simp_thms)
qed

lemma plain_engine_ok: "is_engine plain_engine" and plain_engine_obliging: "obliging plain_engine"
  by (simp_all add: is_engine_def plain_engine_def obliging_def free_id_free)

section \<open>Success\<close>

definition proceeds :: "(tables \<Rightarrow> bool) \<Rightarrow> (tables \<Rightarrow> bool) \<Rightarrow> (database \<Rightarrow> 'a outcome) \<Rightarrow> bool" where
  "proceeds P Q f \<longleftrightarrow> (\<forall>db. P (d_tables db) \<longrightarrow> (\<exists>x db'. f db = (Inr x, db') \<and> Q (d_tables db')))"

named_theorems proceeds_intros

lemma proceeds_return [proceeds_intros]: "proceeds P P (return x)"
  by (simp add: proceeds_def return_def)

lemma proceeds_wrapped [proceeds_intros]: "proceeds P Q f \<Longrightarrow> proceeds P Q (wrapped w f)"
  by (simp add: proceeds_def)

lemma proceeds_and_do [proceeds_intros]:
  assumes "proceeds P Q f" and "\<And>x. proceeds Q R (g x)"
  shows "proceeds P R (and_do f g)"
  using assms unfolding proceeds_def by (simp add: and_do_Inr) blast

lemma proceeds_statement:
  assumes "obliging eng" and "k \<le> sqlite_max_params" and "\<And>t. P t \<Longrightarrow> set names \<subseteq> t_names t"
    and "\<And>n t. P t \<Longrightarrow> \<exists>x t'. f n t = (Inr x, t') \<and> Q t'"
  shows "proceeds P Q (statement eng names k f)"
  unfolding proceeds_def
proof (intro allI impI)
  fix db :: database assume P: "P (d_tables db)"
  obtain x t' where "f (d_clock db) (d_tables db) = (Inr x, t')" and "Q t'" using assms(4) [OF P] by blast
  moreover have "en_fault eng (d_clock db) = None" and "\<not> en_max_params eng < k" and "set names \<subseteq> t_names (d_tables db)"
    using assms(1,2) assms(3) [OF P] by (auto simp: obliging_def)
  ultimately show "\<exists>x db'. statement eng names k f db = (Inr x, db') \<and> Q (d_tables db')"
    by (simp add: statement_def Let_def)
qed

lemma proceeds_query:
  assumes "obliging eng" and "k \<le> sqlite_max_params" and "\<And>t. P t \<Longrightarrow> set names \<subseteq> t_names t"
  shows "proceeds P P (query eng names k f)"
  unfolding query_def by (rule proceeds_statement [OF assms]) auto

lemma proceeds_in_tx:
  assumes "obliging eng" and "proceeds P Q body"
  shows "proceeds P Q (in_tx eng b c body)"
  unfolding proceeds_def
proof (intro allI impI)
  fix db :: database assume P: "P (d_tables db)"
  let ?null = "\<lambda>_ t. (Inr () :: go_error + unit, t)"
  have "proceeds P Q (and_do (wrapped b (statement eng [] 0 ?null))
      (\<lambda>_. and_do body (\<lambda>_. wrapped c (statement eng [] 0 ?null))))"
    by (intro proceeds_and_do [OF _ proceeds_and_do [OF assms(2)]] proceeds_wrapped proceeds_statement assms(1)) auto
  with P obtain x db' where "and_do (wrapped b (statement eng [] 0 ?null))
      (\<lambda>_. and_do body (\<lambda>_. wrapped c (statement eng [] 0 ?null))) db = (Inr x, db')" and "Q (d_tables db')"
    unfolding proceeds_def by blast
  then show "\<exists>x db'. in_tx eng b c body db = (Inr x, db') \<and> Q (d_tables db')"
    by (simp add: in_tx_def)
qed

lemma proceeds_for_each:
  assumes "\<And>x. x \<in> set xs \<Longrightarrow> proceeds P P (f x)"
  shows "proceeds P P (for_each f xs)"
  using assms
proof (induction xs)
  case Nil
  then show ?case by (simp add: proceeds_def)
next
  case (Cons x xs)
  have "for_each f (x # xs) = and_do (f x) (\<lambda>_. for_each f xs)" by (simp add: fun_eq_iff)
  with Cons show ?case by (auto intro!: proceeds_and_do [where Q = P])
qed


section \<open>The operations\<close>

definition has_tables :: "tables \<Rightarrow> bool" where
  "has_tables t \<longleftrightarrow> set location_tables \<subseteq> t_names t"

lemma has_tablesD: "has_tables t \<Longrightarrow> set names \<subseteq> set location_tables \<Longrightarrow> set names \<subseteq> t_names t"
  by (auto simp: has_tables_def)

lemma insert_codes_proceeds:
  "obliging eng \<Longrightarrow> length (t_codes t) + length rows < 2 ^ 62 \<Longrightarrow>
   \<exists>t'. insert_codes eng sid rows n t = (Inr (), t') \<and> t_names t' = t_names t
     \<and> length (t_codes t') \<le> length (t_codes t) + length rows"
proof (induction eng sid rows n t rule: insert_codes.induct)
  case (2 eng sid row rows n t)
  let ?i = "en_id eng n (map lc_ID (t_codes t))" and ?t = "t\<lparr>t_codes := t_codes t @ [new_code (en_id eng n (map lc_ID (t_codes t))) sid row]\<rparr>"
  show ?case
  proof (cases "list_ex (\<lambda>r. lc_SourceID r = sid \<and> lc_Kode r = lr_Kode row) (t_codes t)")
    case True
    have "\<exists>t'. insert_codes eng sid rows n t = (Inr (), t') \<and> t_names t' = t_names t
        \<and> length (t_codes t') \<le> length (t_codes t) + length rows"
      by (rule 2(1) [OF True 2(3)]) (use 2(4) in simp)
    with True show ?thesis by auto
  next
    case False
    have fresh: "?i \<notin> set (map lc_ID (t_codes t))" using 2(3,4) by (simp add: obliging_def del: set_map)
    have "\<exists>t'. insert_codes eng sid rows n ?t = (Inr (), t') \<and> t_names t' = t_names ?t
        \<and> length (t_codes t') \<le> length (t_codes ?t) + length rows"
      by (rule 2(2) [OF False refl fresh 2(3)]) (use 2(4) in simp)
    with False fresh show ?thesis by (auto simp: Let_def simp del: set_map)
  qed
qed simp

text \<open>There is room for \<open>k\<close> more codes.\<close>

definition room_for :: "nat \<Rightarrow> tables \<Rightarrow> bool" where
  "room_for k t \<longleftrightarrow> has_tables t \<and> length (t_codes t) + k < 2 ^ 62"

lemma code_chunks_proceed:
  assumes eng: "obliging eng" and "\<forall>c\<in>set chunks. length c \<le> 4000"
  shows "proceeds (room_for (length (concat chunks) + k)) (room_for k)
    (for_each (\<lambda>chunk. wrapped w (statement eng [''location_codes''] (6 * length chunk) (insert_codes eng sid chunk))) chunks)"
  using assms(2)
proof (induction chunks)
  case Nil
  then show ?case by (simp add: proceeds_def)
next
  case (Cons c cs)
  let ?op = "\<lambda>chunk. wrapped w (statement eng [''location_codes''] (6 * length chunk) (insert_codes eng sid chunk))"
  have "for_each ?op (c # cs) = and_do (?op c) (\<lambda>_. for_each ?op cs)" by (simp add: fun_eq_iff)
  moreover have "proceeds (room_for (length (concat (c # cs)) + k)) (room_for (length (concat cs) + k)) (?op c)"
  proof (intro proceeds_wrapped proceeds_statement eng)
    show "6 * length c \<le> sqlite_max_params" using Cons.prems by (simp add: sqlite_max_params_def)
    show "set [''location_codes''] \<subseteq> t_names t" if "room_for (length (concat (c # cs)) + k) t" for t
      using that by (auto simp: room_for_def has_tables_def location_tables_def)
    show "\<exists>x t'. insert_codes eng sid c n t = (Inr x, t') \<and> room_for (length (concat cs) + k) t'"
      if "room_for (length (concat (c # cs)) + k) t" for n t
      using that insert_codes_proceeds [OF eng, of t c sid n] by (force simp: room_for_def has_tables_def)
  qed
  ultimately show ?case using Cons by (auto intro: proceeds_and_do)
qed

lemma InsertLocationCodeBatch_proceeds:
  assumes "obliging eng"
  shows "proceeds (room_for (length rows + k)) (room_for k)
    (InsertLocationCodeBatch eng sid rows)"
proof (cases "rows = []")
  case True
  then show ?thesis by (simp add: InsertLocationCodeBatch_def proceeds_def return_def)
next
  case False
  have "proceeds (room_for (length (concat (batches 4000 rows)) + k)) (room_for k)
    (for_each (\<lambda>chunk. wrapped (in_context ''insert batch'')
       (statement eng [''location_codes''] (6 * length chunk) (insert_codes eng sid chunk))) (batches 4000 rows))"
    by (rule code_chunks_proceed [OF assms]) (auto dest: batches_length)
  with False show ?thesis
    by (auto simp: InsertLocationCodeBatch_def intro!: proceeds_in_tx assms)
qed

lemma flush_hierarchy_proceeds:
  assumes "obliging eng" and "length pending \<le> hchunk"
  shows "proceeds has_tables has_tables (flush_hierarchy eng pending)"
  unfolding flush_hierarchy_def
  using assms
  by (auto simp: hchunk_def sqlite_max_params_def fold_insert_hierarchy has_tables_def location_tables_def
      intro!: proceeds_return proceeds_wrapped proceeds_statement)

lemma hierarchy_loop_proceeds:
  assumes "obliging eng" and "length pending < hchunk"
  shows "proceeds has_tables has_tables (hierarchy_loop eng m sid pending subs)"
  using assms(2)
proof (induction subs arbitrary: pending)
  case Nil
  have "hierarchy_loop eng m sid pending [] = flush_hierarchy eng pending" by (simp add: fun_eq_iff)
  with Nil assms(1) show ?case by (simp add: flush_hierarchy_proceeds)
next
  case (Cons s subs)
  have loop: "hierarchy_loop eng m sid pending (s # subs) =
      (case hierarchy_insert m sid s of None \<Rightarrow> hierarchy_loop eng m sid pending subs
       | Some h \<Rightarrow> if hchunk \<le> length (pending @ [h])
           then and_do (flush_hierarchy eng (pending @ [h])) (\<lambda>_. hierarchy_loop eng m sid [] subs)
           else hierarchy_loop eng m sid (pending @ [h]) subs)"
    by (simp add: fun_eq_iff split: option.split)
  have first: "proceeds has_tables has_tables (hierarchy_loop eng m sid [] subs)"
    by (rule Cons.IH) (simp add: hchunk_def)
  show ?case
    unfolding loop using Cons first assms(1)
    by (auto intro!: proceeds_and_do [where Q = has_tables] flush_hierarchy_proceeds split: option.split)
qed

lemma query_codes_proceeds:
  "obliging eng \<Longrightarrow> k \<le> sqlite_max_params \<Longrightarrow> proceeds has_tables has_tables (query_codes eng k P f)"
  unfolding query_codes_def
  by (rule proceeds_query) (auto simp: has_tables_def location_tables_def)

lemma RebuildLocationHierarchy_proceeds:
  assumes "obliging eng"
  shows "proceeds has_tables has_tables (RebuildLocationHierarchy eng sid)"
  unfolding RebuildLocationHierarchy_def using assms
  by (intro proceeds_and_do [where Q = has_tables] proceeds_wrapped query_codes_proceeds proceeds_in_tx hierarchy_loop_proceeds)
    (simp_all add: sqlite_max_params_def hchunk_def)

lemma RebuildNormalized_proceeds:
  assumes "obliging eng"
  shows "proceeds has_tables has_tables (RebuildNormalized eng)"
proof -
  have body: "proceeds has_tables has_tables (for_each (\<lambda>chunk. wrapped (in_context ''update batch'')
             (statement eng [''location_codes''] (3 * length chunk + 1)
                (\<lambda>n t. (Inr (), update_normalized now chunk t)))) (batches 4000 codes))" for now codes
    by (intro proceeds_for_each proceeds_wrapped proceeds_statement assms)
      (auto simp: sqlite_max_params_def has_tables_def location_tables_def update_normalized_def dest!: batches_length)
  have "proceeds has_tables has_tables (\<lambda>db. in_tx eng (in_context ''begin tx'') (in_context ''commit'')
          (for_each (\<lambda>chunk. wrapped (in_context ''update batch'')
             (statement eng [''location_codes''] (3 * length chunk + 1)
                (\<lambda>n t. (Inr (), update_normalized (en_now eng (d_clock db)) chunk t)))) (batches 4000 codes)) db)" for codes
    using proceeds_in_tx [OF assms body] unfolding proceeds_def by blast
  with assms show ?thesis
    unfolding RebuildNormalized_def
    by (intro proceeds_and_do [where Q = has_tables] proceeds_wrapped query_codes_proceeds) simp_all
qed

lemma priorities_of_proceeds:
  assumes "obliging eng"
  shows "proceeds has_tables has_tables (priorities_of eng sid names)"
proof (induction names)
  case Nil
  have "priorities_of eng sid [] = return []" by (simp add: fun_eq_iff)
  then show ?case by (simp add: proceeds_return)
next
  case (Cons nm names)
  have "priorities_of eng sid (nm # names) = and_do (CityRowsByName eng sid nm) (\<lambda>cityRows.
       and_do (priorities_of eng sid names) (\<lambda>ps. return ((nm, preferred_type cityRows) # ps)))"
    by (simp add: fun_eq_iff)
  moreover have "proceeds has_tables has_tables (CityRowsByName eng sid nm)"
    unfolding CityRowsByName_def using assms
    by (intro proceeds_wrapped query_codes_proceeds) (simp_all add: sqlite_max_params_def)
  ultimately show ?case using Cons
    by (auto intro!: proceeds_and_do [where Q = has_tables] proceeds_return)
qed

lemma RebuildCityPriority_proceeds:
  assumes "obliging eng"
  shows "proceeds has_tables has_tables (RebuildCityPriority eng sid)"
proof -
  have names: "proceeds has_tables has_tables (CityNamesOverlappingLowerLevels eng sid)"
    unfolding CityNamesOverlappingLowerLevels_def using assms
    by (intro proceeds_wrapped proceeds_query)
      (auto simp: sqlite_max_params_def has_tables_def location_tables_def)
  have inserts: "proceeds has_tables has_tables (for_each (\<lambda>p. wrapped (in_context (''insert '' @ fst p))
                    (statement eng [''location_city_priority''] 3 (\<lambda>n t. (Inr (), insert_priority sid p t)))) ps)" for ps
    using assms by (intro proceeds_for_each proceeds_wrapped proceeds_statement)
      (auto simp: sqlite_max_params_def has_tables_def location_tables_def insert_priority_def)
  show ?thesis
    unfolding RebuildCityPriority_def using assms
    by (intro proceeds_and_do [where Q = has_tables] proceeds_in_tx names priorities_of_proceeds inserts
        proceeds_wrapped proceeds_statement)
      (auto simp: sqlite_max_params_def has_tables_def location_tables_def delete_priority_def)
qed

end
