(* ===== verification/Sql_Text.thy ===== *)
theory Sql_Text
  imports Go_Strings
begin

text \<open>
  \<open>internal/database/dialect.go\<close> and the schema scripts: placeholders for Postgres, and a
  script cut into the statements that \<open>ExecSchema\<close> and \<open>execPGXSchema\<close> execute one by one.
\<close>

section \<open>Placeholders\<close>

text \<open>The loop over the bytes; \<open>n\<close> counts the placeholders so far.\<close>

fun rebind_from :: "nat \<Rightarrow> gostring \<Rightarrow> gostring" where
  "rebind_from n [] = []"
| "rebind_from n (c # cs) =
     (if c = CHR ''?'' then CHR ''$'' # nat_digits (Suc n) @ rebind_from (Suc n) cs
      else c # rebind_from n cs)"

definition rebind :: "bool \<Rightarrow> gostring \<Rightarrow> gostring" where
  "rebind pg query = (if \<not> pg then query else rebind_from 0 query)"

definition sqliteDSN :: "gostring \<Rightarrow> gostring" where
  "sqliteDSN dbPath = dbPath @ ''?_pragma=busy_timeout(5000)''"

text \<open>
  How the two engines read the placeholders: SQLite numbers the question marks from left to
  right, Postgres is told the number.
\<close>

fun positional :: "(nat \<Rightarrow> gostring) \<Rightarrow> nat \<Rightarrow> gostring \<Rightarrow> gostring" where
  "positional args n [] = []"
| "positional args n (c # cs) =
     (if c = CHR ''?'' then args n @ positional args (Suc n) cs else c # positional args n cs)"

function numbered :: "(nat \<Rightarrow> gostring) \<Rightarrow> gostring \<Rightarrow> gostring" where
  "numbered args [] = []"
| "numbered args (c # cs) =
     (if c = CHR ''$'' then args (nat_of_digits (takeWhile is_digit cs) - 1) @ numbered args (dropWhile is_digit cs)
      else c # numbered args cs)"
  by pat_completeness auto
termination
  by (relation "measure (\<lambda>(_, s). length s)") (auto simp: less_Suc_eq_le length_dropWhile_le)

text \<open>No dollar sign, and no digit right after a question mark.\<close>

fun rebindable :: "gostring \<Rightarrow> bool" where
  "rebindable [] \<longleftrightarrow> True"
| "rebindable (c # cs) \<longleftrightarrow> c \<noteq> CHR ''$'' \<and> (c = CHR ''?'' \<longrightarrow> cs = [] \<or> \<not> is_digit (hd cs)) \<and> rebindable cs"

lemma rebind_from_start:
  "rebindable cs \<Longrightarrow> cs = [] \<or> \<not> is_digit (hd cs) \<Longrightarrow>
     rebind_from n cs = [] \<or> \<not> is_digit (hd (rebind_from n cs))"
  by (cases cs) (auto simp: is_digit_def)

lemma digits_then_rest:
  assumes "\<And>c. c \<in> set ds \<Longrightarrow> is_digit c" and "s = [] \<or> \<not> is_digit (hd s)"
  shows "takeWhile is_digit (ds @ s) = ds" and "dropWhile is_digit (ds @ s) = s"
  using assms by (cases s; simp)+

lemma numbered_rebind_from:
  "rebindable query \<Longrightarrow> numbered args (rebind_from n query) = positional args n query"
proof (induction query arbitrary: n)
  case (Cons c cs)
  show ?case
  proof (cases "c = CHR ''?''")
    case True
    with Cons.prems have "rebindable cs" and "cs = [] \<or> \<not> is_digit (hd cs)" by auto
    with rebind_from_start [of cs "Suc n"] Cons.IH [of "Suc n"] show ?thesis
      using True digits_then_rest [of "nat_digits (Suc n)" "rebind_from (Suc n) cs"] nat_digits_digits
      by simp
  next
    case False
    with Cons show ?thesis by simp
  qed
qed simp

section \<open>Scripts\<close>

text \<open>\<open>strings.HasPrefix(strings.TrimSpace(line), "--")\<close>\<close>

definition comment_line :: "gostring \<Rightarrow> bool" where
  "comment_line line \<longleftrightarrow> prefix ''--'' (trim_space line)"

definition stripSQLComments :: "gostring \<Rightarrow> gostring" where
  "stripSQLComments content =
     concat (map (\<lambda>line. line @ [newline]) (filter (\<lambda>line. \<not> comment_line line) (split_on newline content)))"

text \<open>A piece between semicolons, without the blank and comment lines that it starts with.\<close>

definition schema_piece :: "gostring \<Rightarrow> gostring" where
  "schema_piece stmt =
     trim_space (join [newline]
       (dropWhile (\<lambda>line. trim_space line = [] \<or> prefix ''--'' (trim_space line)) (split_on newline stmt)))"

definition schema_statements :: "gostring \<Rightarrow> gostring list" where
  "schema_statements content =
     filter (\<lambda>stmt. stmt \<noteq> []) (map schema_piece (split_on (CHR '';'') (stripSQLComments content)))"

definition pgx_statements :: "gostring \<Rightarrow> gostring list" where
  "pgx_statements content =
     filter (\<lambda>stmt. stmt \<noteq> []) (map trim_space (split_on (CHR '';'') (stripSQLComments content)))"

text \<open>The loop that executes them; \<open>wrap\<close> puts the error into its context.\<close>

fun exec_each :: "(gostring \<Rightarrow> gostring \<Rightarrow> gostring) \<Rightarrow> (gostring \<Rightarrow> 's \<Rightarrow> gostring option \<times> 's)
    \<Rightarrow> gostring list \<Rightarrow> 's \<Rightarrow> gostring option \<times> 's" where
  "exec_each wrap exec [] db = (None, db)"
| "exec_each wrap exec (stmt # stmts) db =
     (case exec stmt db of
        (Some err, db) \<Rightarrow> (Some (wrap stmt err), db)
      | (None, db) \<Rightarrow> exec_each wrap exec stmts db)"

definition ExecSchema ::
  "(gostring \<Rightarrow> 's \<Rightarrow> gostring option \<times> 's) \<Rightarrow> gostring \<Rightarrow> 's \<Rightarrow> gostring option \<times> 's" where
  "ExecSchema exec content = exec_each (\<lambda>_ err. ''exec schema: '' @ err) exec (schema_statements content)"

definition execPGXSchema ::
  "(gostring \<Rightarrow> 's \<Rightarrow> gostring option \<times> 's) \<Rightarrow> gostring \<Rightarrow> 's \<Rightarrow> gostring option \<times> 's" where
  "execPGXSchema exec content =
     exec_each (\<lambda>stmt err. ''exec '' @ fmt_q stmt @ '': '' @ err) exec (pgx_statements content)"

section \<open>What a script says is what is executed\<close>

text \<open>
  A statement as a script has it: not blank, without semicolons, and no line of it reads like a
  comment. The file puts comment lines before it and a semicolon and a line break after it.
\<close>

definition script_statement :: "gostring \<Rightarrow> bool" where
  "script_statement stmt \<longleftrightarrow> trim_space stmt = stmt \<and> stmt \<noteq> [] \<and> CHR '';'' \<notin> set stmt
     \<and> list_all (\<lambda>line. \<not> comment_line line) (split_on newline stmt)"

definition script_comment :: "gostring \<Rightarrow> bool" where
  "script_comment c \<longleftrightarrow> comment_line c \<and> newline \<notin> set c"

definition script_file :: "(gostring list \<times> gostring) list \<Rightarrow> gostring" where
  "script_file items =
     concat (map (\<lambda>(comments, stmt). concat (map (\<lambda>c. c @ [newline]) comments) @ stmt @ [CHR '';'', newline]) items)"

lemma comment_line_iff: "comment_line line \<longleftrightarrow> prefix ''--'' (dropWhile is_space line)"
proof -
  have dash: "\<not> is_space (CHR ''-'')" by (simp add: is_space_def)
  have "prefix ''--'' (trim_right s) \<longleftrightarrow> prefix ''--'' s" for s
  proof -
    obtain t where split: "s = trim_right s @ t" and spaces: "\<forall>c\<in>set t. is_space c"
      using trim_right_prefix by blast
    have "prefix ''--'' (trim_right s)" if "prefix ''--'' s"
    proof -
      from that obtain r where "s = ''--'' @ r" by (auto elim: prefixE)
      then show ?thesis using dash by (simp add: Let_def)
    qed
    moreover have "prefix ''--'' s" if "prefix ''--'' (trim_right s)"
      using that by (subst split) (rule prefix_prefix)
    ultimately show ?thesis by blast
  qed
  then show ?thesis by (simp add: comment_line_def trim_space_def)
qed

lemma comment_line_semicolon: "comment_line (line @ '';'') \<longleftrightarrow> comment_line line"
proof -
  have plain: "\<not> is_space (CHR '';'')" by (simp add: is_space_def)
  show ?thesis
  proof (cases "\<forall>c\<in>set line. is_space c")
    case True
    then have "dropWhile is_space line = []" "dropWhile is_space (line @ '';'') = '';''"
      using plain by (simp_all add: dropWhile_append3)
    then show ?thesis by (simp add: comment_line_iff del: dropWhile_eq_Nil_conv)
  next
    case False
    then have "dropWhile is_space (line @ '';'') = dropWhile is_space line @ '';''"
      by (metis dropWhile_append1)
    moreover have "prefix ''--'' (s @ '';'') \<longleftrightarrow> prefix ''--'' s" for s
      by (cases s; cases "tl s") auto
    ultimately show ?thesis by (simp add: comment_line_iff)
  qed
qed

lemma split_on_append: "split_on d (a @ b) = butlast (split_on d a) @ (last (split_on d a) @ hd (split_on d b)) # tl (split_on d b)"
proof (induction a)
  case Nil
  then show ?case by (cases "split_on d b") simp_all
next
  case (Cons c a)
  show ?case
    using Cons by (cases "split_on d a") (auto simp: butlast_append split: list.splits if_splits)
qed

text \<open>Stripping works line by line.\<close>

lemma stripSQLComments_line:
  "newline \<notin> set line \<Longrightarrow>
     stripSQLComments (line @ newline # content)
       = (if comment_line line then [] else line @ [newline]) @ stripSQLComments content"
  by (simp add: stripSQLComments_def split_on_append_sep)

lemma stripSQLComments_comments:
  "list_all script_comment comments \<Longrightarrow>
     stripSQLComments (concat (map (\<lambda>c. c @ [newline]) comments) @ content) = stripSQLComments content"
  by (induction comments) (simp_all add: script_comment_def stripSQLComments_line)

lemma stripSQLComments_lines:
  assumes "list_all (\<lambda>line. \<not> comment_line line \<and> newline \<notin> set line) ls" and "ls \<noteq> []"
  shows "stripSQLComments (join [newline] ls @ newline # content) = join [newline] ls @ newline # stripSQLComments content"
  using assms
proof (induction ls)
  case (Cons l ls)
  then show ?case by (cases "ls = []") (simp_all add: join_Cons stripSQLComments_line)
qed simp

lemma stripSQLComments_statement:
  assumes "script_statement stmt"
  shows "stripSQLComments (stmt @ CHR '';'' # newline # content) = stmt @ CHR '';'' # newline # stripSQLComments content"
proof -
  define ls where "ls = split_on newline stmt"
  define ms where "ms = butlast ls @ [last ls @ '';'']"
  have ne: "ls \<noteq> []" by (simp add: ls_def)
  have joined: "join [newline] ms = stmt @ '';''"
  proof -
    have "split_on newline (stmt @ '';'') = ms" by (simp add: split_on_append ms_def ls_def)
    then show ?thesis using join_split_on [of newline "stmt @ '';''"] by simp
  qed
  have "list_all (\<lambda>line. \<not> comment_line line \<and> newline \<notin> set line) ls"
    using assms unfolding script_statement_def ls_def
    by (auto simp: list_all_iff dest: split_on_no_sep)
  then have "list_all (\<lambda>line. \<not> comment_line line \<and> newline \<notin> set line) ms"
    using ne by (auto simp: ms_def list_all_iff comment_line_semicolon dest: in_set_butlastD)
  moreover have "ms \<noteq> []" by (simp add: ms_def)
  ultimately have "stripSQLComments (join [newline] ms @ newline # content) = join [newline] ms @ newline # stripSQLComments content"
    by (rule stripSQLComments_lines)
  then show ?thesis by (simp add: joined)
qed

lemma strip_script_file:
  assumes "list_all (\<lambda>(comments, stmt). list_all script_comment comments \<and> script_statement stmt) items"
  shows "stripSQLComments (script_file items) = concat (map (\<lambda>(_, stmt). stmt @ [CHR '';'', newline]) items) @ [newline]"
  using assms
proof (induction items)
  case Nil
  then show ?case by (simp add: script_file_def stripSQLComments_def comment_line_def trim_space_def)
next
  case (Cons item items)
  obtain comments stmt where item: "item = (comments, stmt)" by (cases item)
  have "script_file (item # items) = concat (map (\<lambda>c. c @ [newline]) comments) @ stmt @ CHR '';'' # newline # script_file items"
    by (simp add: script_file_def item)
  then show ?case using Cons by (simp add: item stripSQLComments_comments stripSQLComments_statement)
qed

lemma split_statements:
  assumes "list_all script_statement stmts" and "CHR '';'' \<notin> set pre"
  shows "split_on (CHR '';'') (pre @ concat (map (\<lambda>stmt. stmt @ [CHR '';'', newline]) stmts) @ [newline])
    = (case stmts of [] \<Rightarrow> [pre @ [newline]]
       | s # ss \<Rightarrow> (pre @ s) # map (\<lambda>s. newline # s) ss @ [[newline, newline]])"
  using assms
proof (induction stmts arbitrary: pre)
  case Nil
  then show ?case by (simp add: split_on_word)
next
  case (Cons s ss)
  then have "CHR '';'' \<notin> set (pre @ s)" by (simp add: script_statement_def)
  with Cons.IH [of "[newline]"] Cons.prems show ?case
    by (simp add: split_on_append_sep [of _ "pre @ s", simplified] split: list.splits)
qed

lemma trim_space_newline [simp]: "trim_space (newline # s) = trim_space s"
  by (simp add: trim_space_def is_space_def)

lemma trim_space_Nil_iff: "trim_space s = [] \<longleftrightarrow> (\<forall>c\<in>set s. is_space c)"
proof
  assume "trim_space s = []"
  then have "\<forall>c\<in>set (dropWhile is_space s). is_space c" by (simp add: trim_space_def trim_right_Nil_iff)
  then have "dropWhile is_space s = []"
    by (metis hd_dropWhile hd_in_set)
  then show "\<forall>c\<in>set s. is_space c" by simp
qed (auto simp: trim_space_def trim_right_Nil_iff dest: set_dropWhileD)

lemma split_on_set: "p \<in> set (split_on d s) \<Longrightarrow> set p \<subseteq> set s"
proof (induction s arbitrary: p)
  case (Cons c s)
  then show ?case by (cases "split_on d s") (fastforce split: if_splits)+
qed simp

lemma schema_piece_blank:
  assumes "\<forall>c\<in>set s. is_space c"
  shows "schema_piece s = []"
proof -
  have "\<forall>line\<in>set (split_on newline s). trim_space line = []"
    using assms split_on_set [of _ newline s] by (auto simp: trim_space_Nil_iff)
  then have blank: "dropWhile (\<lambda>line. trim_space line = [] \<or> prefix ''--'' (trim_space line)) (split_on newline s) = []"
    by simp
  show ?thesis unfolding schema_piece_def blank by (simp add: trim_space_def)
qed

lemma schema_piece_newline: "schema_piece (newline # s) = schema_piece s"
  by (simp add: schema_piece_def trim_space_def)

lemma schema_piece_statement:
  assumes "script_statement stmt"
  shows "schema_piece stmt = stmt"
proof -
  obtain c cs where stmt: "stmt = c # cs" using assms by (cases stmt) (auto simp: script_statement_def)
  have "\<not> is_space c"
  proof
    assume "is_space c"
    then have "length (trim_space stmt) < length stmt"
      using stmt trim_right_prefix [of "dropWhile is_space cs"] length_dropWhile_le [of is_space cs]
      by (auto simp: trim_space_def dest!: arg_cong [where f = length])
    with assms show False by (simp add: script_statement_def)
  qed
  then have "c \<noteq> newline" by (auto simp: is_space_def)
  then obtain p ps where parts: "split_on newline stmt = (c # p) # ps"
    by (cases "split_on newline cs") (auto simp: stmt)
  have "\<not> comment_line (c # p)" using assms parts by (simp add: script_statement_def)
  moreover have "trim_space (c # p) \<noteq> []" using \<open>\<not> is_space c\<close> by (simp add: trim_space_Nil_iff)
  ultimately have "dropWhile (\<lambda>line. trim_space line = [] \<or> prefix ''--'' (trim_space line)) (split_on newline stmt)
      = split_on newline stmt"
    by (simp add: parts comment_line_def)
  then show ?thesis using assms by (simp add: schema_piece_def join_split_on script_statement_def)
qed

lemma pieces_of_statements:
  assumes "list_all script_statement stmts"
    and blank: "\<And>s. \<forall>c\<in>set s. is_space c \<Longrightarrow> f s = []"
    and line: "\<And>s. f (newline # s) = f s"
    and stmt: "\<And>s. script_statement s \<Longrightarrow> f s = s"
  shows "filter (\<lambda>s. s \<noteq> []) (map f (split_on (CHR '';'') (concat (map (\<lambda>s. s @ [CHR '';'', newline]) stmts) @ [newline]))) = stmts"
proof -
  have spaces: "f [newline] = []" "f [newline, newline] = []" by (simp_all add: blank is_space_def)
  have keep: "filter (\<lambda>s. s \<noteq> []) (map (\<lambda>s. f (newline # s)) ss) = ss" if "list_all script_statement ss" for ss
    using that by (induction ss) (auto simp: line stmt script_statement_def)
  show ?thesis
  proof (cases stmts)
    case Nil
    then show ?thesis by (simp add: spaces)
  next
    case (Cons s ss)
    with assms(1) have "list_all script_statement ss" and "script_statement s" by simp_all
    moreover have "s \<noteq> []" using \<open>script_statement s\<close> by (simp add: script_statement_def)
    ultimately show ?thesis
      using split_statements [OF assms(1), of "[]"] keep [of ss] by (simp add: Cons spaces stmt comp_def)
  qed
qed


text \<open>A script of two statements, with a semicolon in a comment.\<close>

definition demo_script :: "(gostring list \<times> gostring) list" where
  "demo_script = [([''-- levels; sources''], ''CREATE TABLE a'' @ [newline] @ ''(id)''), ([], ''DROP TABLE b'')]"


text \<open>
  A query whose question marks no digit follows means for Postgres, after the rewriting, what
  it means for SQLite before it: each placeholder stands for the same argument. For SQLite it
  is left as it is.
\<close>

theorem rebind_arguments:
  assumes "rebindable query"
  shows "numbered args (rebind True query) = positional args 0 query \<and> rebind False query = query"
  using numbered_rebind_from [OF assms, of args 0] by (simp add: rebind_def)

theorem rebind_arguments_witness:
  "numbered (\<lambda>n. [''7'', ''bandung''] ! n) (rebind True ''a = ? AND b = ?'') = ''a = 7 AND b = bandung''"
proof -
  have "rebindable ''a = ? AND b = ?''" by code_simp
  from rebind_arguments [OF this, of "\<lambda>n. [''7'', ''bandung''] ! n"] show ?thesis by simp
qed

end
