(* ===== verification/Seeder.thy ===== *)
theory Seeder
  imports Store_Progress Sql_Text
begin

text \<open>
  \<open>cmd/seeder/main.go\<close>: reading the two MySQL dumps, joining the postal codes and filling
  the tables, in each mode of the program. The files are their contents; messages are left out,
  and what happens to the other databases is an argument.
\<close>

section \<open>Lines\<close>


abbreviation quote :: char where "quote \<equiv> CHR 0x27"

text \<open>
  \<open>bufio.Scanner\<close> with its buffer of 1 MiB: the lines without their ends, or
  \<open>ErrTooLong\<close>.
\<close>

definition drop_cr :: "gostring \<Rightarrow> gostring" where
  "drop_cr s = (if s \<noteq> [] \<and> last s = CHR 0x0D then butlast s else s)"

definition scan_lines :: "gostring \<Rightarrow> go_error + gostring list" where
  "scan_lines content =
     (let ls = split_on newline content; ls = (if last ls = [] then butlast ls else ls)
      in if list_ex (\<lambda>l. 1048576 \<le> length l) ls then Inl ''bufio.Scanner: token too long''
         else Inr (map drop_cr ls))"

section \<open>Tuples\<close>

text \<open>
  \<open>(?:[^']|'')*\<close> up to its closing quote, with what follows. A quote that is followed by
  another one can only open a pair: what closes is followed by a comma or a parenthesis.
\<close>

fun quoted :: "gostring \<Rightarrow> (gostring \<times> gostring) option" where
  "quoted [] = None"
| "quoted [c] = (if c = quote then Some ([], []) else None)"
| "quoted (c # d # s) =
     (if c \<noteq> quote then map_option (\<lambda>(b, r). (c # b, r)) (quoted (d # s))
      else if d = quote then map_option (\<lambda>(b, r). (c # d # b, r)) (quoted s)
      else Some ([], d # s))"

definition tuple_at :: "gostring \<Rightarrow> (gostring \<times> gostring) option" where
  "tuple_at s =
     (if \<not> prefix [CHR ''('', quote] s then None
      else case quoted (drop 2 s) of
        None \<Rightarrow> None
      | Some (a, r) \<Rightarrow>
          if r = [] \<or> hd r \<noteq> CHR '','' then None
          else let r = dropWhile re_space (tl r) in
            if r = [] \<or> hd r \<noteq> quote then None
            else case quoted (tl r) of
              None \<Rightarrow> None
            | Some (b, r) \<Rightarrow> if r = [] \<or> hd r \<noteq> CHR '')'' then None else Some (a, b))"

fun tupleRe_FindStringSubmatch :: "gostring \<Rightarrow> (gostring \<times> gostring) option" where
  "tupleRe_FindStringSubmatch [] = tuple_at []"
| "tupleRe_FindStringSubmatch (c # s) =
     (case tuple_at (c # s) of None \<Rightarrow> tupleRe_FindStringSubmatch s | Some m \<Rightarrow> Some m)"

definition unescape :: "gostring \<Rightarrow> gostring" where
  "unescape s = replace_all [quote, quote] [quote] s"

section \<open>The two dumps\<close>

definition wilayah_row :: "gostring \<Rightarrow> location_code_row option" where
  "wilayah_row line =
     map_option (\<lambda>(a, b). let kode = unescape a in
        \<lparr>lr_Kode = kode, lr_Name = unescape b, lr_LevelID = int (count_list kode dot) + 2, lr_PostalCode = []\<rparr>)
       (tupleRe_FindStringSubmatch line)"

definition parseWilayah :: "gostring \<Rightarrow> go_error + location_code_row list" where
  "parseWilayah content =
     (case scan_lines content of Inl err \<Rightarrow> Inl err | Inr ls \<Rightarrow> Inr (List.map_filter wilayah_row ls))"

definition add_kodepos :: "(gostring \<rightharpoonup> gostring) \<Rightarrow> gostring \<Rightarrow> gostring \<rightharpoonup> gostring" where
  "add_kodepos m line =
     (case tupleRe_FindStringSubmatch line of
        None \<Rightarrow> m
      | Some (a, b) \<Rightarrow> if unescape b \<noteq> [] then m(unescape a \<mapsto> unescape b) else m)"

definition parseKodepos :: "gostring \<Rightarrow> go_error + (gostring \<rightharpoonup> gostring)" where
  "parseKodepos content =
     (case scan_lines content of Inl err \<Rightarrow> Inl err | Inr ls \<Rightarrow> Inr (foldl add_kodepos Map.empty ls))"

definition join_postal :: "(gostring \<rightharpoonup> gostring) \<Rightarrow> location_code_row list \<Rightarrow> location_code_row list" where
  "join_postal m rows = map (\<lambda>r. case m (lr_Kode r) of None \<Rightarrow> r | Some pc \<Rightarrow> r\<lparr>lr_PostalCode := pc\<rparr>) rows"

section \<open>Seeding\<close>

record seed_source =
  sd_Code :: gostring
  sd_Version :: gostring
  sd_Name :: gostring
  sd_Date :: gostring
  sd_Desc :: gostring

definition seed_rows :: "engine \<Rightarrow> seed_source \<Rightarrow> location_code_row list \<Rightarrow> database \<Rightarrow> unit outcome" where
  "seed_rows eng src rows =
     and_do (InsertLocationSource eng (sd_Code src) (sd_Version src) (sd_Name src) (sd_Date src) (sd_Desc src))
       (\<lambda>sourceID. and_do (for_each (InsertLocationCodeBatch eng sourceID) (batches 500 rows))
          (\<lambda>_. and_do (RebuildLocationHierarchy eng sourceID) (\<lambda>_. RebuildCityPriority eng sourceID)))"

definition seed :: "engine \<Rightarrow> seed_source \<Rightarrow> gostring \<Rightarrow> gostring \<Rightarrow> database \<Rightarrow> unit outcome" where
  "seed eng src wilayah kodepos db =
     (case parseWilayah wilayah of
        Inl err \<Rightarrow> (Inl err, db)
      | Inr rows \<Rightarrow>
          (case parseKodepos kodepos of
             Inl err \<Rightarrow> (Inl err, db)
           | Inr m \<Rightarrow> seed_rows eng src (join_postal m rows) db))"

text \<open>
  \<open>main\<close>: at most one of the four flags, then the guard on the existing tables and the
  operation. What happens to other databases is an argument: the script \<open>db/location.sql\<close>, the
  schemas of the address database (\<open>initAddressSchemas\<close>), dropping the Postgres tables and the
  copy to Postgres (\<open>syncPostgres\<close>) may each fail, which ends the program.
\<close>

datatype seeder_mode = ModeInit | ModeDrop | ModeTruncate | ModeNormalize | ModeUpdate

definition seeder_flags :: "bool \<Rightarrow> bool \<Rightarrow> bool \<Rightarrow> bool \<Rightarrow> seeder_mode option" where
  "seeder_flags dropFlag initFlag truncateFlag normalizeFlag =
     (if 1 < length (filter id [dropFlag, initFlag, truncateFlag, normalizeFlag]) then None
      else if initFlag then Some ModeInit else if dropFlag then Some ModeDrop
      else if truncateFlag then Some ModeTruncate else if normalizeFlag then Some ModeNormalize else Some ModeUpdate)"

record seeder_calls =
  so_schema :: "database \<Rightarrow> unit outcome"
  so_address :: "go_error option"
  so_drop_postgres :: "go_error option"
  so_sync :: "tables \<Rightarrow> go_error option"

text \<open>\<open>execLocationSchema\<close>; \<open>exec\<close> is the engine on a statement of the script.\<close>

definition execLocationSchema ::
  "(gostring \<Rightarrow> go_error + gostring) \<Rightarrow> (gostring \<Rightarrow> database \<Rightarrow> go_error option \<times> database) \<Rightarrow> database \<Rightarrow> unit outcome" where
  "execLocationSchema ReadFile exec db =
     (case ReadFile ''db/location.sql'' of
        Inl err \<Rightarrow> (Inl err, db)
      | Inr schema \<Rightarrow>
          (case ExecSchema exec schema db of
             (Some err, db) \<Rightarrow> (Inl err, db)
           | (None, db) \<Rightarrow> (Inr (), db)))"

definition elsewhere :: "(tables \<Rightarrow> go_error option) \<Rightarrow> database \<Rightarrow> unit outcome" where
  "elsewhere f db = (case f (d_tables db) of Some err \<Rightarrow> (Inl err, db) | None \<Rightarrow> (Inr (), db))"

definition run_seeder ::
  "engine \<Rightarrow> seeder_calls \<Rightarrow> seeder_mode \<Rightarrow> bool \<Rightarrow> seed_source \<Rightarrow> gostring \<Rightarrow> gostring \<Rightarrow> database \<Rightarrow> unit outcome" where
  "run_seeder eng calls mode confirmed src wilayah kodepos =
     and_do (HasLocationTables eng) (\<lambda>hasTables.
       let seed_and_sync = and_do (seed eng src wilayah kodepos) (\<lambda>_. elsewhere (so_sync calls)) in
       case mode of
         ModeInit \<Rightarrow>
           if hasTables then (\<lambda>db. (Inl ''tables already exist, use --drop to recreate'', db))
           else and_do (so_schema calls) (\<lambda>_. and_do (elsewhere (\<lambda>_. so_address calls)) (\<lambda>_. seed_and_sync))
       | ModeDrop \<Rightarrow>
           if \<not> hasTables then (\<lambda>db. (Inl ''no tables to drop, use --init for first-time setup'', db))
           else if \<not> confirmed then (\<lambda>db. (Inl ''aborted'', db))
           else and_do (elsewhere (\<lambda>_. so_drop_postgres calls)) (\<lambda>_. DropAll False eng)
       | ModeTruncate \<Rightarrow>
           if \<not> hasTables then (\<lambda>db. (Inl ''no tables found, use --init for first-time setup'', db))
           else and_do (TruncateAll False eng) (\<lambda>_. seed_and_sync)
       | ModeNormalize \<Rightarrow>
           if \<not> hasTables then (\<lambda>db. (Inl ''no tables found, use --init for first-time setup'', db))
           else and_do (RebuildNormalized eng) (\<lambda>_. elsewhere (so_sync calls))
       | ModeUpdate \<Rightarrow>
           if \<not> hasTables then (\<lambda>db. (Inl ''Location tables not found'', db)) else seed_and_sync)"

text \<open>\<open>promptConfirm\<close>: \<open>None\<close> where there is no line to read.\<close>

definition promptConfirm :: "gostring option \<Rightarrow> bool" where
  "promptConfirm line =
     (case line of
        None \<Rightarrow> False
      | Some l \<Rightarrow> let resp = trim_space (to_lower l) in resp = ''y'' \<or> resp = ''yes'')"


section \<open>What a dump says is what is read\<close>

text \<open>A string as a MySQL dump writes it, and a tuple of two of them.\<close>

definition escape :: "gostring \<Rightarrow> gostring" where
  "escape s = concat (map (\<lambda>c. if c = quote then [quote, quote] else [c]) s)"

definition dump_tuple :: "gostring \<Rightarrow> gostring \<Rightarrow> gostring \<Rightarrow> gostring" where
  "dump_tuple spaces a b =
     [CHR ''('', quote] @ escape a @ [quote, CHR '',''] @ spaces @ [quote] @ escape b @ [quote, CHR '')'']"

lemma escape_simps [simp]:
  "escape [] = []" "escape (c # s) = (if c = quote then [quote, quote] else [c]) @ escape s"
  by (simp_all add: escape_def)

lemma unescape_escape: "unescape (escape s) = s"
  by (induction s) (simp_all add: unescape_def)

lemma quoted_escape:
  assumes "rest = [] \<or> hd rest \<noteq> quote"
  shows "quoted (escape s @ quote # rest) = Some (escape s, rest)"
proof (induction s)
  case Nil
  then show ?case using assms by (cases rest) simp_all
next
  case (Cons c s)
  show ?case
  proof (cases "c = quote")
    case True
    with Cons show ?thesis by simp
  next
    case False
    obtain d r where "escape s @ quote # rest = d # r" by (cases "escape s @ quote # rest") simp_all
    with False Cons show ?thesis by simp
  qed
qed

lemma tuple_at_dump:
  assumes "list_all re_space spaces"
  shows "tuple_at (dump_tuple spaces a b @ post) = Some (escape a, escape b)"
proof -
  have space: "\<not> re_space quote" by (simp add: re_space_def)
  have first: "quoted (escape a @ quote # CHR '','' # spaces @ quote # escape b @ quote # CHR '')'' # post)
      = Some (escape a, CHR '','' # spaces @ quote # escape b @ quote # CHR '')'' # post)"
    by (rule quoted_escape) simp
  have second: "quoted (escape b @ quote # CHR '')'' # post) = Some (escape b, CHR '')'' # post)"
    by (rule quoted_escape) simp
  have "dropWhile re_space (spaces @ quote # escape b @ quote # CHR '')'' # post) = quote # escape b @ quote # CHR '')'' # post"
    using assms space by (simp add: dropWhile_append3 list_all_iff)
  then show ?thesis by (simp add: tuple_at_def dump_tuple_def first second)
qed

lemma find_skips:
  assumes "CHR ''('' \<notin> set pre"
  shows "tupleRe_FindStringSubmatch (pre @ s) = (if s = [] then None else tupleRe_FindStringSubmatch s)"
  using assms
proof (induction pre)
  case Nil
  have "tuple_at [] = None" by (simp add: tuple_at_def)
  then show ?case by simp
next
  case (Cons c pre)
  then have "tuple_at (c # pre @ s) = None" by (auto simp: tuple_at_def)
  with Cons show ?case by simp
qed

lemma dump_line:
  assumes "CHR ''('' \<notin> set pre" and "list_all re_space spaces"
  shows "tupleRe_FindStringSubmatch (pre @ dump_tuple spaces a b @ post) = Some (escape a, escape b)"
proof -
  have "tupleRe_FindStringSubmatch (dump_tuple spaces a b @ post) = Some (escape a, escape b)"
    using tuple_at_dump [OF assms(2), of a b post]
    by (cases "dump_tuple spaces a b @ post") (simp_all add: dump_tuple_def)
  moreover have "dump_tuple spaces a b @ post \<noteq> []" by (simp add: dump_tuple_def)
  ultimately show ?thesis by (simp add: find_skips [OF assms(1)])
qed

end
