(* ===== verification/Seeder_Laws.thy ===== *)
theory Seeder_Laws
  imports Seeder
begin

text \<open>
  The effect of seeding, and the properties of the tables: what every sequence of operations
  keeps, what each operation does when it ends well and that it does nothing when it fails.
\<close>

section \<open>A rebuilt hierarchy is complete\<close>

text \<open>In tables that keep the schema, the rows of the source are afterwards exactly the chains of its codes.\<close>

lemma rebuilt_complete:
  assumes "is_engine eng" and ok: "schema_ok (d_tables db)"
    and run: "RebuildLocationHierarchy eng sid db = (Inr (), db')"
  shows "{h \<in> set (t_hierarchy (d_tables db')). hi_SourceID h = sid} = Collect (chain_row (d_tables db') sid)"
    and "d_tables db' = (d_tables db)\<lparr>t_hierarchy := t_hierarchy (d_tables db')\<rparr>"
    and "set (t_hierarchy (d_tables db)) \<subseteq> set (t_hierarchy (d_tables db'))"
proof -
  let ?t = "d_tables db" and ?t' = "d_tables db'"
  have ok1: "tables_ok ?t" using ok by (simp add: schema_ok_def)
  show t': "?t' = ?t\<lparr>t_hierarchy := t_hierarchy ?t'\<rparr>" by (rule rebuilt_hierarchy(1) [OF assms(1) ok1 run])
  have rows: "set (t_hierarchy ?t') = set (t_hierarchy ?t)
      \<union> {h. chain_row ?t sid h \<and> hi_key h \<notin> hi_key ` set (t_hierarchy ?t)}"
    by (rule rebuilt_hierarchy(2) [OF assms(1) ok1 run])
  then show "set (t_hierarchy ?t) \<subseteq> set (t_hierarchy ?t')" by simp
  have "t_codes ?t' = t_codes ?t" by (subst t') simp
  then have same: "chain_row ?t' = chain_row ?t" by (simp add: fun_eq_iff chain_row_def place_def)
  have old: "chain_row ?t (hi_SourceID h) h" if "h \<in> set (t_hierarchy ?t)" for h
    using ok that by (simp add: schema_ok_def list_all_iff)
  have "h \<in> set (t_hierarchy ?t')" if chain: "chain_row ?t sid h" for h
  proof (cases "hi_key h \<in> hi_key ` set (t_hierarchy ?t)")
    case True
    then obtain g where g: "g \<in> set (t_hierarchy ?t)" "hi_SourceID g = hi_SourceID h" "hi_SubDistrictID g = hi_SubDistrictID h"
      by auto
    have "hi_SourceID h = sid" using chain by (simp add: chain_row_def)
    then have "chain_row ?t sid g" using old [OF g(1)] g(2) by simp
    then have "g = h" using g(3) by (intro chain_row_unique [OF ok1 _ chain])
    with g(1) rows show ?thesis by simp
  next
    case False
    with chain rows show ?thesis by simp
  qed
  moreover have "chain_row ?t sid h" if "h \<in> set (t_hierarchy ?t')" and "hi_SourceID h = sid" for h
    using that rows old by auto
  moreover have "hi_SourceID h = sid" if "chain_row ?t sid h" for h using that by (simp add: chain_row_def)
  ultimately show "{h \<in> set (t_hierarchy ?t'). hi_SourceID h = sid} = Collect (chain_row ?t' sid)"
    unfolding same by blast
qed

section \<open>The steps of a seed\<close>

lemma InsertLocationSource_success:
  assumes "InsertLocationSource eng code version nm codeDate descr db = (Inr sid, db')"
  shows "\<exists>s\<in>set (t_sources (d_tables db')). ls_ID s = sid \<and> ls_Code s = code \<and> ls_Version s = version \<and> ls_DeletedAt s = None"
    and "d_tables db' = (d_tables db)\<lparr>t_sources := t_sources (d_tables db')\<rparr>"
    and "list_ex (\<lambda>s. ls_Code s = code \<and> ls_Version s = version) (t_sources (d_tables db)) \<Longrightarrow> d_tables db' = d_tables db"
proof -
  obtain u db1 where "statement eng [''location_sources''] 5 (insert_source eng code version nm codeDate descr) db = (Inr u, db1)"
    and look: "query_row eng [''location_sources''] 2 (\<lambda>n t.
             (case filter (\<lambda>s. ls_Code s = code \<and> ls_Version s = version \<and> ls_DeletedAt s = None) (t_sources t) of
                [] \<Rightarrow> None | s # _ \<Rightarrow> Some (ls_ID s))) db1 = (Inr sid, db')"
    using assms unfolding InsertLocationSource_def and_do_Inr wrapped_Inr by blast
  then obtain n where ins: "insert_source eng code version nm codeDate descr n (d_tables db) = (Inr u, d_tables db1)"
    by (auto elim: statementE)
  have same: "d_tables db' = d_tables db1" using readsD [OF reads_query_row look] .
  obtain s ss where "filter (\<lambda>s. ls_Code s = code \<and> ls_Version s = version \<and> ls_DeletedAt s = None) (t_sources (d_tables db1)) = s # ss"
    and "sid = ls_ID s"
    using look unfolding query_row_def by (auto elim!: statementE split: list.splits)
  then have "s \<in> set (filter (\<lambda>s. ls_Code s = code \<and> ls_Version s = version \<and> ls_DeletedAt s = None)
      (t_sources (d_tables db1)))" and "ls_ID s = sid" by simp_all
  then show "\<exists>s\<in>set (t_sources (d_tables db')). ls_ID s = sid \<and> ls_Code s = code \<and> ls_Version s = version \<and> ls_DeletedAt s = None"
    by (intro bexI [of _ s]) (simp_all add: same)
  show "d_tables db' = (d_tables db)\<lparr>t_sources := t_sources (d_tables db')\<rparr>"
  proof -
    have "d_tables db1 = d_tables db \<or> (\<exists>x. d_tables db1 = (d_tables db)\<lparr>t_sources := x\<rparr>)"
      using ins by (auto simp: insert_source_def Let_def split: if_splits dest: sym)
    then show ?thesis by (elim disjE exE) (simp_all add: same)
  qed
  show "d_tables db' = d_tables db"
    if "list_ex (\<lambda>s. ls_Code s = code \<and> ls_Version s = version) (t_sources (d_tables db))"
    using ins that by (simp add: same insert_source_def)
qed

lemma for_each_batch_success:
  assumes "for_each (InsertLocationCodeBatch eng sid) bs db = (Inr (), db')"
  shows "codes_added sid (concat bs) (d_tables db) (d_tables db')"
  using assms
proof (induction bs arbitrary: db)
  case Nil
  then show ?case by (simp add: codes_added_refl)
next
  case (Cons b bs)
  then obtain db1 where "InsertLocationCodeBatch eng sid b db = (Inr (), db1)"
    and "codes_added sid (concat bs) (d_tables db1) (d_tables db')"
    by (auto simp: and_do_Inr)
  from codes_added_trans [OF InsertLocationCodeBatch_success [OF this(1)] this(2)] show ?case by simp
qed

lemma seed_rowsE:
  assumes "seed_rows eng src rows db = (Inr (), db')"
  obtains sid db1 db2 db3 where
    "InsertLocationSource eng (sd_Code src) (sd_Version src) (sd_Name src) (sd_Date src) (sd_Desc src) db = (Inr sid, db1)"
    and "codes_added sid rows (d_tables db1) (d_tables db2)"
    and "RebuildLocationHierarchy eng sid db2 = (Inr (), db3)" and "RebuildCityPriority eng sid db3 = (Inr (), db')"
proof -
  obtain sid db1 db2 db3 where
    1: "InsertLocationSource eng (sd_Code src) (sd_Version src) (sd_Name src) (sd_Date src) (sd_Desc src) db = (Inr sid, db1)"
    and 2: "for_each (InsertLocationCodeBatch eng sid) (batches 500 rows) db1 = (Inr (), db2)"
    and 3: "RebuildLocationHierarchy eng sid db2 = (Inr (), db3)" and 4: "RebuildCityPriority eng sid db3 = (Inr (), db')"
    using assms unfolding seed_rows_def and_do_Inr by (metis (full_types) old.unit.exhaust)
  have "codes_added sid rows (d_tables db1) (d_tables db2)" using for_each_batch_success [OF 2] by simp
  then show ?thesis by (rule that [OF 1 _ 3 4])
qed

lemma seed_rows_keeps:
  assumes "is_engine eng"
  shows "keeps schema_ok (seed_rows eng src rows)"
  unfolding seed_rows_def
  by (intro keeps_and_do keeps_for_each InsertLocationSource_keeps InsertLocationCodeBatch_keeps
      RebuildLocationHierarchy_keeps RebuildCityPriority_keeps assms)

section \<open>The effect of a seed\<close>

text \<open>
  The tables after a seed of a source: the source is there, its codes are the old ones and
  those of the rows, its hierarchy is exactly the chains and its priorities are those of the
  ambiguous city names.
\<close>

definition source_row :: "seed_source \<Rightarrow> int64 \<Rightarrow> tables \<Rightarrow> bool" where
  "source_row src sid t \<longleftrightarrow> (\<exists>s\<in>set (t_sources t). ls_ID s = sid \<and> ls_Code s = sd_Code src
     \<and> ls_Version s = sd_Version src \<and> ls_DeletedAt s = None)"

definition priorities_hold :: "int64 \<Rightarrow> tables \<Rightarrow> bool" where
  "priorities_hold sid t \<longleftrightarrow>
     (\<lambda>r. (pr_LowercaseNormalized r, pr_CityType r, pr_DeletedAt r)) ` {r \<in> set (t_priority t). pr_SourceID r = sid}
     = (\<lambda>nm. (nm, city_type_of t sid nm, None)) ` set (overlapping_names sid t)"

lemma codes_only:
  "t_codes t' = t_codes t \<Longrightarrow> chain_row t' = chain_row t \<and> overlapping_names sid t' = overlapping_names sid t
     \<and> city_type_of t' sid = city_type_of t sid \<and> kodes_of sid t' = kodes_of sid t"
  by (simp add: fun_eq_iff chain_row_def place_def overlapping_names_def city_type_of_def kodes_of_def)

lemma seed_rows_effect:
  assumes eng: "is_engine eng" and ok: "schema_ok (d_tables db)" and run: "seed_rows eng src rows db = (Inr (), db')"
  obtains sid where "source_row src sid (d_tables db')"
    and "codes_added sid rows (d_tables db) ((d_tables db)\<lparr>t_codes := t_codes (d_tables db')\<rparr>)"
    and "{h \<in> set (t_hierarchy (d_tables db')). hi_SourceID h = sid} = Collect (chain_row (d_tables db') sid)"
    and "priorities_hold sid (d_tables db')"
    and "set (t_hierarchy (d_tables db)) \<subseteq> set (t_hierarchy (d_tables db'))"
proof -
  obtain sid db1 db2 db3 where
    s: "InsertLocationSource eng (sd_Code src) (sd_Version src) (sd_Name src) (sd_Date src) (sd_Desc src) db = (Inr sid, db1)"
    and c: "codes_added sid rows (d_tables db1) (d_tables db2)"
    and h: "RebuildLocationHierarchy eng sid db2 = (Inr (), db3)" and p: "RebuildCityPriority eng sid db3 = (Inr (), db')"
    using run by (rule seed_rowsE)
  let ?t = "d_tables db" and ?t1 = "d_tables db1" and ?t2 = "d_tables db2" and ?t3 = "d_tables db3" and ?t' = "d_tables db'"
  have t1: "?t1 = ?t\<lparr>t_sources := t_sources ?t1\<rparr>" by (rule InsertLocationSource_success(2) [OF s])
  have ok1: "schema_ok ?t1" using InsertLocationSource_keeps ok s by (metis keeps_def snd_conv)
  have ok2: "schema_ok ?t2" by (rule codes_added_schema [OF ok1 c])
  obtain new where t2: "?t2 = ?t1\<lparr>t_codes := t_codes ?t1 @ new\<rparr>" using c by (auto simp: codes_added_def Let_def)
  have t3: "?t3 = ?t2\<lparr>t_hierarchy := t_hierarchy ?t3\<rparr>" by (rule rebuilt_complete(2) [OF eng ok2 h])
  obtain n where t': "?t' = ?t3\<lparr>t_priority := filter (\<lambda>r. pr_SourceID r \<noteq> sid) (t_priority ?t3) @
      map (\<lambda>nm. \<lparr>pr_SourceID = sid, pr_LowercaseNormalized = nm, pr_CityType = city_type_of ?t3 sid nm,
                 pr_DeletedAt = None\<rparr>) (en_names eng n (overlapping_names sid ?t3))\<rparr>"
    using RebuildCityPriority_success [OF eng p] .
  have codes3: "t_codes ?t3 = t_codes ?t2" and sources3: "t_sources ?t3 = t_sources ?t2"
    and priority3: "t_priority ?t3 = t_priority ?t2" by (subst t3, simp)+
  have codes: "t_codes ?t' = t_codes ?t2" and hier: "t_hierarchy ?t' = t_hierarchy ?t3"
    and sources: "t_sources ?t' = t_sources ?t1"
    by (simp_all add: t' codes3 sources3) (simp add: t2)
  have t1_parts: "t_codes ?t1 = t_codes ?t" "t_hierarchy ?t1 = t_hierarchy ?t" by (subst t1, simp)+
  show ?thesis
  proof (rule that [of sid])
    show "source_row src sid ?t'"
      using InsertLocationSource_success(1) [OF s] by (simp add: source_row_def sources)
    show "codes_added sid rows ?t (?t\<lparr>t_codes := t_codes ?t'\<rparr>)"
      using c by (auto simp: codes_added_def Let_def codes t1_parts kodes_of_def)
    show "{h \<in> set (t_hierarchy ?t'). hi_SourceID h = sid} = Collect (chain_row ?t' sid)"
      using rebuilt_complete(1) [OF eng ok2 h] codes_only [of ?t' ?t3 sid] by (simp add: hier codes codes3)
    show "priorities_hold sid ?t'"
    proof -
      let ?row = "\<lambda>nm. \<lparr>pr_SourceID = sid, pr_LowercaseNormalized = nm, pr_CityType = city_type_of ?t' sid nm,
          pr_DeletedAt = None\<rparr>"
      have names: "set (en_names eng n (overlapping_names sid ?t3)) = set (overlapping_names sid ?t')"
        and ty: "city_type_of ?t3 sid = city_type_of ?t' sid"
        using codes_only [of ?t' ?t3 sid] by (simp_all add: codes codes3 is_order_set is_engineD [OF eng])
      have "{r \<in> set (t_priority ?t'). pr_SourceID r = sid} = ?row ` set (overlapping_names sid ?t')"
        unfolding names [symmetric] ty [symmetric] by (subst t') auto
      then show ?thesis by (simp add: priorities_hold_def image_image)
    qed
    show "set (t_hierarchy ?t) \<subseteq> set (t_hierarchy ?t')"
      using rebuilt_complete(3) [OF eng ok2 h] by (simp add: hier t2 t1_parts)
  qed
qed


section \<open>Seeding again\<close>

lemma dedup_by_seen: "key ` set xs \<subseteq> seen \<Longrightarrow> dedup_by key seen xs = []"
  by (induction xs) auto

lemma codes_added_known: "lr_Kode ` set rows \<subseteq> kodes_of sid t \<Longrightarrow> codes_added sid rows t t' \<Longrightarrow> t' = t"
  by (auto simp: codes_added_def Let_def dedup_by_seen)

lemma source_row_unique:
  "tables_ok t \<Longrightarrow> source_row src sid t \<Longrightarrow> source_row src sid' t \<Longrightarrow> sid = sid'"
  by (auto simp: source_row_def tables_ok_def distinct_map inj_on_def)

lemma seed_rows_schema:
  "is_engine eng \<Longrightarrow> schema_ok (d_tables db) \<Longrightarrow> seed_rows eng src rows db = (r, db') \<Longrightarrow> schema_ok (d_tables db')"
  using seed_rows_keeps by (metis keeps_def snd_conv)

lemma seed_rows_again:
  assumes eng: "is_engine eng" "is_engine eng'" and ok: "schema_ok (d_tables db)"
    and first: "seed_rows eng src rows db = (Inr (), db1)" and same: "d_tables db2 = d_tables db1"
    and second: "seed_rows eng' src rows db2 = (Inr (), db3)"
  shows "d_tables db3 = (d_tables db1)\<lparr>t_priority := t_priority (d_tables db3)\<rparr>"
proof -
  let ?t = "d_tables db1"
  have ok1: "schema_ok ?t" by (rule seed_rows_schema [OF eng(1) ok first])
  then have ok1': "tables_ok ?t" by (simp add: schema_ok_def)
  obtain sid where src: "source_row src sid ?t"
    and added: "codes_added sid rows (d_tables db) ((d_tables db)\<lparr>t_codes := t_codes ?t\<rparr>)"
    and chains: "{h \<in> set (t_hierarchy ?t). hi_SourceID h = sid} = Collect (chain_row ?t sid)"
    by (rule seed_rows_effect [OF eng(1) ok first])
  have "kodes_of sid ?t = kodes_of sid ((d_tables db)\<lparr>t_codes := t_codes ?t\<rparr>)" by (simp add: kodes_of_def)
  then have known: "lr_Kode ` set rows \<subseteq> kodes_of sid ?t" using kodes_of_added [OF added] by simp
  obtain sid' db4 db5 db6 where
    s: "InsertLocationSource eng' (sd_Code src) (sd_Version src) (sd_Name src) (sd_Date src) (sd_Desc src) db2 = (Inr sid', db4)"
    and c: "codes_added sid' rows (d_tables db4) (d_tables db5)"
    and h: "RebuildLocationHierarchy eng' sid' db5 = (Inr (), db6)" and p: "RebuildCityPriority eng' sid' db6 = (Inr (), db3)"
    using second by (rule seed_rowsE)
  have "list_ex (\<lambda>s. ls_Code s = sd_Code src \<and> ls_Version s = sd_Version src) (t_sources (d_tables db2))"
    using src by (auto simp: source_row_def same list_ex_iff)
  then have t4: "d_tables db4 = ?t" using InsertLocationSource_success(3) [OF s] same by simp
  have "source_row src sid' ?t" using InsertLocationSource_success(1) [OF s] by (simp add: source_row_def t4)
  then have sid: "sid' = sid" using source_row_unique [OF ok1' src] by simp
  have t5: "d_tables db5 = ?t" using codes_added_known [OF known] c by (simp add: sid t4)
  obtain n n' where t6: "d_tables db6 = fold insert_hierarchy (wanted_rows eng' sid n n' ?t) ?t"
    using RebuildLocationHierarchy_success [OF h] unfolding sid t5 .
  have "hi_key ` set (wanted_rows eng' sid n n' ?t) \<subseteq> hi_key ` set (t_hierarchy ?t)"
    using chains by (auto simp: set_wanted_rows [OF eng(2) ok1'])
  then have t6: "d_tables db6 = ?t" by (simp add: t6 fold_insert_hierarchy dedup_by_seen)
  obtain x where t3: "d_tables db3 = ?t\<lparr>t_priority := x\<rparr>"
    by (rule RebuildCityPriority_success [OF eng(2) p]) (simp only: t6)
  show "d_tables db3 = ?t\<lparr>t_priority := t_priority (d_tables db3)\<rparr>" by (simp add: t3)
qed


section \<open>Progress\<close>

definition can_insert :: "gostring \<Rightarrow> gostring \<Rightarrow> tables \<Rightarrow> bool" where
  "can_insert code version t \<longleftrightarrow> t_sources t = []
     \<or> list_ex (\<lambda>s. ls_Code s = code \<and> ls_Version s = version \<and> ls_DeletedAt s = None) (t_sources t)"

lemma InsertLocationSource_proceeds:
  assumes "obliging eng"
  shows "proceeds (\<lambda>t. room_for k t \<and> can_insert code version t) (room_for k)
    (InsertLocationSource eng code version nm codeDate descr)"
  unfolding InsertLocationSource_def
proof (rule proceeds_and_do [where Q = "\<lambda>t. room_for k t
    \<and> list_ex (\<lambda>s. ls_Code s = code \<and> ls_Version s = version \<and> ls_DeletedAt s = None) (t_sources t)"])
  show "proceeds (\<lambda>t. room_for k t \<and> can_insert code version t)
      (\<lambda>t. room_for k t \<and> list_ex (\<lambda>s. ls_Code s = code \<and> ls_Version s = version \<and> ls_DeletedAt s = None) (t_sources t))
      (wrapped (in_context ''insert source'') (statement eng [''location_sources''] 5
         (insert_source eng code version nm codeDate descr)))"
    by (intro proceeds_wrapped proceeds_statement assms)
      (auto simp: sqlite_max_params_def room_for_def has_tables_def location_tables_def insert_source_def can_insert_def list_ex_iff)
  show "proceeds (\<lambda>t. room_for k t
        \<and> list_ex (\<lambda>s. ls_Code s = code \<and> ls_Version s = version \<and> ls_DeletedAt s = None) (t_sources t)) (room_for k)
      (wrapped (in_context ''lookup source'') (query_row eng [''location_sources''] 2 (\<lambda>n t.
         (case filter (\<lambda>s. ls_Code s = code \<and> ls_Version s = version \<and> ls_DeletedAt s = None) (t_sources t) of
            [] \<Rightarrow> None | s # _ \<Rightarrow> Some (ls_ID s)))))"
    unfolding query_row_def
    by (intro proceeds_wrapped proceeds_statement assms)
      (auto simp: sqlite_max_params_def room_for_def has_tables_def location_tables_def list_ex_iff filter_empty_conv
         split: list.split)
qed

lemma batch_loop_proceeds:
  assumes "obliging eng"
  shows "proceeds (room_for (length (concat bs))) has_tables (for_each (InsertLocationCodeBatch eng sid) bs)"
proof (induction bs)
  case Nil
  then show ?case by (simp add: proceeds_def room_for_def)
next
  case (Cons b bs)
  have "for_each (InsertLocationCodeBatch eng sid) (b # bs) = and_do (InsertLocationCodeBatch eng sid b)
      (\<lambda>_. for_each (InsertLocationCodeBatch eng sid) bs)" by (simp add: fun_eq_iff)
  moreover have "proceeds (room_for (length (concat (b # bs)))) (room_for (length (concat bs))) (InsertLocationCodeBatch eng sid b)"
    using InsertLocationCodeBatch_proceeds [OF assms, of b "length (concat bs)" sid] by simp
  ultimately show ?case using Cons by (auto intro: proceeds_and_do)
qed

lemma seed_rows_proceeds:
  assumes "obliging eng"
  shows "proceeds (\<lambda>t. room_for (length rows) t \<and> can_insert (sd_Code src) (sd_Version src) t) has_tables (seed_rows eng src rows)"
proof -
  have "proceeds (room_for (length rows)) has_tables (for_each (InsertLocationCodeBatch eng sid) (batches 500 rows))" for sid
    using batch_loop_proceeds [OF assms, of "batches 500 rows" sid] by simp
  then show ?thesis
    unfolding seed_rows_def
    by (intro proceeds_and_do [OF InsertLocationSource_proceeds [OF assms]] proceeds_and_do [where Q = has_tables]
        RebuildLocationHierarchy_proceeds RebuildCityPriority_proceeds assms)
qed


section \<open>Properties of the tables\<close>

text \<open>The database after \<open>--init\<close>, a source and the rows of four places.\<close>

definition demo_database :: database where
  "demo_database = \<lparr>d_tables = empty_tables, d_clock = 0\<rparr>"

definition demo_source :: seed_source where
  "demo_source = \<lparr>sd_Code = ''kemendagri'', sd_Version = ''2025'', sd_Name = ''Kepmendagri'', sd_Date = [], sd_Desc = []\<rparr>"

definition demo_rows :: "location_code_row list" where
  "demo_rows = [\<lparr>lr_Kode = ''32'', lr_Name = ''Jawa Barat'', lr_LevelID = 2, lr_PostalCode = []\<rparr>,
     \<lparr>lr_Kode = ''32.73'', lr_Name = ''Kota Bandung'', lr_LevelID = 3, lr_PostalCode = []\<rparr>,
     \<lparr>lr_Kode = ''32.73.01'', lr_Name = ''Sukasari'', lr_LevelID = 4, lr_PostalCode = []\<rparr>,
     \<lparr>lr_Kode = ''32.73.01.1001'', lr_Name = ''Isola'', lr_LevelID = 5, lr_PostalCode = ''40154''\<rparr>]"

lemma demo_room: "room_for (length demo_rows) (d_tables demo_database)" "can_insert code version (d_tables demo_database)"
  by (simp_all add: can_insert_def demo_database_def demo_rows_def room_for_def has_tables_def empty_tables_def)

lemma demo_schema: "schema_ok (d_tables demo_database)"
  by (simp add: demo_database_def empty_tables_def schema_ok_def tables_ok_def)

lemma demo_seeded: "\<exists>db'. seed_rows plain_engine demo_source demo_rows demo_database = (Inr (), db')"
  using seed_rows_proceeds [OF plain_engine_obliging, of demo_rows demo_source] demo_room
  unfolding proceeds_def by (metis (full_types) old.unit.exhaust)

text \<open>
  Whatever sequence of inserting sources and codes, rebuilding, truncating and dropping
  has run, each operation ending well or failing at any of its statements, the constraints of
  the schema hold: identifiers and codes are unique, and every row of the hierarchy refers to
  live codes of its own source, a sub-district of four parts and the places of its prefixes.
\<close>

theorem store_schema:
  assumes "stored db"
  shows "schema_ok (d_tables db)"
  using assms by (rule stored_schema)

lemma store_schema_witness:
  "schema_ok (d_tables (snd (TruncateAll False plain_engine (snd (RebuildLocationHierarchy plain_engine 1
     (snd (InsertLocationCodeBatch plain_engine 1 demo_rows demo_database)))))))"
  by (rule store_schema) (use plain_engine_ok in \<open>simp add: demo_database_def stored.intros\<close>)


text \<open>
  C15. On an engine that refuses no statement, has fresh identifiers and allows as many
  parameters as SQLite does (32766), inserting any number of codes and the three rebuilds end
  well: their batches stay within that limit.
\<close>

theorem table_operations_succeed:
  assumes "obliging eng" and "room_for (length rows) (d_tables db)"
  shows "(\<exists>db'. InsertLocationCodeBatch eng sid rows db = (Inr (), db'))
    \<and> (\<exists>db'. RebuildLocationHierarchy eng sid db = (Inr (), db'))
    \<and> (\<exists>db'. RebuildNormalized eng db = (Inr (), db'))
    \<and> (\<exists>db'. RebuildCityPriority eng sid db = (Inr (), db'))"
proof -
  have "room_for (length rows + 0) (d_tables db)" and "has_tables (d_tables db)"
    using assms(2) by (simp_all add: room_for_def)
  then show ?thesis
    using InsertLocationCodeBatch_proceeds [OF assms(1), of rows 0 sid] RebuildLocationHierarchy_proceeds [OF assms(1), of sid]
      RebuildNormalized_proceeds [OF assms(1)] RebuildCityPriority_proceeds [OF assms(1), of sid]
    unfolding proceeds_def by (metis (full_types) old.unit.exhaust)
qed

lemma table_operations_succeed_witness:
  "\<exists>db'. InsertLocationCodeBatch plain_engine 1 demo_rows demo_database = (Inr (), db')"
  using table_operations_succeed [OF plain_engine_obliging demo_room(1), of 1] by (rule conjunct1)

text \<open>
  C11. In tables that keep the schema, the hierarchy that is loaded after a rebuild says
  exactly what the codes say: the district of a sub-district is the place with its first three
  parts, the city of a district the place with two, the province of a city the place with one,
  for those sub-districts that have all three.
\<close>

theorem rebuilt_hierarchy_refines_codes:
  assumes "is_engine eng" and "schema_ok (d_tables db)"
    and "RebuildLocationHierarchy eng sid db = (Inr (), db')"
    and "is_engine eng'" and "repo_LoadFullHierarchy eng' sid db' = (Inr h, db'')"
  shows "hierarchy_reads (d_tables db) sid h"
proof -
  have "schema_ok (d_tables db')"
    using RebuildLocationHierarchy_keeps [OF assms(1), of sid] assms(2,3) by (metis keeps_def snd_conv)
  then have ok': "tables_ok (d_tables db')" by (simp add: schema_ok_def)
  have "t_codes (d_tables db') = t_codes (d_tables db)"
    by (subst rebuilt_complete(2) [OF assms(1-3)]) simp
  then have same: "chain_row (d_tables db') = chain_row (d_tables db)" using codes_only by blast
  have "{r \<in> set (t_hierarchy (d_tables db')). hi_SourceID r = sid \<and> hi_live r} = Collect (chain_row (d_tables db) sid)"
    using rebuilt_complete(1) [OF assms(1-3)] unfolding same by (auto simp: chain_row_def)
  with assms(2,4,5) ok' show ?thesis by (auto intro!: loaded_hierarchy simp: schema_ok_def)
qed


lemma LoadFullHierarchy_proceeds: "obliging eng \<Longrightarrow> proceeds has_tables has_tables (repo_LoadFullHierarchy eng sid)"
  unfolding repo_LoadFullHierarchy_def
  by (intro proceeds_wrapped proceeds_query) (auto simp: sqlite_max_params_def has_tables_def location_tables_def)

definition demo_filled :: database where
  "demo_filled = snd (InsertLocationCodeBatch plain_engine 1 demo_rows demo_database)"

lemma demo_filled_ok: "schema_ok (d_tables demo_filled)" "has_tables (d_tables demo_filled)"
proof -
  show "schema_ok (d_tables demo_filled)"
    using InsertLocationCodeBatch_keeps demo_schema by (simp add: keeps_def demo_filled_def)
  have "room_for (length demo_rows + 0) (d_tables demo_database)" using demo_room(1) by simp
  with InsertLocationCodeBatch_proceeds [OF plain_engine_obliging, of demo_rows 0 1]
  obtain x db' where "InsertLocationCodeBatch plain_engine 1 demo_rows demo_database = (Inr x, db')" and "room_for 0 (d_tables db')"
    unfolding proceeds_def by blast
  then show "has_tables (d_tables demo_filled)" by (simp add: demo_filled_def room_for_def)
qed

lemma rebuilt_hierarchy_refines_codes_witness:
  "\<exists>db' h db''. RebuildLocationHierarchy plain_engine 1 demo_filled = (Inr (), db')
     \<and> repo_LoadFullHierarchy plain_engine 1 db' = (Inr h, db'') \<and> hierarchy_reads (d_tables demo_filled) 1 h"
proof -
  obtain db' where run: "RebuildLocationHierarchy plain_engine 1 demo_filled = (Inr (), db')" and "has_tables (d_tables db')"
    using RebuildLocationHierarchy_proceeds [OF plain_engine_obliging, of 1] demo_filled_ok(2)
    unfolding proceeds_def by (metis (full_types) old.unit.exhaust)
  moreover obtain h db'' where "repo_LoadFullHierarchy plain_engine 1 db' = (Inr h, db'')"
    using LoadFullHierarchy_proceeds [OF plain_engine_obliging, of 1] \<open>has_tables (d_tables db')\<close>
    unfolding proceeds_def by blast
  ultimately show ?thesis
    using rebuilt_hierarchy_refines_codes [OF plain_engine_ok demo_filled_ok(1) run plain_engine_ok] by blast
qed

text \<open>
  C13. Whatever has been done to the tables, a hierarchy that can be loaded is consistent: the
  district of a sub-district has a city, the city a province, and the four are a sub-district
  of the source and the places whose codes are its prefixes. Ambiguous parents do not occur,
  for every order of the rows.
\<close>

theorem loaded_hierarchy_follows_codes:
  assumes "stored db" and "is_engine eng" and "repo_LoadFullHierarchy eng sid db = (Inr h, db')"
  shows "follows_codes (d_tables db) sid h"
  using assms(2) stored_schema [OF assms(1)] assms(3) by (rule loaded_follows)

lemma loaded_hierarchy_follows_codes_witness:
  "\<exists>h db'. repo_LoadFullHierarchy plain_engine 1 demo_filled = (Inr h, db') \<and> follows_codes (d_tables demo_filled) 1 h"
proof -
  have "stored demo_filled" by (simp add: demo_filled_def demo_database_def stored.intros)
  moreover obtain h db' where "repo_LoadFullHierarchy plain_engine 1 demo_filled = (Inr h, db')"
    using LoadFullHierarchy_proceeds [OF plain_engine_obliging, of 1] demo_filled_ok(2) unfolding proceeds_def by blast
  ultimately show ?thesis using loaded_hierarchy_follows_codes [OF _ plain_engine_ok] by blast
qed

text \<open>
  C12. A seed that ends well has filled in the source, added exactly the missing codes without
  touching one that was there, made the hierarchy of the source exactly the chains of its codes
  and its priorities exactly those of the city names that lower levels share, KOTA where a city
  of the name is a "Kota ...".
\<close>

theorem seed_effect:
  assumes "is_engine eng" and "schema_ok (d_tables db)" and "seed_rows eng src rows db = (Inr (), db')"
  shows "\<exists>sid. source_row src sid (d_tables db')
    \<and> codes_added sid rows (d_tables db) ((d_tables db)\<lparr>t_codes := t_codes (d_tables db')\<rparr>)
    \<and> {h \<in> set (t_hierarchy (d_tables db')). hi_SourceID h = sid} = Collect (chain_row (d_tables db') sid)
    \<and> priorities_hold sid (d_tables db')"
  by (rule seed_rows_effect [OF assms]) blast

lemma seed_effect_witness:
  "\<exists>db' sid. seed_rows plain_engine demo_source demo_rows demo_database = (Inr (), db')
     \<and> source_row demo_source sid (d_tables db') \<and> priorities_hold sid (d_tables db')"
  using demo_seeded seed_effect [OF plain_engine_ok demo_schema] by blast




text \<open>
  C17. A line of a dump is read as it was written: for any two strings, quotes included, and
  any text around the tuple without another opening parenthesis before it, the row has the
  strings and the level of its dots.
\<close>

theorem dump_roundtrip:
  assumes "CHR ''('' \<notin> set pre" and "list_all re_space spaces"
  shows "wilayah_row (pre @ dump_tuple spaces kode nm @ post)
    = Some \<lparr>lr_Kode = kode, lr_Name = nm, lr_LevelID = int (length (split_on dot kode)) + 1, lr_PostalCode = []\<rparr>"
  by (simp add: wilayah_row_def dump_line [OF assms] unescape_escape length_split_on)

lemma dump_roundtrip_witness:
  "wilayah_row (''VALUES '' @ dump_tuple '' '' ''32.73'' (''Ma'' @ [quote] @ ''rang'') @ '','')
    = Some \<lparr>lr_Kode = ''32.73'', lr_Name = ''Ma'' @ [quote] @ ''rang'', lr_LevelID = 3, lr_PostalCode = []\<rparr>"
  by (subst dump_roundtrip) (simp_all add: re_space_def)

end
