(* ===== verification/Seeded_Tables.thy ===== *)
theory Seeded_Tables
  imports Seeder_Laws
begin

text \<open>
  The databases that runs of the seeder lead to: besides the schema, every code has the level
  of its parts.
\<close>

section \<open>Levels\<close>

text \<open>The seeder gives a code one level per part; \<open>location_levels\<close> begins with the country.\<close>

definition leveled :: "tables \<Rightarrow> bool" where
  "leveled t \<longleftrightarrow> list_all (\<lambda>r. lc_LevelID r = int (length (split_on dot (lc_Kode r))) + 1) (t_codes t)"

definition seedable :: "tables \<Rightarrow> bool" where
  "seedable t \<longleftrightarrow> schema_ok t \<and> leveled t"

definition leveled_rows :: "location_code_row list \<Rightarrow> bool" where
  "leveled_rows rows \<longleftrightarrow> list_all (\<lambda>r. lr_LevelID r = int (length (split_on dot (lr_Kode r))) + 1) rows"

lemma parse_leveled: "parseWilayah content = Inr rows \<Longrightarrow> leveled_rows (join_postal m rows)"
proof -
  have "lr_LevelID r = int (length (split_on dot (lr_Kode r))) + 1" if "wilayah_row line = Some r" for line r
    using that by (auto simp: wilayah_row_def Let_def length_split_on)
  then show "parseWilayah content = Inr rows \<Longrightarrow> leveled_rows (join_postal m rows)"
    by (auto simp: parseWilayah_def leveled_rows_def list_all_iff join_postal_def set_map_filter split: sum.splits option.split)
qed

lemma seedable_same:
  assumes "t_codes t' = t_codes t" and "schema_ok t'" and "seedable t"
  shows "seedable t'"
  using assms by (simp add: seedable_def leveled_def)

lemma codes_added_seedable:
  assumes "seedable t" and "codes_added sid rows t t'" and "leveled_rows rows"
  shows "seedable t'"
proof -
  obtain ids where ids: "length ids = length (dedup_by lr_Kode (kodes_of sid t) rows)"
    and t': "t' = t\<lparr>t_codes := t_codes t @ map2 (\<lambda>i. new_code i sid) ids (dedup_by lr_Kode (kodes_of sid t) rows)\<rparr>"
    using assms(2) by (auto simp: codes_added_def Let_def)
  have "lc_LevelID r = int (length (split_on dot (lc_Kode r))) + 1"
    if new: "r \<in> set (map2 (\<lambda>i. new_code i sid) ids (dedup_by lr_Kode (kodes_of sid t) rows))" for r
  proof -
    from new obtain i row where "row \<in> set (dedup_by lr_Kode (kodes_of sid t) rows)" and "r = new_code i sid row"
      by (auto dest: set_zip_rightD)
    with assms(3) dedup_by_subset [of lr_Kode "kodes_of sid t" rows] show ?thesis
      by (auto simp: leveled_rows_def list_all_iff)
  qed
  moreover have "schema_ok t'" using codes_added_schema [OF _ assms(2)] assms(1) by (simp add: seedable_def)
  ultimately show ?thesis
    using assms(1) unfolding seedable_def leveled_def t' by (simp add: list_all_iff del: set_map) blast
qed

lemma InsertLocationSource_seedable: "keeps seedable (InsertLocationSource eng code version nm codeDate descr)"
  unfolding InsertLocationSource_def
proof (intro keeps_and_do keeps_wrapped keeps_statement reads_keeps reads_query_row)
  fix n t t' x assume ins: "insert_source eng code version nm codeDate descr n t = (Inr x, t')" and ok: "seedable t"
  have "schema_ok t'" using insert_source_ok [OF ins] ok by (simp add: seedable_def)
  moreover have "t_codes t' = t_codes t" using ins by (auto simp: insert_source_def Let_def split: if_splits)
  ultimately show "seedable t'" using ok by (intro seedable_same [of t' t])
qed

lemma InsertLocationCodeBatch_seedable:
  assumes "leveled_rows rows"
  shows "keeps seedable (InsertLocationCodeBatch eng sid rows)"
  using InsertLocationCodeBatch_atomic
proof (rule keeps_atomic)
  fix db x db' assume "InsertLocationCodeBatch eng sid rows db = (Inr x, db')" and ok: "seedable (d_tables db)"
  then have "codes_added sid rows (d_tables db) (d_tables db')" by (intro InsertLocationCodeBatch_success) simp
  with ok assms show "seedable (d_tables db')" by (blast intro: codes_added_seedable)
qed

lemma RebuildLocationHierarchy_seedable:
  assumes "is_engine eng"
  shows "keeps seedable (RebuildLocationHierarchy eng sid)"
  using RebuildLocationHierarchy_atomic
proof (rule keeps_atomic)
  fix db x db' assume "RebuildLocationHierarchy eng sid db = (Inr x, db')" and ok: "seedable (d_tables db)"
  then have run: "RebuildLocationHierarchy eng sid db = (Inr (), db')" and ok1: "schema_ok (d_tables db)"
    by (simp_all add: seedable_def)
  have "schema_ok (d_tables db')" using RebuildLocationHierarchy_keeps [OF assms, of sid] run ok1 by (metis keeps_def snd_conv)
  moreover have "t_codes (d_tables db') = t_codes (d_tables db)"
    by (subst rebuilt_complete(2) [OF assms ok1 run]) simp
  ultimately show "seedable (d_tables db')" using ok by (intro seedable_same [of "d_tables db'" "d_tables db"])
qed

lemma RebuildCityPriority_seedable:
  assumes "is_engine eng"
  shows "keeps seedable (RebuildCityPriority eng sid)"
  using RebuildCityPriority_atomic
proof (rule keeps_atomic)
  fix db x db' assume "RebuildCityPriority eng sid db = (Inr x, db')" and ok: "seedable (d_tables db)"
  then have run: "RebuildCityPriority eng sid db = (Inr (), db')" and ok1: "schema_ok (d_tables db)"
    by (simp_all add: seedable_def)
  have "schema_ok (d_tables db')" using RebuildCityPriority_keeps [OF assms, of sid] run ok1 by (metis keeps_def snd_conv)
  moreover have "t_codes (d_tables db') = t_codes (d_tables db)"
    by (rule RebuildCityPriority_success [OF assms run]) simp
  ultimately show "seedable (d_tables db')" using ok by (intro seedable_same [of "d_tables db'" "d_tables db"])
qed

lemma RebuildNormalized_seedable:
  assumes "is_engine eng"
  shows "keeps seedable (RebuildNormalized eng)"
  using RebuildNormalized_atomic
proof (rule keeps_atomic)
  fix db x db' assume "RebuildNormalized eng db = (Inr x, db')" and ok: "seedable (d_tables db)"
  then have run: "RebuildNormalized eng db = (Inr (), db')" and ok1: "schema_ok (d_tables db)" and ok2: "tables_ok (d_tables db)"
    by (simp_all add: seedable_def schema_ok_def)
  have "schema_ok (d_tables db')" using RebuildNormalized_keeps [OF assms] run ok1 by (metis keeps_def snd_conv)
  moreover have "leveled (d_tables db')"
    by (rule RebuildNormalized_success [OF assms ok2 run])
      (use ok in \<open>auto simp: seedable_def leveled_def list_all_iff renormalized_def\<close>)
  ultimately show "seedable (d_tables db')" by (simp add: seedable_def)
qed

lemma seed_rows_seedable:
  assumes "is_engine eng" and "leveled_rows rows"
  shows "keeps seedable (seed_rows eng src rows)"
proof -
  have "leveled_rows b" if "b \<in> set (batches 500 rows)" for b
  proof -
    have "set b \<subseteq> set (concat (batches 500 rows))" using that by (simp only: set_concat) blast
    then have "set b \<subseteq> set rows" by simp
    with assms(2) show ?thesis by (auto simp: leveled_rows_def list_all_iff)
  qed
  then show ?thesis
    unfolding seed_rows_def
    by (intro keeps_and_do keeps_for_each InsertLocationSource_seedable InsertLocationCodeBatch_seedable
      RebuildLocationHierarchy_seedable RebuildCityPriority_seedable assms(1))
qed

lemma seed_seedable:
  assumes "is_engine eng"
  shows "keeps seedable (seed eng src wilayah kodepos)"
  using seed_rows_seedable [OF assms parse_leveled]
  by (auto simp: keeps_def seed_def split: sum.split)

text \<open>Truncating and dropping keep the codes or remove them all.\<close>

lemma truncations_codes: "t_codes (fold snd (take k (truncations pg)) t) \<in> {t_codes t, []}"
proof (cases pg)
  case True
  then show ?thesis by (cases k) (simp_all add: truncations_def)
next
  case False
  then have "k = 0 \<or> k = 1 \<or> k = 2 \<or> k = 3 \<or> k = 4 \<or> 5 \<le> k \<and> take k (truncations pg) = truncations pg"
    by (simp add: truncations_def) presburger
  with False show ?thesis by (elim disjE) (simp_all add: truncations_def numeral_eq_Suc)
qed

lemma drops_codes: "t_codes (fold drop_table names t) \<in> {t_codes t, []}"
proof (induction names arbitrary: t)
  case (Cons nm names)
  have "t_codes (drop_table nm t) \<in> {t_codes t, []}" by (simp add: drop_table_def Let_def)
  with Cons.IH [of "drop_table nm t"] show ?case by auto
qed simp

lemma seedable_codes: "schema_ok t' \<Longrightarrow> seedable t \<Longrightarrow> t_codes t' \<in> {t_codes t, []} \<Longrightarrow> seedable t'"
  by (auto simp: seedable_def leveled_def)

lemma TruncateAll_seedable: "keeps seedable (TruncateAll pg eng)"
  unfolding keeps_def
proof (intro allI impI)
  fix db :: database assume ok: "seedable (d_tables db)"
  then have "schema_ok (d_tables (snd (TruncateAll pg eng db)))"
    using TruncateAll_keeps [of pg eng] by (simp add: keeps_def seedable_def)
  moreover have "t_codes (d_tables (snd (TruncateAll pg eng db))) \<in> {t_codes (d_tables db), []}"
    using TruncateAll_prefix [of pg eng db] truncations_codes by metis
  ultimately show "seedable (d_tables (snd (TruncateAll pg eng db)))" using ok by (blast intro: seedable_codes)
qed

lemma DropAll_seedable: "keeps seedable (DropAll pg eng)"
  unfolding keeps_def
proof (intro allI impI)
  fix db :: database assume ok: "seedable (d_tables db)"
  then have "schema_ok (d_tables (snd (DropAll pg eng db)))"
    using DropAll_keeps [of pg eng] by (simp add: keeps_def seedable_def)
  moreover have "t_codes (d_tables (snd (DropAll pg eng db))) \<in> {t_codes (d_tables db), []}"
    using DropAll_prefix [of pg eng db] drops_codes by metis
  ultimately show "seedable (d_tables (snd (DropAll pg eng db)))" using ok by (blast intro: seedable_codes)
qed

section \<open>Runs of the seeder\<close>

text \<open>
  The statements of the schema script create tables and leave the rows alone.
\<close>

definition creates_tables :: "(database \<Rightarrow> unit outcome) \<Rightarrow> bool" where
  "creates_tables run_schema \<longleftrightarrow>
     (\<forall>db. \<exists>names. d_tables (snd (run_schema db)) = (d_tables db)\<lparr>t_names := names\<rparr>)"

lemma execLocationSchema_creates:
  assumes "\<And>stmt db. \<exists>names. d_tables (snd (exec stmt db)) = (d_tables db)\<lparr>t_names := names\<rparr>"
  shows "creates_tables (execLocationSchema ReadFile exec)"
proof -
  have each: "\<exists>names. d_tables (snd (exec_each wrap exec stmts db)) = (d_tables db)\<lparr>t_names := names\<rparr>"
    for wrap stmts and db :: database
  proof (induction stmts arbitrary: db)
    case Nil
    show ?case by (rule exI [of _ "t_names (d_tables db)"]) simp
  next
    case (Cons stmt stmts)
    obtain err db1 where run: "exec stmt db = (err, db1)" by (cases "exec stmt db")
    then obtain names where "d_tables db1 = (d_tables db)\<lparr>t_names := names\<rparr>" using assms [of stmt db] by auto
    with Cons.IH [of db1] run show ?case by (cases err) auto
  qed
  show ?thesis
    unfolding creates_tables_def
  proof
    fix db :: database
    show "\<exists>names. d_tables (snd (execLocationSchema ReadFile exec db)) = (d_tables db)\<lparr>t_names := names\<rparr>"
    proof (cases "ReadFile ''db/location.sql''")
      case (Inl err)
      then show ?thesis by (intro exI [of _ "t_names (d_tables db)"]) (simp add: execLocationSchema_def)
    next
      case (Inr schema)
      with each [of "\<lambda>_ err. ''exec schema: '' @ err" "schema_statements schema" db] show ?thesis
        by (auto simp: execLocationSchema_def ExecSchema_def split: prod.split option.split)
    qed
  qed
qed

inductive seeded :: "database \<Rightarrow> bool" where
  empty: "seeded \<lparr>d_tables = empty_tables\<lparr>t_names := names\<rparr>, d_clock = n\<rparr>"
| run: "seeded db \<Longrightarrow> is_engine eng \<Longrightarrow> creates_tables (so_schema calls) \<Longrightarrow>
     seeded (snd (run_seeder eng calls mode confirmed src wilayah kodepos db))"

lemma creates_seedable: "creates_tables f \<Longrightarrow> keeps seedable f"
  unfolding keeps_def creates_tables_def
proof (intro allI impI)
  fix db :: database assume "\<forall>db. \<exists>names. d_tables (snd (f db)) = (d_tables db)\<lparr>t_names := names\<rparr>" and ok: "seedable (d_tables db)"
  then obtain names where t: "d_tables (snd (f db)) = (d_tables db)\<lparr>t_names := names\<rparr>" by blast
  show "seedable (d_tables (snd (f db)))"
    by (rule seedable_codes [OF _ ok]) (use ok in \<open>simp_all add: t seedable_def schema_ok_parts(5)\<close>)
qed

lemma run_seeder_seedable:
  assumes "is_engine eng" and "creates_tables (so_schema calls)"
  shows "keeps seedable (run_seeder eng calls mode confirmed src wilayah kodepos)"
proof -
  have fail: "keeps seedable (\<lambda>db. (Inl err, db))" for err by (simp add: keeps_def)
  have other: "keeps seedable (elsewhere f)" for f by (simp add: keeps_def elsewhere_def split: option.split)
  have has: "keeps seedable (HasLocationTables eng)"
    unfolding HasLocationTables_def by (intro keeps_statement) simp
  show ?thesis
    unfolding run_seeder_def Let_def
    by (intro keeps_and_do has)
      (cases mode; simp add: fail other DropAll_seedable RebuildNormalized_seedable seed_seedable keeps_and_do
        TruncateAll_seedable creates_seedable assms)
qed

lemma seeded_seedable: "seeded db \<Longrightarrow> seedable (d_tables db)"
proof (induction rule: seeded.induct)
  case (empty names n)
  then show ?case by (simp add: seedable_def leveled_def schema_ok_def tables_ok_def empty_tables_def)
next
  case (run db eng calls mode confirmed src wilayah kodepos)
  then show ?case using run_seeder_seedable by (simp add: keeps_def)
qed

end
