(* ===== verification/Store_Service.thy ===== *)
theory Store_Service
  imports Seeded_Tables Candidates
begin

text \<open>
  The service on a seeded database: what the caches hold after they were loaded from the
  tables, and what candidates become with them.
\<close>

section \<open>The caches\<close>

lemma caches_of_new_service:
  assumes "sourceAndCaches repo code (new_service maxLen dflt store) = (Inr (sid, version), svc)"
  obtains provs cities dists subs h where
    "FindAllProvinces repo = Inr provs" and "provinceByID svc = foldl (\<lambda>m r. m(cr_ID r \<mapsto> province_of r)) Map.empty provs"
    and "FindAllCities repo = Inr cities" and "cityByID svc = foldl (\<lambda>m r. AList.update (cr_ID r) (city_of r) m) [] cities"
    and "FindAllDistricts repo sid = Inr dists"
    and "districtByID svc = foldl (\<lambda>m r. AList.update (cr_ID r) (district_of r) m) [] dists"
    and "LoadFullHierarchy repo sid = Inr h" and "hierarchyCache svc = Some h"
  using assms
  by (auto simp: sourceAndCaches_def ensureEntitiesCachesLoaded_def and_then_def new_service_def Let_def
      ensureProvincesLoaded_def ensureCitiesLoaded_def ensureDistrictsLoaded_def ensureSubDistrictsLoaded_def
      ensureHierarchyLoaded_def ensureCityPriorityLoaded_def loadProvinces_def loadCities_def loadDistricts_def
      loadSubDistricts_def loadHierarchy_def loadCityPriority_def
      split: sum.splits option.splits prod.splits)

lemma map_of_foldl_update:
  "map_of (foldl (\<lambda>m r. AList.update (f r) (g r) m) al rows) = foldl (\<lambda>m r. m(f r \<mapsto> g r)) (map_of al) rows"
  by (induction rows arbitrary: al) simp_all

text \<open>An index by identifier that is filled from rows of the tables holds exactly these rows.\<close>

lemma index_of_rows:
  assumes "tables_ok t" and rows: "set rows = view ` {r \<in> set (t_codes t). P r}"
    and id: "\<And>r. cr_ID (view r) = lc_ID r"
  shows "foldl (\<lambda>m r. m(cr_ID r \<mapsto> g r)) Map.empty rows i = Some e
    \<longleftrightarrow> (\<exists>r\<in>set (t_codes t). P r \<and> lc_ID r = i \<and> g (view r) = e)"
proof -
  have "foldl (\<lambda>m r. m(cr_ID r \<mapsto> g r)) Map.empty rows i = Some e \<longleftrightarrow> (\<exists>x\<in>set rows. cr_ID x = i \<and> g x = e)"
  proof (rule foldl_upd_functional)
    fix x y assume "x \<in> set rows" and "y \<in> set rows" and same: "cr_ID x = cr_ID y"
    then obtain r r' where "x = view r" "y = view r'" "r \<in> set (t_codes t)" "r' \<in> set (t_codes t)"
      unfolding rows by blast
    with same same_row(1) [OF assms(1), of r r'] have "r = r'" by (simp add: id)
    then show "g x = g y" by (simp add: \<open>x = view r\<close> \<open>y = view r'\<close>)
  qed
  then show ?thesis unfolding rows by (auto simp: id)
qed

lemma view_ids [simp]: "cr_ID (named_row r) = lc_ID r" "cr_ID (postal_row r) = lc_ID r"
  by (simp_all add: named_row_def postal_row_def)

lemma queried_codes:
  assumes "is_engine eng" and "fst (wrapped w (query_codes eng k P f) db) = Inr xs"
  shows "set xs = f ` {r \<in> set (t_codes (d_tables db)). P r \<and> lc_live r}"
proof -
  obtain db' where "wrapped w (query_codes eng k P f) db = (Inr xs, db')"
    using assms(2) by (cases "wrapped w (query_codes eng k P f) db") simp
  then have "query_codes eng k P f db = (Inr xs, db')" by simp
  then show ?thesis by (auto simp: set_select_codes [OF assms(1)] elim!: query_codesE)
qed

lemma later_tables [simp]: "d_tables (later k db) = d_tables db"
  by (simp add: later_def)

section \<open>The chain of a candidate\<close>

text \<open>The row of a place, as the service names it.\<close>

definition place_row :: "tables \<Rightarrow> int64 \<Rightarrow> gostring \<Rightarrow> location_code \<Rightarrow> bool" where
  "place_row t sid kode r \<longleftrightarrow> r \<in> set (t_codes t) \<and> lc_SourceID r = sid \<and> lc_live r \<and> lc_Kode r = kode"

lemma split_parent_kode: "0 < k \<Longrightarrow> split_on dot (parent_kode k kode) = take k (split_on dot kode)"
  unfolding parent_kode_def by (intro split_on_join) (auto dest: in_set_takeD split_on_no_sep)

text \<open>In leveled tables the place with \<open>k\<close> parts is on level \<open>k + 1\<close>.\<close>

lemma place_leveled:
  assumes "seedable t" and "place t sid (parent_kode k kode) i" and "0 < k" and "k \<le> length (split_on dot kode)"
  obtains r where "place_row t sid (parent_kode k kode) r" and "lc_ID r = i" and "lc_LevelID r = int k + 1"
proof -
  obtain r where r: "place_row t sid (parent_kode k kode) r" and "lc_ID r = i"
    using assms(2) by (auto simp: place_def place_row_def)
  moreover have "lc_LevelID r = int k + 1"
    using assms r by (auto simp: seedable_def leveled_def list_all_iff place_row_def split_parent_kode)
  ultimately show ?thesis by (rule that)
qed

definition enriched_by :: "location_code \<Rightarrow> location_code \<Rightarrow> location_code \<Rightarrow> admin_location \<Rightarrow> bool" where
  "enriched_by p c d loc \<longleftrightarrow>
     Province loc = Some \<lparr>p_ID = lc_ID p, p_Name = lc_Name p, p_NormalizedName = Normalize (lc_Name p)\<rparr>
   \<and> City loc = Some \<lparr>ct_ID = lc_ID c, ct_Name = lc_Name c, ct_NormalizedName = Normalize (lc_Name c),
       ct_PostalCode = coalesce (lc_PostalCode c)\<rparr>
   \<and> District loc = Some \<lparr>d_ID = lc_ID d, d_Name = lc_Name d, d_NormalizedName = Normalize (lc_Name d)\<rparr>"


text \<open>A sub-district whose row is in the hierarchy gets the three places above it, with the names of their rows.\<close>

lemma enriched_chain:
  assumes seeds: "seedable (d_tables db)" and eng: "is_engine eng"
    and load: "sourceAndCaches (repository_of eng db) code (new_service maxLen dflt store) = (Inr (sid, version), svc)"
    and row: "row \<in> set (t_hierarchy (d_tables db))" "hi_SourceID row = sid" "hi_SubDistrictID row = s_ID s"
    and cand: "SubDistrict (Location c) = Some s" "District (Location c) = None" "City (Location c) = None"
      "Province (Location c) = None"
  obtains sub p ct d c' where "EnrichCandidates svc [c] = [c']" and "enriched_by p ct d (Location c')"
    and "place_row (d_tables db) sid (lc_Kode sub) sub" and "lc_ID sub = s_ID s"
    and "place_row (d_tables db) sid (parent_kode 1 (lc_Kode sub)) p"
    and "place_row (d_tables db) sid (parent_kode 2 (lc_Kode sub)) ct"
    and "place_row (d_tables db) sid (parent_kode 3 (lc_Kode sub)) d"
proof -
  let ?t = "d_tables db"
  have schema: "schema_ok ?t" and ok: "tables_ok ?t" using seeds by (simp_all add: seedable_def schema_ok_def)
  obtain provs cities dists subs h where
    provs: "FindAllProvinces (repository_of eng db) = Inr provs"
      "provinceByID svc = foldl (\<lambda>m r. m(cr_ID r \<mapsto> province_of r)) Map.empty provs"
    and cities: "FindAllCities (repository_of eng db) = Inr cities"
      "cityByID svc = foldl (\<lambda>m r. AList.update (cr_ID r) (city_of r) m) [] cities"
    and dists: "FindAllDistricts (repository_of eng db) sid = Inr dists"
      "districtByID svc = foldl (\<lambda>m r. AList.update (cr_ID r) (district_of r) m) [] dists"
    and h: "LoadFullHierarchy (repository_of eng db) sid = Inr h" "hierarchyCache svc = Some h"
    using load by (rule caches_of_new_service)
  have set_provs: "set provs = named_row ` {r \<in> set (t_codes ?t). lc_LevelID r = 2 \<and> lc_live r}"
    using queried_codes [OF eng, of _ _ _ _ "later 1 db" provs] provs(1)
    by (simp add: repository_of_def repo_FindAllProvinces_def)
  have set_cities: "set cities = postal_row ` {r \<in> set (t_codes ?t). lc_LevelID r = 3 \<and> lc_live r}"
    using queried_codes [OF eng, of _ _ _ _ "later 2 db" cities] cities(1)
    by (simp add: repository_of_def repo_FindAllCities_def)
  have set_dists: "set dists = named_row ` {r \<in> set (t_codes ?t). (lc_LevelID r = 4 \<and> lc_SourceID r = sid) \<and> lc_live r}"
    using queried_codes [OF eng, of _ _ _ _ "later 3 db" dists] dists(1)
    by (simp add: repository_of_def repo_FindAllDistricts_def)
  obtain db' where loaded: "repo_LoadFullHierarchy eng sid (later 5 db) = (Inr h, db')"
    using h(1) by (cases "repo_LoadFullHierarchy eng sid (later 5 db)") (simp add: repository_of_def)
  have chain: "chain_row ?t sid row" using schema row(1,2) by (auto simp: schema_ok_def list_all_iff)
  obtain sub where sub: "place_row ?t sid (lc_Kode sub) sub" "lc_ID sub = s_ID s" "length (split_on dot (lc_Kode sub)) = 4"
    and places: "place ?t sid (parent_kode 1 (lc_Kode sub)) (hi_ProvinceID row)"
      "place ?t sid (parent_kode 2 (lc_Kode sub)) (hi_CityID row)" "place ?t sid (parent_kode 3 (lc_Kode sub)) (hi_DistrictID row)"
    using chain row(3) by (auto simp: chain_row_def place_row_def)
  obtain p where p: "place_row ?t sid (parent_kode 1 (lc_Kode sub)) p" "lc_ID p = hi_ProvinceID row" "lc_LevelID p = 2"
    using place_leveled [OF seeds places(1)] sub(3) by auto
  obtain ct where ct: "place_row ?t sid (parent_kode 2 (lc_Kode sub)) ct" "lc_ID ct = hi_CityID row" "lc_LevelID ct = 3"
    using place_leveled [OF seeds places(2)] sub(3) by auto
  obtain d where d: "place_row ?t sid (parent_kode 3 (lc_Kode sub)) d" "lc_ID d = hi_DistrictID row" "lc_LevelID d = 4"
    using place_leveled [OF seeds places(3)] sub(3) by auto
  have by_id: "provinceByID svc (hi_ProvinceID row) = Some (province_of (named_row p))"
      "map_of (cityByID svc) (hi_CityID row) = Some (city_of (postal_row ct))"
      "map_of (districtByID svc) (hi_DistrictID row) = Some (district_of (named_row d))"
    using p ct d
    by (auto simp: provs(2) cities(2) dists(2) map_of_foldl_update index_of_rows [OF ok set_provs]
        index_of_rows [OF ok set_cities] index_of_rows [OF ok set_dists] place_row_def)
  have links: "SubDistrictToDist h (s_ID s) = Some (hi_DistrictID row)" "DistrictToCity h (hi_DistrictID row) = Some (hi_CityID row)"
      "CityToProvince h (hi_CityID row) = Some (hi_ProvinceID row)"
    using loaded_row [OF eng _ loaded, of row] schema row by simp_all
  let ?loc = "Location c"
  let ?loc1 = "?loc\<lparr>District := Some \<lparr>d_ID = lc_ID d, d_Name = lc_Name d, d_NormalizedName = Normalize (lc_Name d)\<rparr>\<rparr>"
  let ?loc2 = "?loc1\<lparr>City := Some \<lparr>ct_ID = lc_ID ct, ct_Name = lc_Name ct, ct_NormalizedName = Normalize (lc_Name ct),
       ct_PostalCode = coalesce (lc_PostalCode ct)\<rparr>\<rparr>"
  let ?loc3 = "?loc2\<lparr>Province := Some \<lparr>p_ID = lc_ID p, p_Name = lc_Name p, p_NormalizedName = Normalize (lc_Name p)\<rparr>\<rparr>"
  have 1: "enrich_district svc h ?loc = ?loc1"
    by (simp add: enrich_district_def cand links by_id district_of_def named_row_def)
  have 2: "enrich_city svc h ?loc1 = ?loc2"
    by (simp add: enrich_city_def cand links by_id d(2) city_of_def postal_row_def named_row_def)
  have 3: "enrich_province svc h ?loc2 = ?loc3"
    by (simp add: enrich_province_def cand links by_id ct(2) province_of_def named_row_def)
  have "enriched_by p ct d (enrich_postal ?loc3)"
    by (simp add: enriched_by_def enrich_postal_def split: option.split)
  then have "\<exists>c'. EnrichCandidates svc [c] = [c'] \<and> enriched_by p ct d (Location c')"
    by (simp add: EnrichCandidates_def h(2) 1 2 3)
  with sub p ct d show ?thesis by (blast intro: that)
qed


section \<open>Properties\<close>


definition demo_calls :: seeder_calls where
  "demo_calls = \<lparr>so_schema = (\<lambda>db. (Inr (), db)), so_address = None, so_drop_postgres = None,
     so_sync = (\<lambda>_. Some ''postgres unreachable'')\<rparr>"


text \<open>
  C9. On a service that has loaded its caches from such tables, a candidate for a sub-district
  of the hierarchy is completed with the district, the city and the province whose codes are
  the first three, two and one parts of its own, under the names of their rows, for every order
  in which the engine answers.
\<close>

theorem EnrichCandidates_follows_codes:
  assumes "seedable (d_tables db)" and "is_engine eng"
    and "sourceAndCaches (repository_of eng db) code (new_service maxLen dflt store) = (Inr (sid, version), svc)"
    and "row \<in> set (t_hierarchy (d_tables db))" and "hi_SourceID row = sid" and "hi_SubDistrictID row = s_ID s"
    and "Location c = empty_admin_location\<lparr>SubDistrict := Some s\<rparr>"
  shows "\<exists>sub p ct d c'. EnrichCandidates svc [c] = [c'] \<and> enriched_by p ct d (Location c')
    \<and> place_row (d_tables db) sid (lc_Kode sub) sub \<and> lc_ID sub = s_ID s
    \<and> place_row (d_tables db) sid (parent_kode 1 (lc_Kode sub)) p
    \<and> place_row (d_tables db) sid (parent_kode 2 (lc_Kode sub)) ct
    \<and> place_row (d_tables db) sid (parent_kode 3 (lc_Kode sub)) d"
  by (rule enriched_chain [OF assms(1-6), of c]) (use assms(7) in \<open>auto simp: empty_admin_location_def\<close>)

definition demo_code :: "int64 \<Rightarrow> gostring \<Rightarrow> gostring \<Rightarrow> int \<Rightarrow> location_code" where
  "demo_code i kode nm level = \<lparr>lc_ID = i, lc_SourceID = 1, lc_Kode = kode, lc_Name = nm,
     lc_LowercaseNormalized = to_lower nm, lc_LevelID = level, lc_PostalCode = None, lc_UpdatedAt = None, lc_DeletedAt = None\<rparr>"

definition demo_tables :: tables where
  "demo_tables = \<lparr>t_names = set location_tables,
     t_sources = [\<lparr>ls_ID = 1, ls_Code = ''kemendagri'', ls_Version = ''2025'', ls_Name = [], ls_CodeDate = [], ls_Desc = [],
        ls_DeletedAt = None\<rparr>],
     t_codes = [demo_code 1 ''32'' ''Jawa Barat'' 2, demo_code 2 ''32.73'' ''Kota Bandung'' 3,
        demo_code 3 ''32.73.01'' ''Sukasari'' 4, demo_code 4 ''32.73.01.1001'' ''Isola'' 5],
     t_aliases = [],
     t_hierarchy = [\<lparr>hi_SourceID = 1, hi_ProvinceID = 1, hi_CityID = 2, hi_DistrictID = 3, hi_SubDistrictID = 4,
        hi_DeletedAt = None\<rparr>],
     t_priority = []\<rparr>"

lemma demo_tables_seedable: "seedable demo_tables"
  by (simp add: seedable_def leveled_def schema_ok_def tables_ok_def demo_tables_def demo_code_def chain_row_def place_def
      parent_kode_def)

lemma caches_load:
  assumes "FindSourceByCode repo code = Inr (sid, version)"
    and "FindAllProvinces repo = Inr provs" and "FindAllCities repo = Inr cities" and "FindAllDistricts repo sid = Inr dists"
    and "FindAllSubDistricts repo sid = Inr subs" and "LoadFullHierarchy repo sid = Inr h" and "FindAllCityPriority repo sid = Inr prio"
  shows "\<exists>svc. sourceAndCaches repo code (new_service maxLen dflt store) = (Inr (sid, version), svc)"
  using assms
  by (simp add: sourceAndCaches_def ensureEntitiesCachesLoaded_def and_then_def new_service_def Let_def
      ensureProvincesLoaded_def ensureCitiesLoaded_def ensureDistrictsLoaded_def ensureSubDistrictsLoaded_def
      ensureHierarchyLoaded_def ensureCityPriorityLoaded_def loadProvinces_def loadCities_def loadDistricts_def
      loadSubDistricts_def loadHierarchy_def loadCityPriority_def)

lemma plain_query:
  assumes "set names \<subseteq> t_names (d_tables db)" and "k \<le> 10"
  shows "fst (wrapped w (query plain_engine names k f) db) = Inr (f (d_clock db) (d_tables db))"
  using assms by (simp add: wrapped_def query_def statement_def Let_def plain_engine_def sqlite_max_params_def)

lemma demo_tables_caches:
  "\<exists>svc. sourceAndCaches (repository_of plain_engine \<lparr>d_tables = demo_tables, d_clock = 0\<rparr>) ''kemendagri''
     (new_service 200 ''kemendagri'' True) = (Inr (1, ''2025''), svc)"
proof -
  let ?db = "\<lparr>d_tables = demo_tables, d_clock = 0\<rparr>"
  have names: "t_names demo_tables = set location_tables" by (simp add: demo_tables_def)
  have source: "FindSourceByCode (repository_of plain_engine ?db) ''kemendagri'' = Inr (1, ''2025'')"
    by (simp add: repository_of_def repo_FindSourceByCode_def wrapped_def query_row_def statement_def Let_def
        plain_engine_def sqlite_max_params_def demo_tables_def location_tables_def)
  show ?thesis
    by (rule caches_load [OF source])
      (simp only: repository_of_def location_repository.simps repo_FindAllProvinces_def repo_FindAllCities_def
        repo_FindAllDistricts_def repo_FindAllSubDistricts_def repo_LoadFullHierarchy_def repo_FindAllCityPriority_def
        query_codes_def, rule plain_query; simp add: names location_tables_def)+
qed

lemma EnrichCandidates_follows_codes_witness:
  "\<exists>svc sub p ct d c'. EnrichCandidates svc [new_candidate OriginSubDistrict (empty_admin_location\<lparr>SubDistrict :=
       Some \<lparr>s_ID = 4, s_Name = ''Isola'', s_NormalizedName = ''isola'', s_PostalCode = []\<rparr>\<rparr>)] = [c']
     \<and> enriched_by p ct d (Location c') \<and> place_row demo_tables 1 (lc_Kode sub) sub \<and> lc_ID sub = 4"
proof -
  obtain svc where "sourceAndCaches (repository_of plain_engine \<lparr>d_tables = demo_tables, d_clock = 0\<rparr>) ''kemendagri''
     (new_service 200 ''kemendagri'' True) = (Inr (1, ''2025''), svc)"
    using demo_tables_caches by blast
  note run = EnrichCandidates_follows_codes [OF _ plain_engine_ok this,
      of "\<lparr>hi_SourceID = 1, hi_ProvinceID = 1, hi_CityID = 2, hi_DistrictID = 3, hi_SubDistrictID = 4, hi_DeletedAt = None\<rparr>"
        "\<lparr>s_ID = 4, s_Name = ''Isola'', s_NormalizedName = ''isola'', s_PostalCode = []\<rparr>"
        "new_candidate OriginSubDistrict (empty_admin_location\<lparr>SubDistrict :=
       Some \<lparr>s_ID = 4, s_Name = ''Isola'', s_NormalizedName = ''isola'', s_PostalCode = []\<rparr>\<rparr>)"]
  have "seedable (d_tables \<lparr>d_tables = demo_tables, d_clock = 0\<rparr>)" by (simp add: demo_tables_seedable)
  from run [OF this] show ?thesis by (simp add: demo_tables_def new_candidate_def) blast
qed

end
