(* ===== verification/Address_Db.thy ===== *)
theory Address_Db
  imports Response_Model Sql_Text
begin

text \<open>
  The address database, \<open>internal/database/database.go\<close> and \<open>google_maps.go\<close> on the tables of
  \<open>db/address.sql\<close> and \<open>db/google_maps.sql\<close>: the stored requests, and the cache of geocoding
  answers under the hash of a request. A statement may fail: \<open>fault n\<close> is the engine's word
  on the \<open>n\<close>-th statement. A failed statement changes nothing.
\<close>

section \<open>Tables\<close>

record cache_row =
  gm_RequestHash :: gostring
  gm_Request :: gostring
  gm_Response :: gostring
  gm_CreatedAt :: gostring
  gm_UpdatedAt :: gostring
  gm_DeletedAt :: "gostring option"

text \<open>A row of \<open>address_requests\<close> is the record with its formatted time.\<close>

record address_tables =
  at_names :: "gostring set"
  at_requests :: "(address_record \<times> gostring) list"
  at_cache :: "cache_row list"

record address_database =
  ad_tables :: address_tables
  ad_clock :: nat

type_synonym fault = "nat \<Rightarrow> gostring option"
type_synonym 'a ad_outcome = "(gostring + 'a) \<times> address_database"

definition ad_statement ::
  "fault \<Rightarrow> gostring list \<Rightarrow> (address_tables \<Rightarrow> (gostring + 'a) \<times> address_tables) \<Rightarrow> address_database \<Rightarrow> 'a ad_outcome" where
  "ad_statement fault names f db =
     (let n = ad_clock db; late = db\<lparr>ad_clock := Suc n\<rparr>
      in case fault n of
           Some err \<Rightarrow> (Inl err, late)
         | None \<Rightarrow>
             if \<not> set names \<subseteq> at_names (ad_tables db) then (Inl ''no such table'', late)
             else (case f (ad_tables db) of
                     (Inl err, _) \<Rightarrow> (Inl err, late)
                   | (Inr x, t) \<Rightarrow> (Inr x, late\<lparr>ad_tables := t\<rparr>)))"

section \<open>The repository\<close>

definition InsertAddressRequest :: "fault \<Rightarrow> address_record \<Rightarrow> address_database \<Rightarrow> unit ad_outcome" where
  "InsertAddressRequest fault rec =
     ad_statement fault [''address_requests''] (\<lambda>t.
       if rec_ID rec \<in> rec_ID ` fst ` set (at_requests t)
       then (Inl ''UNIQUE constraint failed: address_requests.id'', t)
       else (Inr (), t\<lparr>at_requests := at_requests t @ [(rec, format_RFC3339 (rec_CreatedAt rec))]\<rparr>))"

definition repo_Ping :: "fault \<Rightarrow> address_database \<Rightarrow> unit ad_outcome" where
  "repo_Ping fault = ad_statement fault [] (\<lambda>t. (Inr (), t))"

definition HasAddressTables :: "fault \<Rightarrow> address_database \<Rightarrow> bool ad_outcome" where
  "HasAddressTables fault = ad_statement fault [] (\<lambda>t. (Inr (''address_requests'' \<in> at_names t), t))"

definition HasGoogleMapsTable :: "fault \<Rightarrow> address_database \<Rightarrow> bool ad_outcome" where
  "HasGoogleMapsTable fault = ad_statement fault [] (\<lambda>t. (Inr (''google_maps_cache'' \<in> at_names t), t))"

record google_maps_cache_record =
  gr_RequestHash :: gostring
  gr_Request :: gostring
  gr_Response :: gostring

text \<open>The active row of a hash; \<open>request_hash\<close> is the primary key.\<close>

definition active_row :: "gostring \<Rightarrow> address_tables \<Rightarrow> cache_row option" where
  "active_row h t = find (\<lambda>r. gm_RequestHash r = h \<and> gm_DeletedAt r = None) (at_cache t)"

definition GetGoogleMapsCache :: "fault \<Rightarrow> gostring \<Rightarrow> address_database \<Rightarrow> google_maps_cache_record option ad_outcome" where
  "GetGoogleMapsCache fault h =
     ad_statement fault [''google_maps_cache''] (\<lambda>t.
       (Inr (map_option (\<lambda>r. \<lparr>gr_RequestHash = gm_RequestHash r, gr_Request = gm_Request r, gr_Response = gm_Response r\<rparr>)
          (active_row h t)), t))"

definition upsert_row :: "gostring \<Rightarrow> gostring \<Rightarrow> gostring \<Rightarrow> gostring \<Rightarrow> address_tables \<Rightarrow> address_tables" where
  "upsert_row h request response ts t =
     (if h \<in> gm_RequestHash ` set (at_cache t)
      then t\<lparr>at_cache := map (\<lambda>r. if gm_RequestHash r = h
               then r\<lparr>gm_Request := request, gm_Response := response, gm_UpdatedAt := ts, gm_DeletedAt := None\<rparr>
               else r) (at_cache t)\<rparr>
      else t\<lparr>at_cache := at_cache t @ [\<lparr>gm_RequestHash = h, gm_Request = request, gm_Response = response,
               gm_CreatedAt = ts, gm_UpdatedAt = ts, gm_DeletedAt = None\<rparr>]\<rparr>)"

definition UpsertGoogleMapsCache ::
  "fault \<Rightarrow> gostring \<Rightarrow> gostring \<Rightarrow> gostring \<Rightarrow> utc_time \<Rightarrow> address_database \<Rightarrow> unit ad_outcome" where
  "UpsertGoogleMapsCache fault h request response now =
     ad_statement fault [''google_maps_cache'']
       (\<lambda>t. (Inr (), upsert_row h request response (format_RFC3339 now) t))"

section \<open>A store of answers\<close>

text \<open>
  What the geocoder relies on: an answer that was put is found, and disturbs no other. Then
  answers that are put only where there is none never change.
\<close>

locale answer_store =
  fixes find_answer :: "'k \<Rightarrow> 't \<Rightarrow> 'v option" and put_answer :: "'m \<Rightarrow> 'k \<Rightarrow> 'v \<Rightarrow> 't \<Rightarrow> 't"
  assumes found: "find_answer k (put_answer m k v t) = Some v"
    and undisturbed: "k' \<noteq> k \<Longrightarrow> find_answer k' (put_answer m k v t) = find_answer k' t"
begin

definition put_missing :: "'t \<Rightarrow> 't \<Rightarrow> bool" where
  "put_missing t t' \<longleftrightarrow> t' = t \<or> (\<exists>m k v. find_answer k t = None \<and> t' = put_answer m k v t)"

lemma put_missing_keeps: "put_missing t t' \<Longrightarrow> find_answer k t = Some v \<Longrightarrow> find_answer k t' = Some v"
  unfolding put_missing_def by (metis option.distinct(1) undisturbed)

lemma steps_keep: "put_missing\<^sup>*\<^sup>* t t' \<Longrightarrow> find_answer k t = Some v \<Longrightarrow> find_answer k t' = Some v"
  by (induction rule: rtranclp_induct) (simp_all add: put_missing_keeps)

end

definition answer :: "gostring \<Rightarrow> address_tables \<Rightarrow> gostring option" where
  "answer h t = map_option gm_Response (active_row h t)"

lemma find_map_key:
  "(\<And>r. key (g r) = key r) \<Longrightarrow> (\<And>r. key r = k \<Longrightarrow> P (g r)) \<Longrightarrow> k \<in> key ` set rs \<Longrightarrow>
     find (\<lambda>r. key r = k \<and> P r) (map g rs) = Some (g (the (find (\<lambda>r. key r = k) rs)))"
  by (induction rs) auto

lemma find_map_other:
  "(\<And>r. key r = k \<Longrightarrow> g r = r) \<Longrightarrow> (\<And>r. key (g r) = key r) \<Longrightarrow>
     find (\<lambda>r. key r = k \<and> P r) (map g rs) = find (\<lambda>r. key r = k \<and> P r) rs"
  by (induction rs) auto

lemma answer_upsert: "answer h (upsert_row h req resp ts t) = Some resp"
proof (cases "h \<in> gm_RequestHash ` set (at_cache t)")
  case True
  let ?g = "\<lambda>r. if gm_RequestHash r = h
      then r\<lparr>gm_Request := req, gm_Response := resp, gm_UpdatedAt := ts, gm_DeletedAt := None\<rparr> else r"
  obtain r where r: "find (\<lambda>r. gm_RequestHash r = h) (at_cache t) = Some r"
    using True by (cases "find (\<lambda>r. gm_RequestHash r = h) (at_cache t)") (auto simp: find_None_iff)
  then have "gm_RequestHash r = h" by (auto simp: find_Some_iff)
  moreover have "active_row h (upsert_row h req resp ts t) = Some (?g r)"
    using find_map_key [of gm_RequestHash ?g h "\<lambda>r. gm_DeletedAt r = None" "at_cache t"] True
    by (simp add: active_row_def upsert_row_def r)
  ultimately show ?thesis by (simp add: answer_def)
next
  case False
  then have "find (\<lambda>r. gm_RequestHash r = h \<and> gm_DeletedAt r = None) (at_cache t) = None"
    by (auto simp: find_None_iff)
  with False show ?thesis by (simp add: answer_def active_row_def upsert_row_def find_append)
qed

lemma answer_upsert_other:
  assumes "h' \<noteq> h"
  shows "answer h' (upsert_row h req resp ts t) = answer h' t"
proof (cases "h \<in> gm_RequestHash ` set (at_cache t)")
  case True
  then show ?thesis
    unfolding answer_def active_row_def upsert_row_def
    by (simp, subst find_map_other) (use assms in \<open>auto split: if_splits\<close>)
next
  case False
  with assms show ?thesis
    by (simp add: answer_def active_row_def upsert_row_def find_append split: option.splits)
qed

interpretation geocode_cache: answer_store answer "\<lambda>(req, ts) h resp. upsert_row h req resp ts"
  by unfold_locales (auto simp: answer_upsert answer_upsert_other)

section \<open>The schemas\<close>

text \<open>
  \<open>initAddressSchemas\<close> of \<open>cmd/seeder\<close>: each script is executed if its table does not exist;
  \<open>exec\<close> is the engine on a statement of a script. Every error ends the program.
\<close>

definition create_missing ::
  "(address_database \<Rightarrow> bool ad_outcome) \<Rightarrow> (gostring \<Rightarrow> address_database \<Rightarrow> gostring option \<times> address_database)
     \<Rightarrow> gostring \<Rightarrow> address_database \<Rightarrow> gostring option \<times> address_database" where
  "create_missing has exec script db =
     (case has db of
        (Inl err, db) \<Rightarrow> (Some err, db)
      | (Inr True, db) \<Rightarrow> (None, db)
      | (Inr False, db) \<Rightarrow> ExecSchema exec script db)"

definition initAddressSchemas ::
  "fault \<Rightarrow> (gostring \<Rightarrow> address_database \<Rightarrow> gostring option \<times> address_database) \<Rightarrow> gostring \<Rightarrow> gostring
     \<Rightarrow> address_database \<Rightarrow> gostring option \<times> address_database" where
  "initAddressSchemas fault exec address_sql google_maps_sql db =
     (case create_missing (HasAddressTables fault) exec address_sql db of
        (Some err, db) \<Rightarrow> (Some err, db)
      | (None, db) \<Rightarrow> create_missing (HasGoogleMapsTable fault) exec google_maps_sql db)"

end
