(* ===== verification/Request_Store.thy ===== *)
theory Request_Store
  imports Address_Db Store_Queue
begin

text \<open>
  The handler that \<open>New\<close> of \<open>internal/service/service.go\<close> gives to the store queue: insert the
  record, and only log an error. With it, what the queue handled is what the table
  \<open>address_requests\<close> holds.
\<close>

definition storeQueueSize :: int where "storeQueueSize = 1000"
definition storeQueueWorkers :: int where "storeQueueWorkers = 2"

definition store_handler :: "fault \<Rightarrow> address_record \<Rightarrow> address_database \<Rightarrow> address_database" where
  "store_handler fault rec db = snd (InsertAddressRequest fault rec db)"

definition stored_row :: "address_record \<Rightarrow> address_record \<times> gostring" where
  "stored_row rec = (rec, format_RFC3339 (rec_CreatedAt rec))"

definition fresh_ids :: "address_record list \<Rightarrow> address_tables \<Rightarrow> bool" where
  "fresh_ids recs t \<longleftrightarrow> distinct (map rec_ID recs) \<and> (\<forall>r\<in>set recs. rec_ID r \<notin> rec_ID ` fst ` set (at_requests t))"

definition accepting :: "fault \<Rightarrow> address_tables \<Rightarrow> bool" where
  "accepting fault t \<longleftrightarrow> (\<forall>n. fault n = None) \<and> ''address_requests'' \<in> at_names t"

lemma store_handler_row:
  assumes "accepting fault (ad_tables db)" and "rec_ID rec \<notin> rec_ID ` fst ` set (at_requests (ad_tables db))"
  shows "ad_tables (store_handler fault rec db)
    = (ad_tables db)\<lparr>at_requests := at_requests (ad_tables db) @ [stored_row rec]\<rparr>"
  using assms
  by (simp add: store_handler_def InsertAddressRequest_def ad_statement_def Let_def accepting_def stored_row_def)

lemma fold_store_handler:
  assumes "accepting fault (ad_tables db)" and "fresh_ids recs (ad_tables db)"
  shows "at_requests (ad_tables (fold (store_handler fault) recs db)) = at_requests (ad_tables db) @ map stored_row recs"
  using assms
proof (induction recs arbitrary: db)
  case (Cons rec recs)
  then have row: "ad_tables (store_handler fault rec db)
      = (ad_tables db)\<lparr>at_requests := at_requests (ad_tables db) @ [stored_row rec]\<rparr>"
    by (intro store_handler_row) (simp_all add: fresh_ids_def)
  have "accepting fault (ad_tables (store_handler fault rec db))"
    using Cons.prems(1) by (simp add: row accepting_def)
  moreover have "fresh_ids recs (ad_tables (store_handler fault rec db))"
    using Cons.prems(2) by (auto simp: row fresh_ids_def stored_row_def intro: rev_image_eqI)
  ultimately show ?case using Cons.IH by (simp add: row)
qed simp

text \<open>
  C23. When \<open>Shutdown\<close> of the service's queue has returned nil, every record that was ever
  accepted is a row of the table, once, with the rows of before; for every order in which the
  workers' insertions were executed, on a database that accepts them and if the identifiers of
  the requests are new.
\<close>

theorem records_written:
  assumes "reachable (new_queue storeQueueSize storeQueueWorkers) q" and "Shutdown_returns q ctx None"
    and "mset recs = mset (q_handled q)"
    and "accepting fault (ad_tables db)" and "fresh_ids recs (ad_tables db)"
  shows "mset (at_requests (ad_tables (fold (store_handler fault) recs db)))
    = mset (at_requests (ad_tables db)) + image_mset stored_row (mset (q_accepted q))"
proof -
  have "mset recs = mset (q_accepted q)" using drained_queue [OF assms(1,2)] assms(3) by simp
  then have "mset (map stored_row recs) = image_mset stored_row (mset (q_accepted q))" by simp
  then show ?thesis by (simp add: fold_store_handler [OF assms(4,5)])
qed

definition demo_record :: address_record where
  "demo_record = \<lparr>rec_ID = ''r1'', rec_AddressID = ''a'', rec_RawInput = ''Citarum'', rec_NormalizedAddr = [],
     rec_Confidence = 0, rec_PostalCode = [], rec_SubDistrict = [], rec_District = [], rec_City = [],
     rec_Province = [], rec_LocationVersion = [], rec_OutputJSON = ''{}'',
     rec_CreatedAt = \<lparr>t_year = 2026, t_month = 7, t_day = 29, t_hour = 5, t_minute = 8, t_second = 5, t_nanosecond = 0\<rparr>\<rparr>"

definition demo_queue :: "address_record worker list \<Rightarrow> address_record list \<Rightarrow> bool \<Rightarrow> address_record list \<Rightarrow> address_record queue" where
  "demo_queue ws jobs is_closed handled = \<lparr>q_jobs = jobs, q_size = 1000, q_workers = ws, q_closed = is_closed,
     q_accepted = [demo_record], q_handled = handled\<rparr>"

lemma demo_queue_drained:
  "reachable (new_queue storeQueueSize storeQueueWorkers) (demo_queue [Exited, Exited] [] True [demo_record])"
proof -
  let ?q0 = "new_queue storeQueueSize storeQueueWorkers :: address_record queue"
  have start: "snd (Submit demo_record ?q0) = demo_queue [Waiting, Waiting] [demo_record] False []"
    by (simp add: new_queue_def Submit_def demo_queue_def storeQueueSize_def storeQueueWorkers_def Let_def numeral_2_eq_2)
  have "reachable ?q0 (demo_queue [Waiting, Waiting] [demo_record] False [])"
    using reachable.step [OF reachable.start queue_step.submit, of ?q0 demo_record] by (simp only: start)
  moreover have "worker_step (demo_queue [Waiting, Waiting] [demo_record] False []) (demo_queue [Executing demo_record, Waiting] [] False [])"
    using worker_step.receive [of 0 "demo_queue [Waiting, Waiting] [demo_record] False []" demo_record "[]"]
    by (simp add: demo_queue_def)
  moreover have "worker_step (demo_queue [Executing demo_record, Waiting] [] False []) (demo_queue [Waiting, Waiting] [] False [demo_record])"
    using worker_step.execute [of 0 "demo_queue [Executing demo_record, Waiting] [] False []" demo_record]
    by (simp add: demo_queue_def)
  ultimately have "reachable ?q0 (demo_queue [Waiting, Waiting] [] False [demo_record])"
    by (blast intro: reachable.step queue_step.work)
  then have "reachable ?q0 (close_queue (demo_queue [Waiting, Waiting] [] False [demo_record]))"
    by (rule reachable.step) (rule queue_step.close)
  then have "reachable ?q0 (demo_queue [Waiting, Waiting] [] True [demo_record])"
    by (simp add: close_queue_def demo_queue_def)
  moreover have "worker_step (demo_queue [Waiting, Waiting] [] True [demo_record]) (demo_queue [Exited, Waiting] [] True [demo_record])"
    using worker_step.exit [of 0 "demo_queue [Waiting, Waiting] [] True [demo_record]"] by (simp add: demo_queue_def)
  moreover have "worker_step (demo_queue [Exited, Waiting] [] True [demo_record]) (demo_queue [Exited, Exited] [] True [demo_record])"
    using worker_step.exit [of 1 "demo_queue [Exited, Waiting] [] True [demo_record]"] by (simp add: demo_queue_def)
  ultimately show ?thesis by (blast intro: reachable.step queue_step.work)
qed

theorem records_written_witness:
  "at_requests (ad_tables (fold (store_handler (\<lambda>_. None)) [demo_record]
     \<lparr>ad_tables = \<lparr>at_names = {''address_requests''}, at_requests = [], at_cache = []\<rparr>, ad_clock = 0\<rparr>)) = [stored_row demo_record]"
proof -
  let ?db = "\<lparr>ad_tables = \<lparr>at_names = {''address_requests''}, at_requests = [], at_cache = []\<rparr>, ad_clock = 0\<rparr>"
  let ?q = "demo_queue [Exited, Exited] [] True [demo_record]"
  have "Shutdown_returns ?q (None :: unit option) None"
    by (simp add: Shutdown_returns_nil all_exited_def demo_queue_def)
  moreover have "accepting (\<lambda>_. None) (ad_tables ?db)" by (simp add: accepting_def)
  moreover have "fresh_ids [demo_record] (ad_tables ?db)" by (simp add: fresh_ids_def)
  moreover have "mset [demo_record] = mset (q_handled ?q)" by (simp add: demo_queue_def)
  ultimately show ?thesis
    using records_written [OF demo_queue_drained, of None "[demo_record]" "\<lambda>_. None" ?db] by (simp add: demo_queue_def)
qed

end
