(* ===== verification/Server_Config.thy ===== *)
theory Server_Config
  imports Service_State Sql_Text
begin

text \<open>
  \<open>internal/config/config.go\<close>, the opening of the databases at the start of \<open>cmd/server/main.go\<close>
  with \<open>New\<close>, \<open>NewLocationDB\<close> and \<open>NewPostgresDB\<close> of \<open>internal/database\<close>, and \<open>Ping\<close> of
  \<open>service.go\<close>, which reports on them. The library \<open>viper\<close> and the database drivers are arguments.
\<close>

section \<open>Configuration\<close>

record config =
  cf_Port :: int
  cf_APIKey :: gostring
  cf_RateLimit :: int
  cf_RateWindow :: int
  cf_ReadTimeout :: int
  cf_WriteTimeout :: int
  cf_MaxBodySize :: gostring
  cf_MaxAddressLength :: int
  cf_AddressDBPath :: gostring
  cf_LocationDBPath :: gostring
  cf_PostgresDSN :: gostring
  cf_DBMaxOpenConns :: int
  cf_LocationSourceCode :: gostring
  cf_LogLevel :: gostring
  cf_AllowedOrigins :: "gostring list"
  cf_EnableStoreRequest :: bool
  cf_EnableMetrics :: bool
  cf_GoogleMapsAPIMock :: bool
  cf_GoogleMapsAPIKey :: gostring
  cf_GoogleMapsBaseURL :: gostring

definition PostgresEnabled :: "config \<Rightarrow> bool" where
  "PostgresEnabled cfg \<longleftrightarrow> cf_PostgresDSN cfg \<noteq> []"

datatype setting = SInt int | SString gostring | SBool bool

definition config_defaults :: "(gostring \<times> setting) list" where
  "config_defaults =
     [(''PORT'', SInt 7300), (''API_KEY'', SString []), (''RATE_LIMIT'', SInt 100), (''RATE_WINDOW'', SInt 60),
      (''READ_TIMEOUT'', SInt 5), (''WRITE_TIMEOUT'', SInt 10), (''MAX_BODY_SIZE'', SString ''1M''),
      (''MAX_ADDRESS_LENGTH'', SInt 1000), (''ADDRESS_DB_PATH'', SString ''db/address.db''),
      (''LOCATION_DB_PATH'', SString ''db/location.db''), (''POSTGRES_DSN'', SString []),
      (''DB_MAX_OPEN_CONNS'', SInt 10), (''LOCATION_SOURCE_CODE'', SString ''kemendagri''),
      (''LOG_LEVEL'', SString ''info''), (''CORS_ALLOWED_ORIGINS'', SString ''https://samaita.com''),
      (''ENABLE_STORE_REQUEST'', SBool False), (''ENABLE_METRICS'', SBool False),
      (''GOOGLE_MAPS_API_MOCK'', SBool True), (''GOOGLE_MAPS_API_KEY'', SString []),
      (''GOOGLE_MAPS_BASE_URL'', SString ''https://geocode.googleapis.com/v4/geocode/address'')]"

text \<open>What \<open>viper\<close> answers for a key, given its default: the environment, the file or the default.\<close>

record viper =
  GetInt :: "setting option \<Rightarrow> gostring \<Rightarrow> int"
  GetString :: "setting option \<Rightarrow> gostring \<Rightarrow> gostring"
  GetBool :: "setting option \<Rightarrow> gostring \<Rightarrow> bool"

definition Load :: "viper \<Rightarrow> config" where
  "Load v =
     (let int_of = (\<lambda>k. GetInt v (map_of config_defaults k) k);
          string_of = (\<lambda>k. GetString v (map_of config_defaults k) k);
          bool_of = (\<lambda>k. GetBool v (map_of config_defaults k) k)
      in \<lparr>cf_Port = int_of ''PORT'', cf_APIKey = string_of ''API_KEY'', cf_RateLimit = int_of ''RATE_LIMIT'',
          cf_RateWindow = int_of ''RATE_WINDOW'', cf_ReadTimeout = int_of ''READ_TIMEOUT'',
          cf_WriteTimeout = int_of ''WRITE_TIMEOUT'', cf_MaxBodySize = string_of ''MAX_BODY_SIZE'',
          cf_MaxAddressLength = int_of ''MAX_ADDRESS_LENGTH'', cf_AddressDBPath = string_of ''ADDRESS_DB_PATH'',
          cf_LocationDBPath = string_of ''LOCATION_DB_PATH'', cf_PostgresDSN = string_of ''POSTGRES_DSN'',
          cf_DBMaxOpenConns = int_of ''DB_MAX_OPEN_CONNS'', cf_LocationSourceCode = string_of ''LOCATION_SOURCE_CODE'',
          cf_LogLevel = string_of ''LOG_LEVEL'',
          cf_AllowedOrigins = split_on (CHR '','') (string_of ''CORS_ALLOWED_ORIGINS''),
          cf_EnableStoreRequest = bool_of ''ENABLE_STORE_REQUEST'', cf_EnableMetrics = bool_of ''ENABLE_METRICS'',
          cf_GoogleMapsAPIMock = bool_of ''GOOGLE_MAPS_API_MOCK'', cf_GoogleMapsAPIKey = string_of ''GOOGLE_MAPS_API_KEY'',
          cf_GoogleMapsBaseURL = string_of ''GOOGLE_MAPS_BASE_URL''\<rparr>)"

section \<open>Opening the databases\<close>

text \<open>
  What a driver says to \<open>sql.Open\<close> and to the first ping. A repository is kept by its data
  source name.
\<close>

record driver =
  dr_Open :: "gostring \<Rightarrow> go_error option"
  dr_Ping :: "gostring \<Rightarrow> go_error option"

text \<open>\<open>New\<close> and \<open>NewLocationDB\<close> are the same code on two types.\<close>

definition open_sqlite :: "driver \<Rightarrow> gostring \<Rightarrow> go_error + gostring" where
  "open_sqlite d dbPath =
     (let dsn = sqliteDSN dbPath in
      case dr_Open d dsn of
        Some err \<Rightarrow> Inl err
      | None \<Rightarrow> (case dr_Ping d dsn of Some err \<Rightarrow> Inl err | None \<Rightarrow> Inr dsn))"

definition NewPostgresDB :: "driver \<Rightarrow> gostring \<Rightarrow> gostring option \<times> go_error option" where
  "NewPostgresDB d dsn =
     (if dsn = [] then (None, None)
      else (case dr_Open d dsn of
              Some err \<Rightarrow> (None, Some err)
            | None \<Rightarrow> (case dr_Ping d dsn of Some err \<Rightarrow> (Some dsn, Some err) | None \<Rightarrow> (Some dsn, None))))"

text \<open>\<open>LocationRepository.Ping\<close> on a pointer that may be nil.\<close>

definition location_Ping :: "driver \<Rightarrow> gostring option \<Rightarrow> go_error option" where
  "location_Ping d repo =
     (case repo of None \<Rightarrow> Some ''location repository not initialized'' | Some dsn \<Rightarrow> dr_Ping d dsn)"

text \<open>The three connections of the running service; only Postgres may be missing.\<close>

record connections =
  cn_repo :: gostring
  cn_location :: gostring
  cn_postgres :: "gostring option"

definition open_databases ::
  "driver \<Rightarrow> driver \<Rightarrow> config \<Rightarrow> go_error + connections" where
  "open_databases lite pg cfg =
     (case open_sqlite lite (cf_AddressDBPath cfg) of
        Inl err \<Rightarrow> Inl (''failed to initialize address database: '' @ err)
      | Inr repo \<Rightarrow>
          (case open_sqlite lite (cf_LocationDBPath cfg) of
             Inl err \<Rightarrow> Inl (''failed to initialize location database: '' @ err)
           | Inr location \<Rightarrow>
               Inr \<lparr>cn_repo = repo, cn_location = location, cn_postgres = fst (NewPostgresDB pg (cf_PostgresDSN cfg))\<rparr>))"

section \<open>Health\<close>

record db_status =
  st_Database :: gostring
  st_LocationDatabase :: gostring
  st_Postgres :: gostring

definition service_Ping :: "driver \<Rightarrow> driver \<Rightarrow> connections \<Rightarrow> db_status \<times> go_error option" where
  "service_Ping lite pg c =
     (let status = \<lparr>st_Database = ''ok'', st_LocationDatabase = ''ok'', st_Postgres = ''disabled''\<rparr>;
          (status, err) = (case dr_Ping lite (cn_repo c) of
             Some e \<Rightarrow> (status\<lparr>st_Database := ''error''\<rparr>, Some e) | None \<Rightarrow> (status, None));
          (status, err) = (case location_Ping lite (Some (cn_location c)) of
             Some e \<Rightarrow> (status\<lparr>st_LocationDatabase := ''error''\<rparr>, if err = None then Some e else err)
           | None \<Rightarrow> (status, err));
          status = (case cn_postgres c of
             None \<Rightarrow> status
           | Some p \<Rightarrow> (let status = status\<lparr>st_Postgres := ''ok''\<rparr>
                in if location_Ping pg (Some p) \<noteq> None then status\<lparr>st_Postgres := ''error''\<rparr> else status))
      in (status, err))"

lemma service_Ping_eq:
  "service_Ping lite pg c =
     (\<lparr>st_Database = (if dr_Ping lite (cn_repo c) = None then ''ok'' else ''error''),
       st_LocationDatabase = (if dr_Ping lite (cn_location c) = None then ''ok'' else ''error''),
       st_Postgres = (case cn_postgres c of None \<Rightarrow> ''disabled''
          | Some p \<Rightarrow> if dr_Ping pg p = None then ''ok'' else ''error'')\<rparr>,
      if dr_Ping lite (cn_repo c) = None then dr_Ping lite (cn_location c) else dr_Ping lite (cn_repo c))"
  by (simp add: service_Ping_def location_Ping_def Let_def split: option.splits)

end
