(* ===== verification/Postgres_Copy.thy ===== *)
theory Postgres_Copy
  imports Server_Config
begin

text \<open>
  \<open>internal/database/postgres_copy.go\<close>: replacing the Postgres tables by a snapshot of the SQLite
  ones. Arguments are the two engines: which statement fails, where reading a row fails, and
  what a statement of the schema scripts does. \<open>COPY\<close> appends the rows it is given and reports
  their number, or fails; a transaction that is not committed leaves nothing behind.
\<close>

section \<open>Tables\<close>

text \<open>A row is its identifier, the first column of every table, and its other columns as text.\<close>

type_synonym pg_row = "int \<times> gostring option list"

record postgres_copy_table =
  pc_name :: gostring
  pc_columns :: "gostring list"

definition postgresCopyTables :: "postgres_copy_table list" where
  "postgresCopyTables =
     [\<lparr>pc_name = ''location_levels'', pc_columns = [''id'', ''code'', ''name'']\<rparr>,
      \<lparr>pc_name = ''location_sources'', pc_columns = [''id'', ''code'', ''version'', ''name'', ''code_date'', ''desc'',
         ''created_at'', ''updated_at'', ''deleted_at'']\<rparr>,
      \<lparr>pc_name = ''location_codes'', pc_columns = [''id'', ''location_source_id'', ''kode'', ''name'',
         ''lowercase_normalized'', ''level_id'', ''postal_code'', ''created_at'', ''updated_at'', ''deleted_at'']\<rparr>,
      \<lparr>pc_name = ''location_alias'', pc_columns = [''id'', ''location_id'', ''alias'', ''created_at'', ''updated_at'',
         ''deleted_at'']\<rparr>,
      \<lparr>pc_name = ''location_hierarchy'', pc_columns = [''id'', ''location_source_id'', ''province_id'', ''city_id'',
         ''district_id'', ''subdistrict_id'', ''created_at'', ''updated_at'', ''deleted_at'']\<rparr>,
      \<lparr>pc_name = ''location_city_priority'', pc_columns = [''id'', ''location_source_id'', ''lowercase_normalized'',
         ''city_type'', ''created_at'', ''updated_at'', ''deleted_at'']\<rparr>]"

text \<open>The Postgres side: its tables, and the sequence of each: last value, and whether it was used.\<close>

record pg_state =
  pg_rows :: "gostring \<rightharpoonup> pg_row list"
  pg_seqs :: "gostring \<rightharpoonup> int \<times> bool"

record pg_database =
  pd_state :: pg_state
  pd_clock :: nat

type_synonym 'a pg_op = "pg_database \<Rightarrow> (gostring + 'a) \<times> pg_database"

text \<open>
  \<open>ce_select\<close> is a table of the SQLite snapshot, for the given columns, ordered by id; the query
  itself, advancing to the \<open>i\<close>-th row, scanning it and closing the cursor may fail.
\<close>

record copy_engines =
  ce_fault :: "nat \<Rightarrow> gostring option"
  ce_ddl :: "gostring \<Rightarrow> pg_state \<Rightarrow> gostring + pg_state"
  ce_begin :: "gostring option"
  ce_conn :: "gostring option"
  ce_is_stdlib :: bool
  ce_query :: "gostring \<Rightarrow> gostring option"
  ce_select :: "gostring \<Rightarrow> gostring list \<Rightarrow> pg_row list"
  ce_next :: "gostring \<Rightarrow> nat \<Rightarrow> gostring option"
  ce_scan :: "gostring \<Rightarrow> nat \<Rightarrow> gostring option"
  ce_close :: "gostring \<Rightarrow> gostring option"

definition pg_statement :: "copy_engines \<Rightarrow> (pg_state \<Rightarrow> gostring + 'a \<times> pg_state) \<Rightarrow> 'a pg_op" where
  "pg_statement eng f db =
     (let n = pd_clock db; late = db\<lparr>pd_clock := Suc n\<rparr>
      in case ce_fault eng n of
           Some err \<Rightarrow> (Inl err, late)
         | None \<Rightarrow> (case f (pd_state db) of
                      Inl err \<Rightarrow> (Inl err, late)
                    | Inr (x, s) \<Rightarrow> (Inr x, late\<lparr>pd_state := s\<rparr>)))"

definition pg_bind :: "'a pg_op \<Rightarrow> ('a \<Rightarrow> 'b pg_op) \<Rightarrow> 'b pg_op" where
  "pg_bind f g db = (case f db of (Inl err, db) \<Rightarrow> (Inl err, db) | (Inr x, db) \<Rightarrow> g x db)"

definition pg_wrap :: "gostring \<Rightarrow> 'a pg_op \<Rightarrow> 'a pg_op" where
  "pg_wrap c f db = (case f db of (Inl err, db) \<Rightarrow> (Inl (c @ '': '' @ err), db) | (Inr x, db) \<Rightarrow> (Inr x, db))"

definition pg_fail :: "gostring \<Rightarrow> 'a pg_op" where
  "pg_fail err db = (Inl err, db)"

fun pg_each :: "('b \<Rightarrow> unit pg_op) \<Rightarrow> 'b list \<Rightarrow> unit pg_op" where
  "pg_each f [] db = (Inr (), db)"
| "pg_each f (x # xs) db = pg_bind (f x) (\<lambda>_. pg_each f xs) db"

section \<open>The source of \<open>COPY\<close>\<close>

text \<open>
  \<open>sqlRowsCopySource\<close> drained by \<open>Next\<close> and \<open>Values\<close>: the rows up to the first failure of the
  cursor or of \<open>Scan\<close>, and what \<open>Err\<close> says afterwards.
\<close>

fun drain :: "(nat \<Rightarrow> gostring option) \<Rightarrow> (nat \<Rightarrow> gostring option) \<Rightarrow> nat \<Rightarrow> 'r list \<Rightarrow> 'r list \<times> gostring option" where
  "drain next_err scan_err i [] = ([], next_err i)"
| "drain next_err scan_err i (r # rs) =
     (case next_err i of
        Some err \<Rightarrow> ([], Some err)
      | None \<Rightarrow> (case scan_err i of
                   Some err \<Rightarrow> ([], Some err)
                 | None \<Rightarrow> (let (vs, err) = drain next_err scan_err (Suc i) rs in (r # vs, err))))"

section \<open>Statements\<close>

definition drop_location_tables :: "copy_engines \<Rightarrow> unit pg_op" where
  "drop_location_tables eng =
     pg_statement eng (\<lambda>s. let gone = pc_name ` set postgresCopyTables in
       Inr ((), s\<lparr>pg_rows := pg_rows s |` (- gone), pg_seqs := pg_seqs s |` (- gone)\<rparr>))"

definition run_pgx_schema :: "copy_engines \<Rightarrow> gostring \<Rightarrow> unit pg_op" where
  "run_pgx_schema eng script =
     pg_each (\<lambda>stmt. pg_wrap (''exec '' @ fmt_q stmt) (pg_statement eng (\<lambda>s. map_sum id (Pair ()) (ce_ddl eng stmt s))))
       (pgx_statements script)"

definition no_table :: gostring where "no_table = ''relation does not exist''"

definition CopyFrom :: "copy_engines \<Rightarrow> gostring \<Rightarrow> pg_row list \<Rightarrow> nat pg_op" where
  "CopyFrom eng name rows =
     pg_statement eng (\<lambda>s. case pg_rows s name of
        None \<Rightarrow> Inl no_table
      | Some old \<Rightarrow> Inr (length rows, s\<lparr>pg_rows := (pg_rows s)(name \<mapsto> old @ rows)\<rparr>))"

definition count_rows :: "copy_engines \<Rightarrow> gostring \<Rightarrow> nat pg_op" where
  "count_rows eng name =
     pg_statement eng (\<lambda>s. case pg_rows s name of None \<Rightarrow> Inl no_table | Some rows \<Rightarrow> Inr (length rows, s))"

text \<open>What is checked after the copy: the cursor closes, the source met no error, and the counts agree.\<close>

definition check_copied :: "copy_engines \<Rightarrow> gostring \<Rightarrow> gostring option \<Rightarrow> nat \<Rightarrow> unit pg_op" where
  "check_copied eng name src_err copied =
     (case ce_close eng name of
        Some err \<Rightarrow> pg_fail (''close sqlite rows for '' @ name @ '': '' @ err)
      | None \<Rightarrow>
          (case src_err of
             Some err \<Rightarrow> pg_fail (''read sqlite rows for '' @ name @ '': '' @ err)
           | None \<Rightarrow>
               pg_bind (pg_wrap (''count copied table '' @ name) (count_rows eng name)) (\<lambda>stored.
                 if copied \<noteq> stored
                 then pg_fail (''validate copied table '' @ name @ '': COPY reported '' @ nat_digits copied
                   @ '' rows but postgres contains '' @ nat_digits stored)
                 else (\<lambda>db. (Inr (), db)))))"

definition copySQLiteTable :: "copy_engines \<Rightarrow> postgres_copy_table \<Rightarrow> unit pg_op" where
  "copySQLiteTable eng table =
     (let name = pc_name table in
      case ce_query eng name of
        Some err \<Rightarrow> pg_fail (''read sqlite table '' @ name @ '': '' @ err)
      | None \<Rightarrow>
          (let (rows, src_err) = drain (ce_next eng name) (ce_scan eng name) 0 (ce_select eng name (pc_columns table)) in
           pg_bind (pg_wrap (''copy table '' @ name) (CopyFrom eng name rows)) (check_copied eng name src_err)))"

text \<open>\<open>setval(seq, COALESCE(MAX(id), 1), COUNT(*) > 0)\<close>, and what the sequence then yields.\<close>

definition reset_sequence :: "copy_engines \<Rightarrow> postgres_copy_table \<Rightarrow> unit pg_op" where
  "reset_sequence eng table =
     pg_wrap (''reset postgres sequence for '' @ pc_name table)
       (pg_statement eng (\<lambda>s. case pg_rows s (pc_name table) of
          None \<Rightarrow> Inl no_table
        | Some rows \<Rightarrow> Inr ((), s\<lparr>pg_seqs := (pg_seqs s)(pc_name table \<mapsto>
            (if rows = [] then 1 else Max (fst ` set rows), rows \<noteq> []))\<rparr>)))"

definition resetPostgresSequences :: "copy_engines \<Rightarrow> unit pg_op" where
  "resetPostgresSequences eng = pg_each (reset_sequence eng) postgresCopyTables"

definition next_id :: "int \<times> bool \<Rightarrow> int" where
  "next_id = (\<lambda>(v, called). if called then v + 1 else v)"

section \<open>The replacement\<close>

definition replace_body :: "copy_engines \<Rightarrow> gostring \<Rightarrow> gostring \<Rightarrow> unit pg_op" where
  "replace_body eng schema indexes =
     pg_bind (pg_wrap ''drop postgres location tables'' (drop_location_tables eng)) (\<lambda>_.
     pg_bind (pg_wrap ''create postgres location schema'' (run_pgx_schema eng schema)) (\<lambda>_.
     pg_bind (pg_each (copySQLiteTable eng) postgresCopyTables) (\<lambda>_.
     pg_bind (resetPostgresSequences eng) (\<lambda>_.
       pg_wrap ''create postgres location indexes'' (run_pgx_schema eng indexes)))))"

text \<open>\<open>Begin\<close>, the body, \<open>Commit\<close>, with \<open>defer pgTx.Rollback\<close>.\<close>

definition in_pg_tx :: "copy_engines \<Rightarrow> unit pg_op \<Rightarrow> unit pg_op" where
  "in_pg_tx eng body db =
     (case pg_bind (pg_statement eng (\<lambda>s. Inr ((), s))) (\<lambda>_. pg_bind body (\<lambda>_. pg_statement eng (\<lambda>s. Inr ((), s)))) db of
        (Inl err, db') \<Rightarrow> (Inl err, db'\<lparr>pd_state := pd_state db\<rparr>)
      | (Inr x, db') \<Rightarrow> (Inr x, db'))"

text \<open>A repository is \<open>None\<close> where it or its connection is nil, else says whether it is Postgres.\<close>

definition ReplaceFromSQLite ::
  "copy_engines \<Rightarrow> bool option \<Rightarrow> bool option \<Rightarrow> gostring \<Rightarrow> gostring \<Rightarrow> unit pg_op" where
  "ReplaceFromSQLite eng dest source schema indexes =
     (if dest \<noteq> Some True then pg_fail ''replace from sqlite: destination is not postgres''
      else if source \<noteq> Some False then pg_fail ''replace from sqlite: source is not sqlite''
      else (case ce_begin eng of
              Some err \<Rightarrow> pg_fail err
            | None \<Rightarrow> (case ce_conn eng of
                         Some err \<Rightarrow> pg_fail err
                       | None \<Rightarrow> if \<not> ce_is_stdlib eng then pg_fail ''unexpected postgres driver connection''
                                 else in_pg_tx eng (replace_body eng schema indexes))))"

text \<open>
  \<open>syncPostgres\<close> of \<open>cmd/seeder\<close>, after each mode that changes the SQLite tables; every error
  ends the program.
\<close>

definition syncPostgres ::
  "copy_engines \<Rightarrow> driver \<Rightarrow> config \<Rightarrow> (gostring \<Rightarrow> gostring + gostring) \<Rightarrow> unit pg_op" where
  "syncPostgres eng d cfg ReadFile =
     (if \<not> PostgresEnabled cfg then (\<lambda>db. (Inr (), db))
      else (case NewPostgresDB d (cf_PostgresDSN cfg) of
              (_, Some err) \<Rightarrow> pg_fail err
            | (repo, None) \<Rightarrow>
                (case ReadFile ''db/location_postgres.sql'' of
                   Inl err \<Rightarrow> pg_fail err
                 | Inr schema \<Rightarrow>
                     (case ReadFile ''db/location_postgres_indexes.sql'' of
                        Inl err \<Rightarrow> pg_fail err
                      | Inr indexes \<Rightarrow> ReplaceFromSQLite eng (map_option (\<lambda>_. True) repo) (Some False) schema indexes))))"

section \<open>Successful statements\<close>

named_theorems pg_success

lemma pg_bind_Inr [pg_success]:
  "pg_bind f g db = (Inr y, db') \<longleftrightarrow> (\<exists>x db1. f db = (Inr x, db1) \<and> g x db1 = (Inr y, db'))"
  by (auto simp: pg_bind_def split: prod.splits sum.splits)

lemma pg_wrap_Inr [pg_success]: "pg_wrap c f db = (Inr x, db') \<longleftrightarrow> f db = (Inr x, db')"
  by (auto simp: pg_wrap_def split: prod.splits sum.splits)

lemma pg_fail_Inr [pg_success]: "pg_fail err db \<noteq> (Inr x, db')"
  by (simp add: pg_fail_def)

lemma pg_statement_Inr:
  "pg_statement eng f db = (Inr x, db') \<Longrightarrow> \<exists>s. f (pd_state db) = Inr (x, s) \<and> pd_state db' = s"
  by (auto simp: pg_statement_def Let_def split: option.splits sum.splits)

lemma pg_each_relation:
  assumes "pg_each f xs db = (Inr (), db')" and "R (pd_state db)"
    and "\<And>x db db'. x \<in> set xs \<Longrightarrow> f x db = (Inr (), db') \<Longrightarrow> R (pd_state db) \<Longrightarrow> R (pd_state db')"
  shows "R (pd_state db')"
  using assms by (induction xs arbitrary: db) (auto simp: pg_success)

lemma drain_complete: "drain next_err scan_err i rs = (vs, None) \<Longrightarrow> vs = rs"
  by (induction rs arbitrary: i vs) (auto simp: Let_def split: option.splits prod.splits)

lemma CopyFrom_success:
  assumes "CopyFrom eng name rows db = (Inr n, db')"
  shows "\<exists>old. pg_rows (pd_state db) name = Some old \<and> n = length rows
    \<and> pd_state db' = (pd_state db)\<lparr>pg_rows := (pg_rows (pd_state db))(name \<mapsto> old @ rows)\<rparr>"
  using pg_statement_Inr [OF assms [unfolded CopyFrom_def]] by (auto split: option.splits)

lemma count_rows_success:
  assumes "count_rows eng name db = (Inr n, db')"
  shows "\<exists>rows. pg_rows (pd_state db) name = Some rows \<and> n = length rows \<and> pd_state db' = pd_state db"
  using pg_statement_Inr [OF assms [unfolded count_rows_def]] by (auto split: option.splits)

text \<open>
  A table that was copied holds the rows of the snapshot and no others: the error of the source
  is asked for after the copy, and the two counts differ where the table was not empty.
\<close>

lemma check_copied_success:
  assumes "check_copied eng name err copied db = (Inr (), db')"
  shows "err = None \<and> (\<exists>rows. pg_rows (pd_state db) name = Some rows \<and> copied = length rows) \<and> pd_state db' = pd_state db"
proof -
  from assms have none: "err = None" "ce_close eng name = None"
    by (cases "ce_close eng name"; cases err; simp add: check_copied_def pg_success)+
  with assms have "pg_bind (pg_wrap (''count copied table '' @ name) (count_rows eng name)) (\<lambda>stored.
      if copied \<noteq> stored
      then pg_fail (''validate copied table '' @ name @ '': COPY reported '' @ nat_digits copied
        @ '' rows but postgres contains '' @ nat_digits stored)
      else (\<lambda>db. (Inr (), db))) db = (Inr (), db')"
    by (simp add: check_copied_def)
  then obtain stored db1 where "count_rows eng name db = (Inr stored, db1)" and "copied = stored" and "db1 = db'"
    unfolding pg_bind_Inr pg_wrap_Inr by (auto simp: pg_success split: if_splits)
  with count_rows_success none show ?thesis by blast
qed

lemma copySQLiteTable_success:
  assumes "copySQLiteTable eng t db = (Inr (), db')"
  shows "pd_state db' = (pd_state db)\<lparr>pg_rows := (pg_rows (pd_state db))(pc_name t \<mapsto> ce_select eng (pc_name t) (pc_columns t))\<rparr>"
proof -
  obtain rows err where d: "drain (ce_next eng (pc_name t)) (ce_scan eng (pc_name t)) 0
      (ce_select eng (pc_name t) (pc_columns t)) = (rows, err)"
    by (cases "drain (ce_next eng (pc_name t)) (ce_scan eng (pc_name t)) 0 (ce_select eng (pc_name t) (pc_columns t))")
  have "ce_query eng (pc_name t) = None"
    using assms by (cases "ce_query eng (pc_name t)") (simp_all add: copySQLiteTable_def pg_success)
  with assms have "pg_bind (pg_wrap (''copy table '' @ pc_name t) (CopyFrom eng (pc_name t) rows))
      (check_copied eng (pc_name t) err) db = (Inr (), db')"
    by (simp add: copySQLiteTable_def d Let_def)
  then obtain copied db1 where copy: "CopyFrom eng (pc_name t) rows db = (Inr copied, db1)"
    and check: "check_copied eng (pc_name t) err copied db1 = (Inr (), db')"
    unfolding pg_bind_Inr pg_wrap_Inr by blast
  obtain old where old: "pg_rows (pd_state db) (pc_name t) = Some old" and copied: "copied = length rows"
    and st1: "pd_state db1 = (pd_state db)\<lparr>pg_rows := (pg_rows (pd_state db))(pc_name t \<mapsto> old @ rows)\<rparr>"
    using CopyFrom_success [OF copy] by blast
  have checked: "err = None" "\<exists>stored. pg_rows (pd_state db1) (pc_name t) = Some stored \<and> copied = length stored"
    "pd_state db' = pd_state db1"
    using check_copied_success [OF check] by blast+
  have rows: "rows = ce_select eng (pc_name t) (pc_columns t)"
    using checked(1) d drain_complete by blast
  have "old = []" using checked(2) copied by (simp add: st1)
  then show ?thesis unfolding checked(3) st1 rows by simp
qed

lemma copy_all_success:
  assumes "pg_each (copySQLiteTable eng) ts db = (Inr (), db')" and "distinct (map pc_name ts)"
  shows "\<forall>t\<in>set ts. pg_rows (pd_state db') (pc_name t) = Some (ce_select eng (pc_name t) (pc_columns t))"
proof -
  have other: "pg_rows (pd_state db') name = pg_rows (pd_state db) name"
    if "pg_each (copySQLiteTable eng) us db = (Inr (), db')" and "name \<notin> pc_name ` set us" for us db db' name
    using that
  proof (induction us arbitrary: db)
    case (Cons u us)
    then show ?case by (auto simp: pg_success dest!: copySQLiteTable_success)
  qed simp
  show ?thesis using assms
  proof (induction ts arbitrary: db)
    case (Cons t ts)
    then obtain db1 where first: "copySQLiteTable eng t db = (Inr (), db1)" and rest: "pg_each (copySQLiteTable eng) ts db1 = (Inr (), db')"
      by (auto simp: pg_success)
    have "pg_rows (pd_state db') (pc_name t) = pg_rows (pd_state db1) (pc_name t)"
      using other [OF rest] Cons.prems(2) by auto
    then show ?case using Cons.IH [OF rest] Cons.prems(2) copySQLiteTable_success [OF first] by simp
  qed simp
qed

lemma reset_step:
  assumes "reset_sequence eng t db = (Inr (), db')"
  shows "\<exists>rows. pg_rows (pd_state db) (pc_name t) = Some rows
    \<and> pd_state db' = (pd_state db)\<lparr>pg_seqs := (pg_seqs (pd_state db))(pc_name t \<mapsto>
        (if rows = [] then 1 else Max (fst ` set rows), rows \<noteq> []))\<rparr>"
proof -
  obtain s where "(case pg_rows (pd_state db) (pc_name t) of
          None \<Rightarrow> Inl no_table
        | Some rows \<Rightarrow> Inr ((), (pd_state db)\<lparr>pg_seqs := (pg_seqs (pd_state db))(pc_name t \<mapsto>
            (if rows = [] then 1 else Max (fst ` set rows), rows \<noteq> []))\<rparr>)) = Inr ((), s)" and "pd_state db' = s"
    using pg_statement_Inr [OF assms [unfolded reset_sequence_def pg_wrap_Inr]] by blast
  then show ?thesis by (cases "pg_rows (pd_state db) (pc_name t)") simp_all
qed

text \<open>The sequence of a table, as it is after a reset: beyond every identifier in use.\<close>

definition seq_reset :: "pg_state \<Rightarrow> gostring \<Rightarrow> bool" where
  "seq_reset s name \<longleftrightarrow> (\<exists>rows. pg_rows s name = Some rows
     \<and> pg_seqs s name = Some (if rows = [] then 1 else Max (fst ` set rows), rows \<noteq> []))"

lemma reset_all:
  assumes "pg_each (reset_sequence eng) ts db = (Inr (), db')"
  shows "pg_rows (pd_state db') = pg_rows (pd_state db)
    \<and> (\<forall>name. name \<in> pc_name ` set ts \<or> seq_reset (pd_state db) name \<longrightarrow> seq_reset (pd_state db') name)"
  using assms
proof (induction ts arbitrary: db)
  case (Cons t ts)
  then obtain db1 where first: "reset_sequence eng t db = (Inr (), db1)" and rest: "pg_each (reset_sequence eng) ts db1 = (Inr (), db')"
    by (auto simp: pg_bind_Inr)
  obtain rows where rows: "pg_rows (pd_state db) (pc_name t) = Some rows"
    and st: "pd_state db1 = (pd_state db)\<lparr>pg_seqs := (pg_seqs (pd_state db))(pc_name t \<mapsto>
        (if rows = [] then 1 else Max (fst ` set rows), rows \<noteq> []))\<rparr>"
    using reset_step [OF first] by blast
  have "seq_reset (pd_state db1) (pc_name t)" using rows by (simp add: seq_reset_def st)
  moreover have "seq_reset (pd_state db1) name" if "seq_reset (pd_state db) name" for name
    using that rows by (auto simp: seq_reset_def st)
  ultimately show ?case using Cons.IH [OF rest] by (auto simp: st)
qed simp

lemma next_id_beyond:
  assumes "seq_reset s name" and "pg_rows s name = Some rows" and "pg_seqs s name = Some q" and "r \<in> set rows"
  shows "fst r < next_id q"
proof -
  have "rows \<noteq> []" using assms(4) by auto
  then have "q = (Max (fst ` set rows), True)" using assms(1-3) by (auto simp: seq_reset_def)
  moreover have "fst r \<le> Max (fst ` set rows)" using assms(4) by simp
  ultimately show ?thesis by (simp add: next_id_def)
qed

lemma run_pgx_schema_keeps:
  assumes "run_pgx_schema eng script db = (Inr (), db')"
    and "\<And>stmt s s'. stmt \<in> set (pgx_statements script) \<Longrightarrow> ce_ddl eng stmt s = Inr s' \<Longrightarrow> s' = s"
  shows "pd_state db' = pd_state db"
proof -
  have step: "pd_state db2 = pd_state db1"
    if listed: "stmt \<in> set (pgx_statements script)"
      and run: "pg_wrap c (pg_statement eng (\<lambda>s. map_sum id (Pair ()) (ce_ddl eng stmt s))) db1 = (Inr (), db2)" for stmt c db1 db2
  proof -
    obtain s where "map_sum id (Pair ()) (ce_ddl eng stmt (pd_state db1)) = Inr ((), s)" and "pd_state db2 = s"
      using pg_statement_Inr [OF run [unfolded pg_wrap_Inr]] by blast
    then show ?thesis using assms(2) [OF listed] by (cases "ce_ddl eng stmt (pd_state db1)") auto
  qed
  show ?thesis
    by (rule pg_each_relation [OF assms(1) [unfolded run_pgx_schema_def], where R = "\<lambda>s. s = pd_state db"])
      (simp_all add: step)
qed

section \<open>The snapshot\<close>

text \<open>
  C20. A replacement that ends well leaves each of the six Postgres tables with exactly the rows of
  the SQLite table, and a sequence whose next identifier is larger than every identifier in use,
  whatever the schema script did before; one that fails, at whatever statement, row or check,
  leaves Postgres as it was. The statements of the index script are assumed to change no rows.
\<close>

theorem replace_is_snapshot:
  assumes "\<And>stmt s s'. stmt \<in> set (pgx_statements indexes) \<Longrightarrow> ce_ddl eng stmt s = Inr s' \<Longrightarrow> s' = s"
  shows "case ReplaceFromSQLite eng dest source schema indexes db of
      (Inl err, db') \<Rightarrow> pd_state db' = pd_state db
    | (Inr _, db') \<Rightarrow> dest = Some True \<and> source = Some False
        \<and> (\<forall>t\<in>set postgresCopyTables.
             pg_rows (pd_state db') (pc_name t) = Some (ce_select eng (pc_name t) (pc_columns t))
           \<and> (\<exists>q. pg_seqs (pd_state db') (pc_name t) = Some q
                \<and> (\<forall>r\<in>set (ce_select eng (pc_name t) (pc_columns t)). fst r < next_id q)))"
proof -
  obtain res db' where run: "ReplaceFromSQLite eng dest source schema indexes db = (res, db')"
    by (cases "ReplaceFromSQLite eng dest source schema indexes db")
  show ?thesis
  proof (cases res)
    case (Inl err)
    then have "pd_state db' = pd_state db"
      using run by (auto simp: ReplaceFromSQLite_def pg_fail_def in_pg_tx_def split: if_splits option.splits prod.splits sum.splits)
    with run Inl show ?thesis by simp
  next
    case (Inr u)
    then have guards: "dest = Some True \<and> source = Some False" and tx: "in_pg_tx eng (replace_body eng schema indexes) db = (Inr (), db')"
      using run by (auto simp: ReplaceFromSQLite_def pg_fail_def split: if_splits option.splits)
    then obtain db1 db2 where body: "replace_body eng schema indexes db1 = (Inr (), db2)" and "pd_state db' = pd_state db2"
      by (auto simp: in_pg_tx_def pg_success split: prod.splits sum.splits dest!: pg_statement_Inr)
    then obtain db3 db4 db5 where copies: "pg_each (copySQLiteTable eng) postgresCopyTables db3 = (Inr (), db4)"
      and reset: "resetPostgresSequences eng db4 = (Inr (), db5)"
      and index: "run_pgx_schema eng indexes db5 = (Inr (), db2)"
      unfolding replace_body_def by (auto simp: pg_success)
    have state: "pd_state db' = pd_state db5"
      using \<open>pd_state db' = pd_state db2\<close> run_pgx_schema_keeps [OF index assms] by simp
    have "distinct (map pc_name postgresCopyTables)" by (simp add: postgresCopyTables_def)
    note copied = copy_all_success [OF copies this] and sequences = reset_all [OF reset [unfolded resetPostgresSequences_def]]
    have "pg_rows (pd_state db5) (pc_name t) = Some (ce_select eng (pc_name t) (pc_columns t))
        \<and> (\<exists>q. pg_seqs (pd_state db5) (pc_name t) = Some q
             \<and> (\<forall>r\<in>set (ce_select eng (pc_name t) (pc_columns t)). fst r < next_id q))"
      if "t \<in> set postgresCopyTables" for t
    proof -
      have rows: "pg_rows (pd_state db5) (pc_name t) = Some (ce_select eng (pc_name t) (pc_columns t))"
        using that copied sequences by simp
      have seq: "seq_reset (pd_state db5) (pc_name t)" using that sequences by blast
      then obtain q where q: "pg_seqs (pd_state db5) (pc_name t) = Some q" by (auto simp: seq_reset_def)
      show ?thesis using rows q next_id_beyond [OF seq rows q] by blast
    qed
    with run Inr guards show ?thesis by (simp add: state)
  qed
qed

definition demo_copy :: copy_engines where
  "demo_copy = \<lparr>ce_fault = (\<lambda>_. None),
     ce_ddl = (\<lambda>stmt s. Inr (s\<lparr>pg_rows := map_of (map (\<lambda>t. (pc_name t, [])) postgresCopyTables)\<rparr>)),
     ce_begin = None, ce_conn = None, ce_is_stdlib = True, ce_query = (\<lambda>_. None),
     ce_select = (\<lambda>name _. if name = ''location_levels'' then [(1, [Some ''0'']), (2, [Some ''1''])] else []),
     ce_next = (\<lambda>_ _. None), ce_scan = (\<lambda>_ _. None), ce_close = (\<lambda>_. None)\<rparr>"

definition demo_pg :: pg_database where
  "demo_pg = \<lparr>pd_state = \<lparr>pg_rows = [''location_levels'' \<mapsto> [(7, [])]], pg_seqs = Map.empty\<rparr>, pd_clock = 0\<rparr>"

lemma demo_copied: "fst (ReplaceFromSQLite demo_copy (Some True) (Some False) ''CREATE;'' [] demo_pg) = Inr ()"
  by code_simp

theorem replace_is_snapshot_witness:
  "pg_rows (pd_state (snd (ReplaceFromSQLite demo_copy (Some True) (Some False) ''CREATE;'' [] demo_pg))) ''location_levels''
     = Some [(1, [Some ''0'']), (2, [Some ''1''])]"
proof -
  have none: "pgx_statements [] = []" by code_simp
  have "case ReplaceFromSQLite demo_copy (Some True) (Some False) ''CREATE;'' [] demo_pg of
      (Inl err, db') \<Rightarrow> pd_state db' = pd_state demo_pg
    | (Inr _, db') \<Rightarrow> Some True = Some True \<and> Some False = Some False
        \<and> (\<forall>t\<in>set postgresCopyTables.
             pg_rows (pd_state db') (pc_name t) = Some (ce_select demo_copy (pc_name t) (pc_columns t))
           \<and> (\<exists>q. pg_seqs (pd_state db') (pc_name t) = Some q
                \<and> (\<forall>r\<in>set (ce_select demo_copy (pc_name t) (pc_columns t)). fst r < next_id q)))"
    by (rule replace_is_snapshot) (simp add: none)
  then show ?thesis
    using demo_copied by (auto simp: postgresCopyTables_def demo_copy_def split: prod.splits)
qed

end
