(* ===== verification/Geocode.thy ===== *)
theory Geocode
  imports Address_Db
begin

text \<open>
  \<open>internal/service/geocode.go\<close>: the proxy in front of the Google geocoder, with its cache. The
  critical section from the lookup to the insertion is under one mutex, so requests are
  modelled one after the other. Arguments, gathered in \<open>geo_world\<close>: SHA-256, the JSON
  decoder, the network, the clock and the faults of the database.
\<close>

section \<open>Surroundings\<close>

text \<open>The struct that \<open>responseIsNotFound\<close> decodes into: \<open>error\<close> present, length of \<open>results\<close>.\<close>

record json_probe =
  jp_Error :: bool
  jp_Results :: "nat option"

text \<open>What the HTTP client gets: no answer, an answer whose body cannot be read, or an answer.\<close>

datatype http_answer = NoAnswer gostring | BrokenBody int gostring | Answer int gostring

record geo_world =
  gw_Sum256 :: "gostring \<Rightarrow> gostring"
  gw_Unmarshal :: "gostring \<Rightarrow> gostring + geocode_request"
  gw_probe :: "gostring \<Rightarrow> json_probe option"
  gw_NewRequest :: "gostring \<Rightarrow> gostring option"
  gw_Do :: "nat \<Rightarrow> gostring \<Rightarrow> gostring \<Rightarrow> http_answer"
  gw_now :: "nat \<Rightarrow> utc_time"
  gw_fault :: fault

text \<open>The fields of \<open>Service\<close> that the geocoder reads.\<close>

record geo_config =
  googleMapsMock :: bool
  googleMapsAPIKey :: gostring
  googleMapsBaseURL :: gostring

text \<open>The database, and the calls that were made upstream: endpoint and key.\<close>

record geo_state =
  gs_db :: address_database
  gs_calls :: "(gostring \<times> gostring) list"

record geocode_response =
  go_Timestamp :: gostring
  go_RequestID :: gostring
  go_CacheStatus :: gostring
  go_Data :: gostring

datatype v0_error = V0Validation gostring | V0Error gostring

section \<open>The key of a request\<close>

definition canonicalizeRequestBody :: "gostring \<Rightarrow> gostring" where
  "canonicalizeRequestBody rawBody = join [space] (strings_Fields rawBody)"

definition EncodeToString :: "gostring \<Rightarrow> gostring" where
  "EncodeToString bs = concat (map (\<lambda>c. hex_byte lowerhex (of_char c)) bs)"

definition requestHash :: "geo_world \<Rightarrow> gostring \<Rightarrow> gostring" where
  "requestHash w body = EncodeToString (gw_Sum256 w body)"

section \<open>Payloads\<close>

definition responseIsNotFound :: "geo_world \<Rightarrow> gostring \<Rightarrow> bool" where
  "responseIsNotFound w payload =
     (let trimmed = trim_space payload in
      if trimmed = [] \<or> trimmed = ''{}'' then True
      else (case gw_probe w trimmed of
              None \<Rightarrow> False
            | Some p \<Rightarrow> if jp_Error p then True else jp_Results p = Some 0))"

definition quoted_name :: "gostring \<Rightarrow> gostring" where
  "quoted_name s = CHR 0x22 # s @ [CHR 0x22]"

definition mockNotFoundResponse :: gostring where
  "mockNotFoundResponse =
     ''{'' @ quoted_name ''error'' @ '':{'' @ quoted_name ''code'' @ '':404,'' @ quoted_name ''message'' @ '':''
     @ quoted_name ''Address not found'' @ '','' @ quoted_name ''status'' @ '':'' @ quoted_name ''NOT_FOUND'' @ ''}}''"

definition buildGeocodeResponse ::
  "geo_world \<Rightarrow> nat \<Rightarrow> gostring \<Rightarrow> gostring \<Rightarrow> gostring \<Rightarrow> geocode_response \<times> int" where
  "buildGeocodeResponse w n requestID payload cacheStatus =
     (\<lparr>go_Timestamp = format_RFC3339 (gw_now w n), go_RequestID = requestID,
       go_CacheStatus = cacheStatus, go_Data = payload\<rparr>,
      if responseIsNotFound w payload then 404 else 200)"

section \<open>The call upstream\<close>

text \<open>\<open>url.QueryEscape\<close>\<close>

definition unreserved :: "char \<Rightarrow> bool" where
  "unreserved c \<longleftrightarrow> is_letter c \<or> is_digit c \<or> c \<in> set ''-_.~''"

definition QueryEscape :: "gostring \<Rightarrow> gostring" where
  "QueryEscape s = concat (map (\<lambda>c. if c = space then ''+'' else if unreserved c then [c]
     else CHR ''%'' # hex_byte upperhex (of_char c)) s)"

datatype maps_result = MapsBody gostring | MapsNotFound gostring | MapsError gostring

definition endpoint_of :: "geo_config \<Rightarrow> gostring \<Rightarrow> gostring" where
  "endpoint_of cfg address = trim_suffix (googleMapsBaseURL cfg) ''/'' @ ''/'' @ QueryEscape address"

definition callGoogleMaps ::
  "geo_world \<Rightarrow> geo_config \<Rightarrow> gostring \<Rightarrow> (gostring \<times> gostring) list \<Rightarrow> maps_result \<times> (gostring \<times> gostring) list" where
  "callGoogleMaps w cfg address calls =
     (let endpoint = endpoint_of cfg address in
      case gw_NewRequest w endpoint of
        Some err \<Rightarrow> (MapsError err, calls)
      | None \<Rightarrow>
          let key = googleMapsAPIKey cfg; sent = calls @ [(endpoint, key)] in
          case gw_Do w (length calls) endpoint key of
            NoAnswer err \<Rightarrow> (MapsError err, sent)
          | BrokenBody _ err \<Rightarrow> (MapsError err, sent)
          | Answer code body \<Rightarrow>
              if code = 200 then (MapsBody body, sent)
              else if code = 404 then (MapsNotFound body, sent)
              else (MapsError (''google maps geocoding returned status '' @ int_d code @ '': '' @ body), sent))"

section \<open>The request\<close>

text \<open>
  The body that is cached on a miss: the mocked one, or that of the answer; an answer 404 is
  cached as well. The status that the code computes besides is only logged.
\<close>

definition fetch_payload ::
  "geo_world \<Rightarrow> geo_config \<Rightarrow> gostring \<Rightarrow> (gostring \<times> gostring) list
     \<Rightarrow> (gostring + gostring) \<times> (gostring \<times> gostring) list" where
  "fetch_payload w cfg address calls =
     (if googleMapsMock cfg then (Inr mockNotFoundResponse, calls)
      else (case callGoogleMaps w cfg address calls of
              (MapsBody body, calls) \<Rightarrow> (Inr body, calls)
            | (MapsNotFound body, calls) \<Rightarrow> (Inr body, calls)
            | (MapsError err, calls) \<Rightarrow> (Inl err, calls)))"

definition ValidateAddressV0 ::
  "geo_world \<Rightarrow> geo_config \<Rightarrow> gostring \<Rightarrow> gostring \<Rightarrow> geo_state
     \<Rightarrow> ((int \<times> v0_error) + (geocode_response \<times> int)) \<times> geo_state" where
  "ValidateAddressV0 w cfg rawBody requestID st =
     (let canonical = canonicalizeRequestBody rawBody; hash = requestHash w canonical in
      case gw_Unmarshal w canonical of
        Inl err \<Rightarrow> (Inl (400, V0Validation (''invalid request body: '' @ err)), st)
      | Inr geocodeReq \<Rightarrow>
          (case GetGoogleMapsCache (gw_fault w) hash (gs_db st) of
             (Inl err, db) \<Rightarrow> (Inl (500, V0Error err), st\<lparr>gs_db := db\<rparr>)
           | (Inr (Some rec), db) \<Rightarrow>
               (Inr (buildGeocodeResponse w (ad_clock db) requestID (gr_Response rec) ''HIT''), st\<lparr>gs_db := db\<rparr>)
           | (Inr None, db) \<Rightarrow>
               (case fetch_payload w cfg (gq_Address geocodeReq) (gs_calls st) of
                  (Inl err, calls) \<Rightarrow> (Inl (500, V0Error err), \<lparr>gs_db = db, gs_calls = calls\<rparr>)
                | (Inr payload, calls) \<Rightarrow>
                    (case UpsertGoogleMapsCache (gw_fault w) hash canonical payload (gw_now w (ad_clock db)) db of
                       (Inl err, db) \<Rightarrow> (Inl (500, V0Error err), \<lparr>gs_db = db, gs_calls = calls\<rparr>)
                     | (Inr _, db) \<Rightarrow>
                         (Inr (buildGeocodeResponse w (ad_clock db) requestID payload ''MISS''),
                          \<lparr>gs_db = db, gs_calls = calls\<rparr>)))))"

section \<open>Statements on the cache\<close>

lemma ad_statement_cases:
  obtains (refused) err where "ad_statement fault names f db = (Inl err, db\<lparr>ad_clock := Suc (ad_clock db)\<rparr>)"
      and "fault (ad_clock db) \<noteq> None \<or> \<not> set names \<subseteq> at_names (ad_tables db)"
  | (failed) err t where "f (ad_tables db) = (Inl err, t)"
      and "ad_statement fault names f db = (Inl err, db\<lparr>ad_clock := Suc (ad_clock db)\<rparr>)"
  | (executed) x t where "f (ad_tables db) = (Inr x, t)"
      and "ad_statement fault names f db = (Inr x, db\<lparr>ad_tables := t, ad_clock := Suc (ad_clock db)\<rparr>)"
proof -
  consider (no) "fault (ad_clock db) \<noteq> None \<or> \<not> set names \<subseteq> at_names (ad_tables db)"
    | (yes) "fault (ad_clock db) = None" "set names \<subseteq> at_names (ad_tables db)" by blast
  then show ?thesis
  proof cases
    case no
    then show ?thesis
      by (cases "fault (ad_clock db)") (simp_all add: ad_statement_def Let_def refused)
  next
    case yes
    obtain r t where f: "f (ad_tables db) = (r, t)" by (cases "f (ad_tables db)")
    with yes show ?thesis
      by (cases r) (simp_all add: ad_statement_def Let_def failed executed)
  qed
qed

lemma GetGoogleMapsCache_cases:
  obtains (failed) err where "GetGoogleMapsCache fault h db = (Inl err, db\<lparr>ad_clock := Suc (ad_clock db)\<rparr>)"
      and "fault (ad_clock db) \<noteq> None \<or> ''google_maps_cache'' \<notin> at_names (ad_tables db)"
  | (absent) "active_row h (ad_tables db) = None"
      and "GetGoogleMapsCache fault h db = (Inr None, db\<lparr>ad_clock := Suc (ad_clock db)\<rparr>)"
  | (present) r where "active_row h (ad_tables db) = Some r"
      and "GetGoogleMapsCache fault h db = (Inr (Some \<lparr>gr_RequestHash = gm_RequestHash r, gr_Request = gm_Request r,
        gr_Response = gm_Response r\<rparr>), db\<lparr>ad_clock := Suc (ad_clock db)\<rparr>)"
  unfolding GetGoogleMapsCache_def
  by (rule ad_statement_cases [of fault "[''google_maps_cache'']" "\<lambda>t. (Inr (map_option
         (\<lambda>r. \<lparr>gr_RequestHash = gm_RequestHash r, gr_Request = gm_Request r, gr_Response = gm_Response r\<rparr>)
         (active_row h t)), t)" db]; cases "active_row h (ad_tables db)")
    (auto intro: that)

lemma UpsertGoogleMapsCache_cases:
  obtains (failed) err where "UpsertGoogleMapsCache fault h req resp now db = (Inl err, db\<lparr>ad_clock := Suc (ad_clock db)\<rparr>)"
      and "fault (ad_clock db) \<noteq> None \<or> ''google_maps_cache'' \<notin> at_names (ad_tables db)"
  | (stored) "UpsertGoogleMapsCache fault h req resp now db
      = (Inr (), db\<lparr>ad_tables := upsert_row h req resp (format_RFC3339 now) (ad_tables db), ad_clock := Suc (ad_clock db)\<rparr>)"
  unfolding UpsertGoogleMapsCache_def
  by (rule ad_statement_cases [of fault "[''google_maps_cache'']"
        "\<lambda>t. (Inr (), upsert_row h req resp (format_RFC3339 now) t)" db]) (auto intro: that)

section \<open>What a request does\<close>

lemma canonicalize_idempotent [simp]:
  "canonicalizeRequestBody (canonicalizeRequestBody body) = canonicalizeRequestBody body"
  by (simp add: canonicalizeRequestBody_def fields_words)

lemma callGoogleMaps_cases:
  obtains (body) code body where "callGoogleMaps w cfg address calls
        = ((if code = 200 then MapsBody body else MapsNotFound body), calls @ [(endpoint_of cfg address, googleMapsAPIKey cfg)])"
      and "code = 200 \<or> code = 404"
      and "gw_Do w (length calls) (endpoint_of cfg address) (googleMapsAPIKey cfg) = Answer code body"
  | (error) err calls' where "callGoogleMaps w cfg address calls = (MapsError err, calls')"
      and "calls' = calls \<or> calls' = calls @ [(endpoint_of cfg address, googleMapsAPIKey cfg)]"
proof (cases "gw_NewRequest w (endpoint_of cfg address)")
  case None
  show ?thesis
  proof (cases "gw_Do w (length calls) (endpoint_of cfg address) (googleMapsAPIKey cfg)")
    case (Answer code body)
    with None show ?thesis
      using body [of code body] error
      by (cases "code = 200 \<or> code = 404") (auto simp: callGoogleMaps_def Let_def)
  qed (auto simp: callGoogleMaps_def Let_def None intro: that)
qed (auto simp: callGoogleMaps_def Let_def intro: that)

text \<open>The answers that may be fetched for an address, and the calls made for them.\<close>

definition fetched ::
  "geo_world \<Rightarrow> geo_config \<Rightarrow> gostring \<Rightarrow> (gostring \<times> gostring) list \<Rightarrow> gostring \<Rightarrow> (gostring \<times> gostring) list \<Rightarrow> bool" where
  "fetched w cfg address calls payload calls' \<longleftrightarrow>
     (if googleMapsMock cfg then payload = mockNotFoundResponse \<and> calls' = calls
      else calls' = calls @ [(endpoint_of cfg address, googleMapsAPIKey cfg)]
         \<and> gw_Do w (length calls) (endpoint_of cfg address) (googleMapsAPIKey cfg) \<in> {Answer 200 payload, Answer 404 payload})"

lemma fetch_payload_cases:
  obtains (body) payload calls' where "fetch_payload w cfg address calls = (Inr payload, calls')"
      and "fetched w cfg address calls payload calls'"
  | (error) err calls' where "fetch_payload w cfg address calls = (Inl err, calls')"
      and "\<not> googleMapsMock cfg" and "calls' = calls \<or> calls' = calls @ [(endpoint_of cfg address, googleMapsAPIKey cfg)]"
proof (cases "googleMapsMock cfg")
  case True
  then show ?thesis by (auto simp: fetch_payload_def fetched_def intro: that)
next
  case False
  show ?thesis
    by (rule callGoogleMaps_cases [of w cfg address calls])
      (use False in \<open>auto simp: fetch_payload_def fetched_def intro: that\<close>)
qed

text \<open>
  Everything that can happen. \<open>db1\<close> is the database after the lookup: a clock tick later.
\<close>

lemma ValidateAddressV0_cases:
  fixes w :: geo_world and cfg :: geo_config and body rid :: gostring and st :: geo_state
  defines "h \<equiv> requestHash w (canonicalizeRequestBody body)"
    and "tables \<equiv> ad_tables (gs_db st)"
  obtains (invalid) err where "gw_Unmarshal w (canonicalizeRequestBody body) = Inl err"
      and "ValidateAddressV0 w cfg body rid st = (Inl (400, V0Validation (''invalid request body: '' @ err)), st)"
  | (hit) req r db' where "gw_Unmarshal w (canonicalizeRequestBody body) = Inr req" and "active_row h tables = Some r"
      and "ad_tables db' = tables"
      and "ValidateAddressV0 w cfg body rid st
        = (Inr (buildGeocodeResponse w (ad_clock db') rid (gm_Response r) ''HIT''), st\<lparr>gs_db := db'\<rparr>)"
  | (miss) req payload calls ts db' where "gw_Unmarshal w (canonicalizeRequestBody body) = Inr req"
      and "active_row h tables = None" and "fetched w cfg (gq_Address req) (gs_calls st) payload calls"
      and "ad_tables db' = upsert_row h (canonicalizeRequestBody body) payload ts tables"
      and "ValidateAddressV0 w cfg body rid st
        = (Inr (buildGeocodeResponse w (ad_clock db') rid payload ''MISS''), \<lparr>gs_db = db', gs_calls = calls\<rparr>)"
  | (failed_case) req err db' calls where "gw_Unmarshal w (canonicalizeRequestBody body) = Inr req"
      and "ad_tables db' = tables"
      and "calls = gs_calls st \<or> active_row h tables = None \<and> \<not> googleMapsMock cfg
          \<and> calls = gs_calls st @ [(endpoint_of cfg (gq_Address req), googleMapsAPIKey cfg)]"
      and "active_row h tables \<noteq> None \<Longrightarrow> gw_fault w (ad_clock (gs_db st)) \<noteq> None \<or> ''google_maps_cache'' \<notin> at_names tables"
      and "ValidateAddressV0 w cfg body rid st = (Inl (500, V0Error err), \<lparr>gs_db = db', gs_calls = calls\<rparr>)"
proof (cases "gw_Unmarshal w (canonicalizeRequestBody body)")
  case (Inl err)
  then show ?thesis by (intro invalid) (simp_all add: ValidateAddressV0_def Let_def)
next
  case (Inr req)
  note parsed = this
  show ?thesis
  proof (cases rule: GetGoogleMapsCache_cases [of "gw_fault w" h "gs_db st"])
    case (failed err)
    with parsed show ?thesis
      by (intro failed_case [of req "(gs_db st)\<lparr>ad_clock := Suc (ad_clock (gs_db st))\<rparr>" "gs_calls st" err]) (simp_all add: ValidateAddressV0_def Let_def h_def tables_def)
  next
    case (present r)
    with parsed show ?thesis
      by (intro hit [of req r "(gs_db st)\<lparr>ad_clock := Suc (ad_clock (gs_db st))\<rparr>"])
        (simp_all add: ValidateAddressV0_def Let_def h_def tables_def)
  next
    case absent
    let ?db1 = "(gs_db st)\<lparr>ad_clock := Suc (ad_clock (gs_db st))\<rparr>"
    show ?thesis
    proof (cases rule: fetch_payload_cases [of w cfg "gq_Address req" "gs_calls st"])
      case (error err calls)
      with parsed absent show ?thesis
        by (intro failed_case [of req ?db1 calls err])
          (simp_all add: ValidateAddressV0_def Let_def h_def tables_def)
    next
      case (body payload calls)
      note fetch = this
      let ?ts = "gw_now w (ad_clock ?db1)"
      show ?thesis
      proof (cases rule: UpsertGoogleMapsCache_cases [of "gw_fault w" h "canonicalizeRequestBody body" payload ?ts ?db1])
        case (failed err)
        have "calls = gs_calls st \<or> \<not> googleMapsMock cfg
            \<and> calls = gs_calls st @ [(endpoint_of cfg (gq_Address req), googleMapsAPIKey cfg)]"
          using fetch(2) by (auto simp: fetched_def split: if_splits)
        with parsed absent fetch(1) failed(1) show ?thesis
          by (intro failed_case [of req "?db1\<lparr>ad_clock := Suc (ad_clock ?db1)\<rparr>" calls err])
            (simp_all add: ValidateAddressV0_def Let_def h_def tables_def)
      next
        case stored
        with parsed absent fetch show ?thesis
          by (intro miss [of req payload calls
                "?db1\<lparr>ad_tables := upsert_row h (canonicalizeRequestBody body) payload (format_RFC3339 ?ts) (ad_tables ?db1),
                   ad_clock := Suc (ad_clock ?db1)\<rparr>" "format_RFC3339 ?ts"])
            (simp_all add: ValidateAddressV0_def Let_def h_def tables_def)
      qed
    qed
  qed
qed

text \<open>
  C19. A body that is no JSON is refused with 400 and touches nothing; any other error is a 500
  that leaves the cache as it was. A response carries the request's identifier and the data that
  the cache now holds for the body, with status 404 exactly for data that says that nothing was
  found. A hit changes no table and calls nobody; a miss was not cached before, and its data is the mock or
  the body of the one call, to the configured endpoint, answered with 200 or 404.
\<close>

theorem ValidateAddressV0_outcome:
  "let h = requestHash w (canonicalizeRequestBody body); tables = ad_tables (gs_db st) in
   case ValidateAddressV0 w cfg body rid st of
     (Inl (code, V0Validation m), st') \<Rightarrow>
       code = 400 \<and> st' = st \<and> (\<exists>err. gw_Unmarshal w (canonicalizeRequestBody body) = Inl err
         \<and> m = ''invalid request body: '' @ err)
   | (Inl (code, V0Error err), st') \<Rightarrow>
       code = 500 \<and> ad_tables (gs_db st') = tables
       \<and> length (gs_calls st') \<le> Suc (length (gs_calls st))
   | (Inr (resp, status), st') \<Rightarrow>
       go_RequestID resp = rid \<and> answer h (ad_tables (gs_db st')) = Some (go_Data resp)
       \<and> status = (if responseIsNotFound w (go_Data resp) then 404 else 200)
       \<and> (if go_CacheStatus resp = ''HIT'' then ad_tables (gs_db st') = tables \<and> gs_calls st' = gs_calls st
          else go_CacheStatus resp = ''MISS'' \<and> answer h tables = None
            \<and> (\<exists>req. gw_Unmarshal w (canonicalizeRequestBody body) = Inr req
                  \<and> fetched w cfg (gq_Address req) (gs_calls st) (go_Data resp) (gs_calls st')))"
  by (rule ValidateAddressV0_cases [of w body cfg rid st])
    (auto simp: Let_def buildGeocodeResponse_def answer_def [of _ "ad_tables (gs_db st)"] answer_upsert)

section \<open>Runs of requests\<close>

text \<open>Requests one after the other; each may meet another world, key or mock switch.\<close>

inductive geo_step :: "(geo_world \<Rightarrow> bool) \<Rightarrow> geo_state \<Rightarrow> geo_state \<Rightarrow> bool" for ok where
  "ok w \<Longrightarrow> geo_step ok st (snd (ValidateAddressV0 w cfg body rid st))"

inductive_cases geo_stepE: "geo_step ok st st'"

lemma geo_step_puts:
  assumes "geo_step ok st st'"
  shows "geocode_cache.put_missing (ad_tables (gs_db st)) (ad_tables (gs_db st'))"
  using assms
proof (rule geo_stepE)
  fix w cfg body rid
  assume st': "st' = snd (ValidateAddressV0 w cfg body rid st)"
  show ?thesis
  proof (cases rule: ValidateAddressV0_cases [of w body cfg rid st])
    case (miss req payload calls ts db')
    then have "answer (requestHash w (canonicalizeRequestBody body)) (ad_tables (gs_db st)) = None"
      by (simp add: answer_def)
    with miss(4,5) show ?thesis
      unfolding geocode_cache.put_missing_def st' by auto
  qed (simp_all add: geocode_cache.put_missing_def st')
qed

lemma geo_steps_keep:
  assumes "(geo_step ok)\<^sup>*\<^sup>* st st'" and "answer h (ad_tables (gs_db st)) = Some v"
  shows "answer h (ad_tables (gs_db st')) = Some v"
proof -
  have "geocode_cache.put_missing\<^sup>*\<^sup>* (ad_tables (gs_db st)) (ad_tables (gs_db st'))"
    using assms(1)
    by (induction rule: rtranclp_induct) (auto dest: geo_step_puts intro: rtranclp.rtrancl_into_rtrancl)
  then show ?thesis using assms(2) by (rule geocode_cache.steps_keep)
qed

text \<open>
  C18. Once a body was answered, every later request with a body that differs from it only in
  white space is answered with the same data and status, as a hit and without a call, whatever
  requests came in between and even if the mock switch or the key changed; only a failing lookup
  can prevent it.
\<close>

theorem geocode_answers_are_final:
  assumes "ValidateAddressV0 w cfg body rid st = (Inr (resp, status), st1)"
    and "(geo_step ok)\<^sup>*\<^sup>* st1 st2"
    and "canonicalizeRequestBody body' = canonicalizeRequestBody body"
    and "gw_fault w (ad_clock (gs_db st2)) = None" and "''google_maps_cache'' \<in> at_names (ad_tables (gs_db st2))"
  shows "\<exists>resp' st3. ValidateAddressV0 w cfg' body' rid' st2 = (Inr (resp', status), st3)
    \<and> go_Data resp' = go_Data resp \<and> go_CacheStatus resp' = ''HIT'' \<and> gs_calls st3 = gs_calls st2"
proof -
  let ?h = "requestHash w (canonicalizeRequestBody body)"
  have first: "answer ?h (ad_tables (gs_db st1)) = Some (go_Data resp)
      \<and> status = (if responseIsNotFound w (go_Data resp) then 404 else 200)
      \<and> (\<exists>req. gw_Unmarshal w (canonicalizeRequestBody body) = Inr req)"
    by (rule ValidateAddressV0_cases [of w body cfg rid st])
      (use assms(1) in \<open>auto simp: buildGeocodeResponse_def answer_def answer_upsert [unfolded answer_def]\<close>)
  then have kept: "answer ?h (ad_tables (gs_db st2)) = Some (go_Data resp)"
    using geo_steps_keep [OF assms(2)] by blast
  show ?thesis
    by (rule ValidateAddressV0_cases [of w body' cfg' rid' st2])
      (use first kept assms(3-5) in \<open>auto simp: buildGeocodeResponse_def answer_def\<close>)
qed

text \<open>
  A body that was first answered by the mock, \<open>demo_world\<close>'s geocoder being able to find it:
  with the mock switched off, the answer stays \<open>404\<close>.
\<close>

definition demo_time :: utc_time where
  "demo_time = \<lparr>t_year = 2026, t_month = 7, t_day = 29, t_hour = 5, t_minute = 8, t_second = 5, t_nanosecond = 0\<rparr>"

definition demo_world :: geo_world where
  "demo_world = \<lparr>gw_Sum256 = (\<lambda>s. take 2 s), gw_Unmarshal = (\<lambda>_. Inr \<lparr>gq_Address = ''Sukarasa''\<rparr>),
     gw_probe = (\<lambda>p. Some \<lparr>jp_Error = (p = mockNotFoundResponse), jp_Results = Some 1\<rparr>),
     gw_NewRequest = (\<lambda>_. None), gw_Do = (\<lambda>_ _ _. Answer 200 ''{results: [1]}''),
     gw_now = (\<lambda>_. demo_time), gw_fault = (\<lambda>_. None)\<rparr>"

definition demo_config :: "bool \<Rightarrow> geo_config" where
  "demo_config mock = \<lparr>googleMapsMock = mock, googleMapsAPIKey = ''k'', googleMapsBaseURL = ''https://maps/''\<rparr>"

definition demo_geo :: geo_state where
  "demo_geo = \<lparr>gs_db = \<lparr>ad_tables = \<lparr>at_names = {''google_maps_cache''}, at_requests = [], at_cache = []\<rparr>,
     ad_clock = 0\<rparr>, gs_calls = []\<rparr>"

lemma demo_mocked:
  "\<exists>st. ValidateAddressV0 demo_world (demo_config True) ''{ a }'' ''r1'' demo_geo
     = (Inr (\<lparr>go_Timestamp = format_RFC3339 demo_time, go_RequestID = ''r1'', go_CacheStatus = ''MISS'',
          go_Data = mockNotFoundResponse\<rparr>, 404), st)
   \<and> ''google_maps_cache'' \<in> at_names (ad_tables (gs_db st)) \<and> gs_calls st = []"
proof -
  have hash: "requestHash demo_world (canonicalizeRequestBody ''{ a }'') = ''7b20''" by code_simp
  have not_found: "responseIsNotFound demo_world mockNotFoundResponse" by code_simp
  show ?thesis
    by (simp add: ValidateAddressV0_def Let_def hash GetGoogleMapsCache_def UpsertGoogleMapsCache_def ad_statement_def
        active_row_def fetch_payload_def buildGeocodeResponse_def not_found upsert_row_def
        demo_world_def [THEN arg_cong [where f = gw_Unmarshal]] demo_world_def [THEN arg_cong [where f = gw_fault]]
        demo_world_def [THEN arg_cong [where f = gw_now]] demo_config_def demo_geo_def)
qed

theorem geocode_answers_are_final_witness:
  "\<exists>st1 resp st2. ValidateAddressV0 demo_world (demo_config False) ''{  a }'' ''r2'' st1 = (Inr (resp, 404), st2)
     \<and> go_Data resp = mockNotFoundResponse \<and> go_CacheStatus resp = ''HIT'' \<and> gs_calls st2 = []"
proof -
  obtain st where first: "ValidateAddressV0 demo_world (demo_config True) ''{ a }'' ''r1'' demo_geo
     = (Inr (\<lparr>go_Timestamp = format_RFC3339 demo_time, go_RequestID = ''r1'', go_CacheStatus = ''MISS'',
          go_Data = mockNotFoundResponse\<rparr>, 404), st)"
    and table: "''google_maps_cache'' \<in> at_names (ad_tables (gs_db st))" and none: "gs_calls st = []"
    using demo_mocked by blast
  have same: "canonicalizeRequestBody ''{  a }'' = canonicalizeRequestBody ''{ a }''" by code_simp
  have well: "gw_fault demo_world (ad_clock (gs_db st)) = None" by (simp add: demo_world_def)
  show ?thesis
    using geocode_answers_are_final [OF first rtranclp.rtrancl_refl [of "geo_step (\<lambda>_. True)"] same well table] none
    by fastforce
qed

end
