(* ===== verification/Telemetry.thy ===== *)
theory Telemetry
  imports Go_Strings
begin

text \<open>
  The labels of \<open>internal/telemetry/telemetry.go\<close>: how the names, methods, routes and status codes
  of spans are reduced to closed sets before they become metrics. The histogram of a span is
  modelled by its labels; the duration is the library's.
\<close>

section \<open>Closed sets\<close>

definition knownSpans :: "gostring list" where
  "knownSpans = [''http.request'', ''stage.source_and_cache_ready'', ''stage.evidence_resolution'',
     ''stage.candidate_build'', ''stage.contextual_recovery'', ''stage.candidate_evaluation'',
     ''stage.postal_code_fallback'']"

definition knownMethods :: "gostring list" where
  "knownMethods = [''GET'', ''POST'', ''PUT'', ''DELETE'', ''PATCH'', ''HEAD'', ''OPTIONS'']"

definition knownRoutes :: "gostring list" where
  "knownRoutes = [''/health'', ''/metrics'', ''/swagger/*'', ''/v0/validate'', ''/v1/validate'']"

definition BoundMethod :: "gostring \<Rightarrow> gostring" where
  "BoundMethod m = (if m \<in> set knownMethods then m else ''OTHER'')"

definition BoundRoute :: "gostring \<Rightarrow> gostring" where
  "BoundRoute route = (if route \<in> set knownRoutes then route else ''other'')"

definition boundedSpan :: "gostring \<Rightarrow> gostring" where
  "boundedSpan n = (if n \<in> set knownSpans then n else ''other'')"

section \<open>Spans\<close>

datatype attr_value = AttrString gostring | AttrInt int

datatype span_code = CodeUnset | CodeOk | CodeError

record span_record =
  sp_Name :: gostring
  sp_Attributes :: "(gostring \<times> attr_value) list"
  sp_Code :: span_code

fun statusClass :: "(gostring \<times> attr_value) list \<Rightarrow> gostring" where
  "statusClass [] = ''none''"
| "statusClass ((k, AttrString _) # attrs) = statusClass attrs"
| "statusClass ((k, AttrInt code) # attrs) =
     (if k \<noteq> ''http.response.status_code'' then statusClass attrs
      else if 200 \<le> code \<and> code < 300 then ''2xx''
      else if 300 \<le> code \<and> code < 400 then ''3xx''
      else if 400 \<le> code \<and> code < 500 then ''4xx''
      else if 500 \<le> code then ''5xx'' else ''other'')"

text \<open>The attributes under which \<open>OnEnd\<close> records the duration of a completed span.\<close>

definition OnEnd :: "span_record \<Rightarrow> (gostring \<times> gostring) list" where
  "OnEnd r =
     [(''span.name'', boundedSpan (sp_Name r)),
      (''span.status'', case sp_Code r of CodeOk \<Rightarrow> ''ok'' | CodeError \<Rightarrow> ''error'' | CodeUnset \<Rightarrow> ''unset''),
      (''http.status_class'', statusClass (sp_Attributes r))]"

text \<open>\<open>SetAttributes\<close> overwrites an attribute of the same key, or adds it.\<close>

definition set_attribute :: "gostring \<Rightarrow> attr_value \<Rightarrow> span_record \<Rightarrow> span_record" where
  "set_attribute k v r =
     (if k \<in> fst ` set (sp_Attributes r)
      then r\<lparr>sp_Attributes := map (\<lambda>(k', v'). if k' = k then (k', v) else (k', v')) (sp_Attributes r)\<rparr>
      else r\<lparr>sp_Attributes := sp_Attributes r @ [(k, v)]\<rparr>)"

text \<open>The exposition handler, before and after \<open>Init\<close>.\<close>

definition metrics_Handler :: "'r option \<Rightarrow> ('r \<Rightarrow> int \<times> gostring) \<Rightarrow> int \<times> gostring" where
  "metrics_Handler registry serve =
     (case registry of None \<Rightarrow> (503, ''telemetry not initialized'') | Some r \<Rightarrow> serve r)"

section \<open>The series are finitely many\<close>

definition series_labels :: "(gostring \<times> gostring) list list" where
  "series_labels =
     map (\<lambda>(n, s, c). [(''span.name'', n), (''span.status'', s), (''http.status_class'', c)])
       (List.product (knownSpans @ [''other''])
          (List.product [''ok'', ''error'', ''unset''] [''none'', ''2xx'', ''3xx'', ''4xx'', ''5xx'', ''other'']))"

lemma statusClass_closed: "statusClass attrs \<in> {''none'', ''2xx'', ''3xx'', ''4xx'', ''5xx'', ''other''}"
  by (induction attrs rule: statusClass.induct) auto

lemma OnEnd_closed: "OnEnd r \<in> set series_labels"
proof -
  have "boundedSpan (sp_Name r) \<in> set (knownSpans @ [''other''])" by (simp add: boundedSpan_def)
  moreover have "(case sp_Code r of CodeOk \<Rightarrow> ''ok'' | CodeError \<Rightarrow> ''error'' | CodeUnset \<Rightarrow> ''unset'')
      \<in> set [''ok'', ''error'', ''unset'']"
    by (cases "sp_Code r") simp_all
  moreover have "statusClass (sp_Attributes r) \<in> set [''none'', ''2xx'', ''3xx'', ''4xx'', ''5xx'', ''other'']"
    using statusClass_closed [of "sp_Attributes r"] by simp
  ultimately show ?thesis unfolding OnEnd_def series_labels_def set_map set_product
    by (intro image_eqI [of _ _ "(boundedSpan (sp_Name r),
        case sp_Code r of CodeOk \<Rightarrow> ''ok'' | CodeError \<Rightarrow> ''error'' | CodeUnset \<Rightarrow> ''unset'',
        statusClass (sp_Attributes r))"]) (simp_all only: mem_Sigma_iff prod.case)
qed

lemma length_series_labels: "length series_labels = 144"
  by code_simp

end
