(* ===== verification/Http_Service.thy ===== *)
theory Http_Service
  imports Validate_V1 Geocode Server_Config Telemetry
begin

text \<open>
  The HTTP layer: \<open>internal/handler\<close>, \<open>internal/middleware\<close>, \<open>internal/router\<close> and the request
  middleware of \<open>internal/logger\<close>. The framework Echo is an argument as far as it decides something: binding
  and reading a body, the size limit, CORS, matching a route; so is the library behind the rate
  limiter. A handler is a function of the request and the server's state, a middleware one from handlers to
  handlers.
\<close>

section \<open>Requests and responses\<close>

text \<open>\<open>hq_RequestID\<close> is the value that the middleware \<open>RequestID\<close> puts into the context.\<close>

record http_request =
  hq_Method :: gostring
  hq_Path :: gostring
  hq_RemoteAddr :: gostring
  hq_APIKey :: gostring
  hq_Body :: gostring
  hq_RequestID :: "gostring option"

record health_response =
  he_Status :: gostring
  he_Database :: gostring
  he_LocationDatabase :: gostring
  he_Postgres :: gostring

record error_response =
  er_Timestamp :: gostring
  er_RequestID :: gostring
  er_Error :: gostring

datatype http_body =
    HealthBody health_response
  | ErrorBody error_response
  | AddressBody address_response
  | GeocodeBody geocode_response
  | MapBody "(gostring \<times> gostring) list"
  | RawBody gostring

datatype handler_error = HTTPError int | OtherError gostring

text \<open>
  What a handler leaves: the error it returns, and the response as it stands then, with Echo's
  status 200 where nothing was written; and the request identifier that Echo's context has by
  then, where every middleware can read it.
\<close>

record http_outcome =
  oc_Err :: "handler_error option"
  oc_Status :: int
  oc_Header :: "(gostring \<times> gostring) list"
  oc_Body :: "http_body option"
  oc_RequestID :: "gostring option"

record log_event =
  lo_Level :: gostring
  lo_RequestID :: gostring
  lo_Status :: int

record server =
  sv_config :: config
  sv_connections :: connections
  sv_service :: service
  sv_queue :: "address_record queue"
  sv_geo :: geo_state
  sv_spans :: "span_record list"
  sv_log :: "log_event list"

text \<open>The surroundings of one request.\<close>

record http_world =
  hw_env :: environment
  hw_repo :: location_repository
  hw_geo :: geo_world
  hw_uuid :: gostring
  hw_lite :: driver
  hw_postgres :: driver
  hw_ReadAll :: "gostring \<Rightarrow> gostring option"
  hw_BindAddress :: "gostring \<Rightarrow> gostring + address_request"
  hw_BindGeocode :: "gostring \<Rightarrow> gostring + geocode_request"
  hw_valid_JSON :: "gostring \<Rightarrow> bool"
  hw_within_limit :: "gostring \<Rightarrow> gostring \<Rightarrow> bool"
  hw_admits :: "gostring \<Rightarrow> bool"
  hw_CORS :: "gostring list \<Rightarrow> http_request \<Rightarrow> http_outcome option"
  hw_matches :: "gostring \<Rightarrow> gostring \<Rightarrow> bool"
  hw_unrouted :: "http_request \<Rightarrow> http_outcome \<times> gostring"
  hw_library :: "gostring \<Rightarrow> http_outcome"

type_synonym handler = "http_world \<Rightarrow> http_request \<Rightarrow> server \<Rightarrow> http_outcome \<times> server"
type_synonym middleware = "handler \<Rightarrow> handler"

text \<open>
  \<open>c.JSON\<close>: the status is set, then the body is encoded, which fails on a raw message that is
  no JSON.
\<close>

definition encodable :: "http_world \<Rightarrow> http_body \<Rightarrow> bool" where
  "encodable w body = (case body of GeocodeBody g \<Rightarrow> hw_valid_JSON w (go_Data g) | _ \<Rightarrow> True)"

definition c_JSON :: "http_world \<Rightarrow> int \<Rightarrow> http_body \<Rightarrow> http_outcome" where
  "c_JSON w status body =
     (if encodable w body then \<lparr>oc_Err = None, oc_Status = status, oc_Header = [], oc_Body = Some body, oc_RequestID = None\<rparr>
      else \<lparr>oc_Err = Some (OtherError ''json''), oc_Status = status, oc_Header = [], oc_Body = None, oc_RequestID = None\<rparr>)"

definition returned :: "handler_error \<Rightarrow> http_outcome" where
  "returned err = \<lparr>oc_Err = Some err, oc_Status = 200, oc_Header = [], oc_Body = None, oc_RequestID = None\<rparr>"

section \<open>Handlers\<close>

definition GetRequestID :: "gostring option \<Rightarrow> gostring" where
  "GetRequestID ctx = (case ctx of None \<Rightarrow> [] | Some i \<Rightarrow> i)"

definition HandleHealthCheck :: handler where
  "HandleHealthCheck w req sv =
     (let (status, err) = service_Ping (hw_lite w) (hw_postgres w) (sv_connections sv);
          resp = \<lparr>he_Status = ''ok'', he_Database = st_Database status,
            he_LocationDatabase = st_LocationDatabase status, he_Postgres = st_Postgres status\<rparr>
      in (if err \<noteq> None then c_JSON w 503 (HealthBody (resp\<lparr>he_Status := ''error''\<rparr>)) else c_JSON w 200 (HealthBody resp), sv))"

definition errorResponse :: "http_world \<Rightarrow> int \<Rightarrow> gostring \<Rightarrow> gostring \<Rightarrow> http_outcome" where
  "errorResponse w status msg requestID =
     c_JSON w status (ErrorBody \<lparr>er_Timestamp = format_RFC3339 (env_now (hw_env w)), er_RequestID = requestID, er_Error = msg\<rparr>)"

text \<open>The text of \<open>errors.Join(ErrValidation, err)\<close> has a line for each.\<close>

definition joined_text :: "gostring \<Rightarrow> gostring" where
  "joined_text m = ''validation error'' @ [newline] @ m"

definition HandleAddressRequest :: handler where
  "HandleAddressRequest w req sv =
     (let requestID = GetRequestID (hq_RequestID req) in
      case hw_BindAddress w (hq_Body req) of
        Inl _ \<Rightarrow> (errorResponse w 400 ''invalid request body'' requestID, sv)
      | Inr r \<Rightarrow>
          (let (res, svc, q) = ValidateAddressV1 (hw_env w) (hw_repo w) r requestID (sv_service sv, sv_queue sv);
               sv = sv\<lparr>sv_service := svc, sv_queue := q\<rparr>
           in case res of
                Inl (ErrValidation m) \<Rightarrow> (errorResponse w 400 (joined_text m) requestID, sv)
              | Inl (RepositoryError err) \<Rightarrow> (errorResponse w 500 ''failed to store record'' requestID, sv)
              | Inr resp \<Rightarrow> (c_JSON w 200 (AddressBody resp), sv)))"

definition geo_config_of :: "config \<Rightarrow> geo_config" where
  "geo_config_of cfg = \<lparr>googleMapsMock = cf_GoogleMapsAPIMock cfg, googleMapsAPIKey = cf_GoogleMapsAPIKey cfg,
     googleMapsBaseURL = cf_GoogleMapsBaseURL cfg\<rparr>"

definition HandleGeocodeRequest :: handler where
  "HandleGeocodeRequest w req sv =
     (let requestID = GetRequestID (hq_RequestID req) in
      case hw_ReadAll w (hq_Body req) of
        None \<Rightarrow> (errorResponse w 400 ''invalid request body'' requestID, sv)
      | Some rawBody \<Rightarrow>
          (case hw_BindGeocode w rawBody of
             Inl _ \<Rightarrow> (errorResponse w 400 ''invalid request body'' requestID, sv)
           | Inr r \<Rightarrow>
               (case GeocodeRequest_Validate (maxAddressLength (sv_service sv)) r of
                  Some m \<Rightarrow> (errorResponse w 400 m requestID, sv)
                | None \<Rightarrow>
                    (let (res, geo) = ValidateAddressV0 (hw_geo w) (geo_config_of (sv_config sv)) rawBody requestID (sv_geo sv);
                         sv = sv\<lparr>sv_geo := geo\<rparr>
                     in case res of
                          Inl (_, V0Validation m) \<Rightarrow> (errorResponse w 400 (joined_text m) requestID, sv)
                        | Inl (_, V0Error err) \<Rightarrow> (errorResponse w 500 ''failed to geocode address'' requestID, sv)
                        | Inr (resp, status) \<Rightarrow> (c_JSON w status (GeocodeBody resp), sv)))))"

section \<open>Middlewares\<close>

definition APIKeyAuth :: "gostring \<Rightarrow> middleware" where
  "APIKeyAuth secret next w req sv =
     (if secret = [] then next w req sv
      else if hq_APIKey req \<noteq> secret
      then (c_JSON w 401 (MapBody [(''error'', ''invalid or missing API key'')]), sv)
      else next w req sv)"

definition RequestID :: middleware where
  "RequestID next w req sv =
     (let (out, sv) = next w (req\<lparr>hq_RequestID := Some (hw_uuid w)\<rparr>) sv
      in (out\<lparr>oc_RequestID := Some (hw_uuid w)\<rparr>, sv))"

text \<open>The last colon of the remote address and what follows it are cut off, if there is one.\<close>

definition strings_LastIndex :: "char \<Rightarrow> gostring \<Rightarrow> nat option" where
  "strings_LastIndex c s =
     (if c \<in> set s then Some (length s - Suc (length (takeWhile (\<lambda>d. d \<noteq> c) (rev s)))) else None)"

definition KeyFunc :: "http_request \<Rightarrow> gostring" where
  "KeyFunc req =
     (let ip = hq_RemoteAddr req;
          ip = (case strings_LastIndex (CHR '':'') ip of Some idx \<Rightarrow> take idx ip | None \<Rightarrow> ip)
      in ip @ '':'' @ hq_APIKey req)"

definition RateLimiter :: "int \<Rightarrow> middleware" where
  "RateLimiter windowSec next w req sv =
     (if hw_admits w (KeyFunc req) then next w req sv
      else (\<lparr>oc_Err = None, oc_Status = 429,
        oc_Header = [(''Content-Type'', ''application/json''), (''Retry-After'', int_d windowSec)],
        oc_Body = Some (RawBody (''{'' @ quoted_name ''error'' @ '':'' @ quoted_name ''rate limit exceeded'' @ '',''
          @ quoted_name ''retry_after'' @ '':'' @ int_d windowSec @ ''}'')), oc_RequestID = None\<rparr>, sv))"

definition BodyLimit :: "gostring \<Rightarrow> middleware" where
  "BodyLimit maxBodySize next w req sv =
     (if hw_within_limit w maxBodySize (hq_Body req) then next w req sv else (returned (HTTPError 413), sv))"

definition CORS :: "gostring list \<Rightarrow> middleware" where
  "CORS origins next w req sv = (case hw_CORS w origins req of Some out \<Rightarrow> (out, sv) | None \<Rightarrow> next w req sv)"

text \<open>
  The request's span and log line. \<open>route\<close> is \<open>c.Path()\<close>, the template of the route or empty.
  The status of the span is the one the client will get; the log has the response's as it is
  when the handler returns.
\<close>

definition EchoMiddleware :: "gostring \<Rightarrow> middleware" where
  "EchoMiddleware route next w req sv =
     (let span = \<lparr>sp_Name = ''http.request'',
            sp_Attributes = [(''http.request.method'', AttrString (BoundMethod (hq_Method req))),
              (''http.route'', AttrString (BoundRoute route))], sp_Code = CodeUnset\<rparr>;
          (res, sv) = next w req sv;
          status = (if oc_Status res = 0 then 200 else oc_Status res);
          status = (case oc_Err res of None \<Rightarrow> status | Some (HTTPError code) \<Rightarrow> code | Some (OtherError _) \<Rightarrow> 500);
          span = set_attribute ''http.response.status_code'' (AttrInt status) span;
          span = (if 500 \<le> status then span\<lparr>sp_Code := CodeError\<rparr> else span);
          level = (if 500 \<le> oc_Status res then ''error'' else if 400 \<le> oc_Status res then ''warn'' else ''info'')
      in (res, sv\<lparr>sv_spans := sv_spans sv @ [span],
            sv_log := sv_log sv @ [\<lparr>lo_Level = level, lo_RequestID = GetRequestID (oc_RequestID res), lo_Status = oc_Status res\<rparr>]\<rparr>))"

section \<open>The routes\<close>

definition api_group :: "config \<Rightarrow> middleware" where
  "api_group cfg next =
     BodyLimit (cf_MaxBodySize cfg) (APIKeyAuth (cf_APIKey cfg) (RateLimiter (cf_RateWindow cfg) (RequestID next)))"

definition library_handler :: "gostring \<Rightarrow> handler" where
  "library_handler n w req sv = (hw_library w n, sv)"

definition Setup :: "config \<Rightarrow> ((gostring \<times> gostring) \<times> handler) list" where
  "Setup cfg =
     [((''GET'', ''/health''), HandleHealthCheck),
      ((''GET'', ''/swagger/*''), library_handler ''swagger''),
      ((''POST'', ''/v0/validate''), api_group cfg HandleGeocodeRequest),
      ((''POST'', ''/v1/validate''), api_group cfg HandleAddressRequest)]
     @ (if cf_EnableMetrics cfg then [((''GET'', ''/metrics''), library_handler ''metrics'')] else [])"

text \<open>Echo's dispatch: the route for method and path, or Echo's own answer with its path.\<close>

definition find_route :: "http_world \<Rightarrow> config \<Rightarrow> http_request \<Rightarrow> ((gostring \<times> gostring) \<times> handler) option" where
  "find_route w cfg req =
     find (\<lambda>((meth, template), _). meth = hq_Method req \<and> hw_matches w template (hq_Path req)) (Setup cfg)"

definition serve :: handler where
  "serve w req sv =
     (let (route, endpoint) = (case find_route w (sv_config sv) req of
            None \<Rightarrow> (snd (hw_unrouted w req), (\<lambda>w req sv. (fst (hw_unrouted w req), sv)))
          | Some ((_, template), h) \<Rightarrow> (template, h))
      in EchoMiddleware route (CORS (cf_AllowedOrigins (sv_config sv)) endpoint) w req sv)"

text \<open>
  What the client gets in the end: Echo answers a returned error with its code or with 500, and
  a response without a status goes out as 200.
\<close>

definition client_status :: "http_outcome \<Rightarrow> int" where
  "client_status out =
     (case oc_Err out of
        None \<Rightarrow> if oc_Status out = 0 then 200 else oc_Status out
      | Some (HTTPError code) \<Rightarrow> code
      | Some (OtherError _) \<Rightarrow> 500)"

end
