(* ===== verification/Http_Laws.thy ===== *)
theory Http_Laws
  imports Http_Service Validate_Laws
begin

text \<open>
  Properties of the HTTP layer: who gets past the key, which status an outcome of the service
  becomes, what the metrics see of a request, the buckets of the rate limiter and the health check.
\<close>

section \<open>The state a request works on\<close>

text \<open>The server without what the log and the metrics record.\<close>

definition core :: "server \<Rightarrow> config \<times> connections \<times> service \<times> address_record queue \<times> geo_state" where
  "core sv = (sv_config sv, sv_connections sv, sv_service sv, sv_queue sv, sv_geo sv)"

lemma EchoMiddleware_fst [simp]: "fst (EchoMiddleware route next w req sv) = fst (next w req sv)"
  by (simp add: EchoMiddleware_def Let_def split: prod.split)

lemma EchoMiddleware_core [simp]: "core (snd (EchoMiddleware route next w req sv)) = core (snd (next w req sv))"
  by (simp add: EchoMiddleware_def Let_def core_def split: prod.split)

lemma CORS_answers [simp]:
  "hw_CORS w origins req = None \<Longrightarrow> CORS origins next w req sv = next w req sv"
  "hw_CORS w origins req = Some out \<Longrightarrow> CORS origins next w req sv = (out, sv)"
  by (simp_all add: CORS_def)

text \<open>A handler that only reads, and one that the group of the API guards.\<close>

definition unchanging :: "(http_world \<Rightarrow> http_request \<Rightarrow> server \<Rightarrow> http_outcome \<times> server) \<Rightarrow> bool" where
  "unchanging h \<longleftrightarrow> (\<forall>w req sv. snd (h w req sv) = sv)"

lemma unchanging_health: "unchanging HandleHealthCheck"
  by (simp add: unchanging_def HandleHealthCheck_def Let_def split: prod.split)

lemma unchanging_library: "unchanging (library_handler n)"
  by (simp add: unchanging_def library_handler_def)

lemma api_group_refuses:
  assumes "cf_APIKey cfg \<noteq> []" and "hq_APIKey req \<noteq> cf_APIKey cfg"
  shows "api_group cfg h w req sv
    = ((if hw_within_limit w (cf_MaxBodySize cfg) (hq_Body req)
        then c_JSON w 401 (MapBody [(''error'', ''invalid or missing API key'')]) else returned (HTTPError 413)), sv)"
  using assms by (simp add: api_group_def BodyLimit_def APIKeyAuth_def)

lemma Setup_handlers:
  "(r, h) \<in> set (Setup cfg) \<Longrightarrow> fst r \<noteq> ''POST'' \<and> unchanging h \<or> (\<exists>h'. h = api_group cfg h')"
  by (auto simp: Setup_def unchanging_health unchanging_library split: if_splits)

lemma find_route_in: "find_route w cfg req = Some (r, h) \<Longrightarrow> (r, h) \<in> set (Setup cfg)"
  by (auto simp: find_route_def find_Some_iff intro: nth_mem dest: sym)

text \<open>
  C21. With a key configured, a request without it changes nothing of the service, its queue and
  the geocoder and makes no call upstream, whatever its method and path; an address or geocoding request
  that neither CORS nor the size limit answers is refused with 401.
\<close>

theorem api_key_guard:
  assumes "cf_APIKey (sv_config sv) \<noteq> []" and "hq_APIKey req \<noteq> cf_APIKey (sv_config sv)"
  shows "core (snd (serve w req sv)) = core sv
    \<and> (\<forall>r h. find_route w (sv_config sv) req = Some (r, h) \<longrightarrow> fst r = ''POST'' \<longrightarrow>
         hw_CORS w (cf_AllowedOrigins (sv_config sv)) req = None \<longrightarrow>
         hw_within_limit w (cf_MaxBodySize (sv_config sv)) (hq_Body req) \<longrightarrow>
         client_status (fst (serve w req sv)) = 401)"
proof -
  let ?cfg = "sv_config sv"
  have refused: "api_group ?cfg h w req sv
      = ((if hw_within_limit w (cf_MaxBodySize ?cfg) (hq_Body req)
          then c_JSON w 401 (MapBody [(''error'', ''invalid or missing API key'')]) else returned (HTTPError 413)), sv)" for h
    using assms by (rule api_group_refuses)
  have same: "snd (CORS origins h w req sv) = sv" if "unchanging h \<or> (\<exists>h'. h = api_group ?cfg h')" for origins h
    using that refused by (cases "hw_CORS w origins req") (auto simp: unchanging_def)
  show ?thesis
  proof (cases "find_route w ?cfg req")
    case None
    then have "core (snd (serve w req sv)) = core sv"
      by (simp add: serve_def Let_def CORS_def split: option.splits)
    with None show ?thesis by simp
  next
    case (Some rh)
    obtain r h where rh: "rh = (r, h)" by (cases rh)
    then have guarded: "fst r \<noteq> ''POST'' \<and> unchanging h \<or> (\<exists>h'. h = api_group ?cfg h')"
      using Some Setup_handlers find_route_in by blast
    then have "snd (CORS origins h w req sv) = sv" for origins using same by blast
    then have "core (snd (serve w req sv)) = core sv"
      using Some by (simp add: serve_def rh split: prod.split)
    moreover have "client_status (fst (serve w req sv)) = 401"
      if "fst r = ''POST''" and "hw_CORS w (cf_AllowedOrigins ?cfg) req = None"
        and "hw_within_limit w (cf_MaxBodySize ?cfg) (hq_Body req)"
      using Some guarded that refused
      by (auto simp: serve_def rh c_JSON_def encodable_def client_status_def split: prod.split)
    ultimately show ?thesis using Some rh by simp
  qed
qed

section \<open>Statuses of the two services\<close>

text \<open>A request that reaches the handler of an API route.\<close>

definition admitted :: "http_world \<Rightarrow> config \<Rightarrow> http_request \<Rightarrow> gostring \<Rightarrow> handler \<Rightarrow> bool" where
  "admitted w cfg req template h \<longleftrightarrow>
     find_route w cfg req = Some ((''POST'', template), api_group cfg h)
   \<and> hw_CORS w (cf_AllowedOrigins cfg) req = None \<and> hw_within_limit w (cf_MaxBodySize cfg) (hq_Body req)
   \<and> (cf_APIKey cfg = [] \<or> hq_APIKey req = cf_APIKey cfg) \<and> hw_admits w (KeyFunc req)"

lemma admitted_group:
  assumes "admitted w (sv_config sv) req template h"
  shows "serve w req sv = EchoMiddleware template (RequestID h) w req sv"
proof -
  have "api_group (sv_config sv) h w req sv = RequestID h w req sv"
    using assms by (auto simp: admitted_def api_group_def BodyLimit_def APIKeyAuth_def RateLimiter_def)
  then have "CORS (cf_AllowedOrigins (sv_config sv)) (api_group (sv_config sv) h) w req sv = RequestID h w req sv"
    using assms by (simp add: admitted_def)
  then show ?thesis using assms by (simp add: serve_def admitted_def EchoMiddleware_def)
qed

definition error_body :: "http_world \<Rightarrow> gostring \<Rightarrow> http_body" where
  "error_body w m = ErrorBody \<lparr>er_Timestamp = format_RFC3339 (env_now (hw_env w)), er_RequestID = hw_uuid w, er_Error = m\<rparr>"

text \<open>What the client sees of an outcome: the status and the body.\<close>

definition answers :: "http_outcome \<times> server \<Rightarrow> int \<Rightarrow> http_body \<Rightarrow> bool" where
  "answers res code body \<longleftrightarrow> client_status (fst res) = code \<and> oc_Err (fst res) = None \<and> oc_Body (fst res) = Some body"

text \<open>
  C22. A request that reaches \<open>/v1/validate\<close> is answered with 400 if its body cannot be bound or
  fails the check, and nothing changes; with 500 if the pipeline ends with an error of the repository, of which the
  client learns nothing; and otherwise with 200 and the response of the pipeline. The
  identifier of the response is the one made for this request, and the state is that of the pipeline.
\<close>

theorem validate_statuses:
  assumes "admitted w (sv_config sv) req ''/v1/validate'' HandleAddressRequest"
  shows "let res = serve w req sv in
    case hw_BindAddress w (hq_Body req) of
      Inl _ \<Rightarrow> answers res 400 (error_body w ''invalid request body'') \<and> core (snd res) = core sv
    | Inr r \<Rightarrow>
        (case AddressRequest_Validate (maxAddressLength (sv_service sv)) r of
           Some m \<Rightarrow> answers res 400 (error_body w (joined_text m)) \<and> core (snd res) = core sv
         | None \<Rightarrow>
             (case ValidateAddressV1 (hw_env w) (hw_repo w) r (hw_uuid w) (sv_service sv, sv_queue sv) of
                (Inl err, svc, q) \<Rightarrow> answers res 500 (error_body w ''failed to store record'')
                  \<and> core (snd res) = core (sv\<lparr>sv_service := svc, sv_queue := q\<rparr>)
              | (Inr resp, svc, q) \<Rightarrow> answers res 200 (AddressBody resp) \<and> ar_RequestID resp = hw_uuid w
                  \<and> core (snd res) = core (sv\<lparr>sv_service := svc, sv_queue := q\<rparr>)))"
proof -
  have run: "serve w req sv = EchoMiddleware ''/v1/validate'' (RequestID HandleAddressRequest) w req sv"
    using assms by (rule admitted_group)
  note eqs = answers_def RequestID_def HandleAddressRequest_def GetRequestID_def errorResponse_def error_body_def
    c_JSON_def encodable_def client_status_def core_def
  show ?thesis
  proof (cases "hw_BindAddress w (hq_Body req)")
    case (Inl err)
    then show ?thesis unfolding run Let_def answers_def EchoMiddleware_fst EchoMiddleware_core by (simp add: eqs)
  next
    case (Inr r)
    obtain res svc q where v1: "ValidateAddressV1 (hw_env w) (hw_repo w) r (hw_uuid w) (sv_service sv, sv_queue sv) = (res, svc, q)"
      by (rule prod_cases3)
    have outcome: "case (res, svc, q) of
        (Inl (ErrValidation m), svc', q') \<Rightarrow>
          AddressRequest_Validate (maxAddressLength (sv_service sv)) r = Some m \<and> svc' = sv_service sv \<and> q' = sv_queue sv
      | (Inl (RepositoryError err), svc', q') \<Rightarrow> AddressRequest_Validate (maxAddressLength (sv_service sv)) r = None
      | (Inr resp, svc', q') \<Rightarrow>
          AddressRequest_Validate (maxAddressLength (sv_service sv)) r = None \<and> ar_RequestID resp = hw_uuid w"
      using v1_outcome [where env = "hw_env w" and repo = "hw_repo w" and req = r and rid = "hw_uuid w"
          and svc = "sv_service sv" and q = "sv_queue sv"]
      unfolding v1 by (auto split: sum.splits v1_error.splits)
    show ?thesis
    proof (cases res)
      case left: (Inl err)
      show ?thesis
        using outcome unfolding run Let_def answers_def EchoMiddleware_fst EchoMiddleware_core
        by (cases err) (simp_all add: eqs Inr v1 left)
    next
      case right: (Inr resp)
      show ?thesis
        using outcome unfolding run Let_def answers_def EchoMiddleware_fst EchoMiddleware_core
        by (simp add: eqs Inr v1 right)
    qed
  qed
qed

text \<open>
  A request that reaches \<open>/v0/validate\<close> is answered with 400 if its body cannot be read, bound
  or parsed or fails the check; with 500 and a fixed text if the cache or the call failed; and
  otherwise with the status and the payload that the geocoder decided on. A payload that is no JSON cannot be
  sent: the client gets 500, although the payload stays in the cache.
\<close>

theorem geocode_statuses:
  assumes "admitted w (sv_config sv) req ''/v0/validate'' HandleGeocodeRequest"
  shows "let res = serve w req sv in
    case hw_ReadAll w (hq_Body req) of
      None \<Rightarrow> answers res 400 (error_body w ''invalid request body'') \<and> core (snd res) = core sv
    | Some raw \<Rightarrow>
        (case hw_BindGeocode w raw of
           Inl _ \<Rightarrow> answers res 400 (error_body w ''invalid request body'') \<and> core (snd res) = core sv
         | Inr r \<Rightarrow>
             (case GeocodeRequest_Validate (maxAddressLength (sv_service sv)) r of
                Some m \<Rightarrow> answers res 400 (error_body w m) \<and> core (snd res) = core sv
              | None \<Rightarrow>
                  (case ValidateAddressV0 (hw_geo w) (geo_config_of (sv_config sv)) raw (hw_uuid w) (sv_geo sv) of
                     (out, geo) \<Rightarrow> core (snd res) = core (sv\<lparr>sv_geo := geo\<rparr>)
                       \<and> (case out of
                            Inl (_, V0Validation m) \<Rightarrow> answers res 400 (error_body w (joined_text m))
                          | Inl (_, V0Error err) \<Rightarrow> answers res 500 (error_body w ''failed to geocode address'')
                          | Inr (resp, status) \<Rightarrow>
                              if hw_valid_JSON w (go_Data resp) then answers res status (GeocodeBody resp)
                              else client_status (fst res) = 500 \<and> oc_Body (fst res) = None))))"
proof -
  have run: "serve w req sv = EchoMiddleware ''/v0/validate'' (RequestID HandleGeocodeRequest) w req sv"
    using assms by (rule admitted_group)
  define out where "out raw = fst (ValidateAddressV0 (hw_geo w) (geo_config_of (sv_config sv)) raw (hw_uuid w) (sv_geo sv))" for raw
  define geo where "geo raw = snd (ValidateAddressV0 (hw_geo w) (geo_config_of (sv_config sv)) raw (hw_uuid w) (sv_geo sv))" for raw
  have v0: "ValidateAddressV0 (hw_geo w) (geo_config_of (sv_config sv)) raw (hw_uuid w) (sv_geo sv) = (out raw, geo raw)" for raw
    by (simp add: out_def geo_def)
  have status: "status \<noteq> 0" if "out raw = Inr (resp, status)" for raw resp status
    by (rule ValidateAddressV0_cases [of "hw_geo w" raw "geo_config_of (sv_config sv)" "hw_uuid w" "sv_geo sv"])
      (use v0 [of raw] that in \<open>auto simp: buildGeocodeResponse_def split: if_splits\<close>)
  note eqs = answers_def RequestID_def HandleGeocodeRequest_def GetRequestID_def errorResponse_def error_body_def
    c_JSON_def encodable_def client_status_def core_def v0 Let_def
  show ?thesis
    unfolding run Let_def answers_def EchoMiddleware_fst EchoMiddleware_core
    by (auto simp: eqs dest: status split: option.split sum.split v0_error.split)
qed

section \<open>Metrics of a request\<close>

text \<open>Below the request middleware no handler records a span of a request.\<close>

definition quiet :: "(http_world \<Rightarrow> http_request \<Rightarrow> server \<Rightarrow> http_outcome \<times> server) \<Rightarrow> bool" where
  "quiet h \<longleftrightarrow> (\<forall>w req sv. sv_spans (snd (h w req sv)) = sv_spans sv)"

lemma quiet_handlers:
  "quiet HandleHealthCheck" "quiet (library_handler n)" "quiet HandleAddressRequest" "quiet HandleGeocodeRequest"
  by (simp_all add: quiet_def HandleHealthCheck_def library_handler_def HandleAddressRequest_def HandleGeocodeRequest_def
      Let_def split: prod.split sum.split v1_error.split v0_error.split option.split)

lemma quiet_middlewares:
  assumes "quiet h"
  shows "quiet (api_group cfg h)" and "quiet (CORS origins h)"
  using assms
  by (simp_all add: quiet_def api_group_def BodyLimit_def APIKeyAuth_def RateLimiter_def RequestID_def CORS_def Let_def
      case_prod_unfold split: option.split)

lemma quiet_routes: "(r, h) \<in> set (Setup cfg) \<Longrightarrow> quiet h"
  by (auto simp: Setup_def quiet_handlers quiet_middlewares split: if_splits)

lemma EchoMiddleware_span:
  assumes "quiet next"
  shows "let (out, sv') = EchoMiddleware route next w req sv in
    \<exists>sp. sv_spans sv' = sv_spans sv @ [sp]
      \<and> statusClass (sp_Attributes sp) = statusClass [(''http.response.status_code'', AttrInt (client_status out))]
      \<and> (sp_Code sp = CodeError \<longleftrightarrow> 500 \<le> client_status out) \<and> sp_Name sp = ''http.request''"
proof -
  obtain out sv1 where run: "next w req sv = (out, sv1)" by (cases "next w req sv")
  then have "sv_spans sv1 = sv_spans sv" using assms by (metis quiet_def snd_conv)
  then show ?thesis
    by (auto simp: EchoMiddleware_def run Let_def client_status_def set_attribute_def
        split: option.split handler_error.split)
qed

text \<open>
  Every request leaves one span of its own. Its labels are among the 144 series, whatever the method,
  path and outcome; its status class and error flag are those of the status that the client gets.
\<close>

theorem request_series:
  "let (out, sv') = serve w req sv in
   \<exists>sp. sv_spans sv' = sv_spans sv @ [sp] \<and> OnEnd sp \<in> set series_labels \<and> length series_labels = 144
     \<and> statusClass (sp_Attributes sp) = statusClass [(''http.response.status_code'', AttrInt (client_status out))]
     \<and> (sp_Code sp = CodeError \<longleftrightarrow> 500 \<le> client_status out)
     \<and> sp_Name sp = ''http.request''"
proof -
  obtain route h where run: "serve w req sv = EchoMiddleware route h w req sv" and "quiet h"
  proof (cases "find_route w (sv_config sv) req")
    case None
    have "quiet (CORS (cf_AllowedOrigins (sv_config sv)) (\<lambda>w req sv. (fst (hw_unrouted w req), sv)))"
      by (rule quiet_middlewares) (simp add: quiet_def)
    with None that show ?thesis by (simp add: serve_def)
  next
    case (Some rh)
    then have "quiet (CORS (cf_AllowedOrigins (sv_config sv)) (snd rh))"
      using quiet_routes [of "fst rh" "snd rh" "sv_config sv"] find_route_in [of w "sv_config sv" req "fst rh" "snd rh"]
      by (intro quiet_middlewares(2)) simp
    with Some that show ?thesis by (cases rh; cases "fst rh") (simp add: serve_def)
  qed
  show ?thesis
    using EchoMiddleware_span [OF \<open>quiet h\<close>, of route w req sv] unfolding run
    by (auto simp: OnEnd_closed length_series_labels split: prod.splits)
qed

section \<open>Buckets of the rate limiter\<close>

lemma LastIndex_last:
  assumes "c \<notin> set port"
  shows "strings_LastIndex c (ip @ c # port) = Some (length ip)"
proof -
  have "takeWhile (\<lambda>d. d \<noteq> c) (rev port @ c # rev ip) = rev port"
    using assms by (simp add: takeWhile_append)
  then show ?thesis by (simp add: strings_LastIndex_def)
qed

lemma KeyFunc_host_port:
  assumes "hq_RemoteAddr req = ip @ CHR '':'' # port" and "CHR '':'' \<notin> set port"
  shows "KeyFunc req = ip @ CHR '':'' # hq_APIKey req"
  using LastIndex_last [OF assms(2), of ip] by (simp add: KeyFunc_def assms(1))

text \<open>
  Two requests with addresses of the form host and port share a bucket of the limiter exactly if
  they have the same host and the same key header, whatever their ports; with another header the
  same host has another bucket.
\<close>

theorem rate_limit_buckets:
  assumes "hq_RemoteAddr a = ip @ CHR '':'' # port" and "CHR '':'' \<notin> set port"
    and "hq_RemoteAddr b = ip' @ CHR '':'' # port'" and "CHR '':'' \<notin> set port'"
    and "CHR '':'' \<notin> set (hq_APIKey a)" and "CHR '':'' \<notin> set (hq_APIKey b)"
  shows "KeyFunc a = KeyFunc b \<longleftrightarrow> ip = ip' \<and> hq_APIKey a = hq_APIKey b"
  using assms(5,6) LastIndex_last [of "CHR '':''" "hq_APIKey a" ip] LastIndex_last [of "CHR '':''" "hq_APIKey b" ip']
  unfolding KeyFunc_host_port [OF assms(1,2)] KeyFunc_host_port [OF assms(3,4)]
  by (auto simp: append_eq_append_conv)

section \<open>Health\<close>

text \<open>
  On the connections that the start of the server opened, the health check answers 200
  exactly if both SQLite databases can be reached, and reports Postgres without minding it: as
  disabled if it is not configured or could not be opened at the start.
\<close>

theorem health_of_databases:
  assumes "open_databases lite pg cfg = Inr c" and "sv_connections sv = c"
  shows "let out = fst (HandleHealthCheck w req sv);
      up = (dr_Ping (hw_lite w) (cn_repo c) = None \<and> dr_Ping (hw_lite w) (cn_location c) = None);
      disabled = (\<not> PostgresEnabled cfg \<or> dr_Open pg (cf_PostgresDSN cfg) \<noteq> None)
    in client_status out = (if up then 200 else 503)
     \<and> (\<exists>h. oc_Body out = Some (HealthBody h) \<and> he_Status h = (if up then ''ok'' else ''error'')
         \<and> he_Postgres h = (if disabled then ''disabled''
             else if dr_Ping (hw_postgres w) (cf_PostgresDSN cfg) = None then ''ok'' else ''error''))"
proof -
  have pg: "cn_postgres c = (if \<not> PostgresEnabled cfg \<or> dr_Open pg (cf_PostgresDSN cfg) \<noteq> None then None
      else Some (cf_PostgresDSN cfg))"
    using assms(1)
    by (auto simp: open_databases_def NewPostgresDB_def PostgresEnabled_def split: sum.splits option.splits)
  show ?thesis
    by (auto simp: HandleHealthCheck_def service_Ping_eq assms(2) c_JSON_def encodable_def client_status_def pg Let_def)
qed

section \<open>Examples\<close>

definition demo_config_api :: config where
  "demo_config_api = \<lparr>cf_Port = 7300, cf_APIKey = ''secret'', cf_RateLimit = 100, cf_RateWindow = 60,
     cf_ReadTimeout = 5, cf_WriteTimeout = 10, cf_MaxBodySize = ''1M'', cf_MaxAddressLength = 500,
     cf_AddressDBPath = ''a.db'', cf_LocationDBPath = ''l.db'', cf_PostgresDSN = ''pg'', cf_DBMaxOpenConns = 10,
     cf_LocationSourceCode = ''x'', cf_LogLevel = ''info'', cf_AllowedOrigins = [], cf_EnableStoreRequest = True,
     cf_EnableMetrics = False, cf_GoogleMapsAPIMock = True, cf_GoogleMapsAPIKey = [],
     cf_GoogleMapsBaseURL = ''https://maps/''\<rparr>"

definition demo_drivers :: "driver \<times> driver" where
  "demo_drivers = (\<lparr>dr_Open = (\<lambda>_. None), dr_Ping = (\<lambda>_. None)\<rparr>,
     \<lparr>dr_Open = (\<lambda>_. None), dr_Ping = (\<lambda>_. Some ''refused'')\<rparr>)"

definition demo_connections :: connections where
  "demo_connections = \<lparr>cn_repo = sqliteDSN ''a.db'', cn_location = sqliteDSN ''l.db'', cn_postgres = Some ''pg''\<rparr>"

definition demo_server :: server where
  "demo_server = \<lparr>sv_config = demo_config_api, sv_connections = demo_connections,
     sv_service = new_service 500 ''x'' True, sv_queue = new_queue 1000 2, sv_geo = demo_geo, sv_spans = [], sv_log = []\<rparr>"

definition demo_http :: http_world where
  "demo_http = \<lparr>hw_env = demo_environment, hw_repo = demo_repository, hw_geo = demo_world, hw_uuid = ''u'',
     hw_lite = fst demo_drivers, hw_postgres = snd demo_drivers, hw_ReadAll = Some,
     hw_BindAddress = (\<lambda>b. Inr \<lparr>req_Address = b, req_SourceCode = []\<rparr>),
     hw_BindGeocode = (\<lambda>b. Inr \<lparr>gq_Address = b\<rparr>), hw_valid_JSON = (\<lambda>b. b = mockNotFoundResponse),
     hw_within_limit = (\<lambda>_ _. True), hw_admits = (\<lambda>_. True), hw_CORS = (\<lambda>_ _. None), hw_matches = (=),
     hw_unrouted = (\<lambda>_. (returned (HTTPError 404), [])), hw_library = (\<lambda>_. returned (HTTPError 404))\<rparr>"

definition demo_post :: "gostring \<Rightarrow> gostring \<Rightarrow> gostring \<Rightarrow> http_request" where
  "demo_post path secret body = \<lparr>hq_Method = ''POST'', hq_Path = path, hq_RemoteAddr = ''10.0.0.1:4711'',
     hq_APIKey = secret, hq_Body = body, hq_RequestID = None\<rparr>"

lemma demo_route:
  "find_route demo_http demo_config_api (demo_post ''/v1/validate'' secret body)
     = Some ((''POST'', ''/v1/validate''), api_group demo_config_api HandleAddressRequest)"
  "find_route demo_http demo_config_api (demo_post ''/v0/validate'' secret body)
     = Some ((''POST'', ''/v0/validate''), api_group demo_config_api HandleGeocodeRequest)"
  by (simp_all add: find_route_def Setup_def demo_http_def demo_config_api_def demo_post_def)

lemma demo_admitted:
  "admitted demo_http (sv_config demo_server) (demo_post ''/v1/validate'' ''secret'' body) ''/v1/validate'' HandleAddressRequest"
  "admitted demo_http (sv_config demo_server) (demo_post ''/v0/validate'' ''secret'' body) ''/v0/validate'' HandleGeocodeRequest"
  by (simp_all add: admitted_def demo_server_def demo_route)
    (simp_all add: demo_http_def demo_config_api_def demo_post_def)

theorem api_key_guard_witness:
  "client_status (fst (serve demo_http (demo_post ''/v1/validate'' ''guess'' ''Citarum'') demo_server)) = 401
   \<and> core (snd (serve demo_http (demo_post ''/v1/validate'' ''guess'' ''Citarum'') demo_server)) = core demo_server"
proof -
  let ?req = "demo_post ''/v1/validate'' ''guess'' ''Citarum''"
  have "cf_APIKey (sv_config demo_server) \<noteq> []" "hq_APIKey ?req \<noteq> cf_APIKey (sv_config demo_server)"
    by (simp_all add: demo_server_def demo_config_api_def demo_post_def)
  moreover have "hw_CORS demo_http (cf_AllowedOrigins (sv_config demo_server)) ?req = None"
    and "hw_within_limit demo_http (cf_MaxBodySize (sv_config demo_server)) (hq_Body ?req)"
    by (simp_all add: demo_http_def)
  moreover have "find_route demo_http (sv_config demo_server) ?req
      = Some ((''POST'', ''/v1/validate''), api_group demo_config_api HandleAddressRequest)"
    by (simp add: demo_server_def demo_route)
  ultimately show ?thesis using api_key_guard [of demo_server ?req demo_http] by simp
qed

theorem validate_statuses_witness:
  "answers (serve demo_http (demo_post ''/v1/validate'' ''secret'' []) demo_server) 400
     (error_body demo_http (''validation error'' @ [newline] @ ''address is required''))"
  using validate_statuses [OF demo_admitted(1), of "[]"]
  by (simp add: demo_http_def [THEN arg_cong [where f = hw_BindAddress]] demo_post_def AddressRequest_Validate_def
      joined_text_def Let_def)

theorem geocode_statuses_witness:
  "answers (serve demo_http (demo_post ''/v0/validate'' ''secret'' []) demo_server) 400
     (error_body demo_http ''address is required'')"
  using geocode_statuses [OF demo_admitted(2), of "[]"]
  by (simp add: demo_http_def [THEN arg_cong [where f = hw_BindGeocode]]
      demo_http_def [THEN arg_cong [where f = hw_ReadAll]] demo_post_def GeocodeRequest_Validate_def Let_def)

theorem rate_limit_buckets_witness:
  "KeyFunc (demo_post ''/v1/validate'' ''k1'' []) \<noteq> KeyFunc (demo_post ''/v1/validate'' ''k2'' [])"
  using rate_limit_buckets [of "demo_post ''/v1/validate'' ''k1'' []" "''10.0.0.1''" "''4711''"
      "demo_post ''/v1/validate'' ''k2'' []" "''10.0.0.1''" "''4711''"]
  by (simp add: demo_post_def)

theorem health_of_databases_witness:
  "client_status (fst (HandleHealthCheck demo_http (demo_post ''/health'' [] []) demo_server)) = 200"
proof -
  have "open_databases (fst demo_drivers) (fst demo_drivers) demo_config_api = Inr demo_connections"
    by (simp add: open_databases_def open_sqlite_def NewPostgresDB_def demo_drivers_def demo_config_api_def demo_connections_def Let_def)
  moreover have "sv_connections demo_server = demo_connections" by (simp add: demo_server_def)
  ultimately show ?thesis
    using health_of_databases [of "fst demo_drivers" "fst demo_drivers" demo_config_api demo_connections demo_server
        demo_http "demo_post ''/health'' [] []"]
    by (simp add: Let_def demo_http_def [THEN arg_cong [where f = hw_lite]] demo_drivers_def)
qed

end
