(* ===== verification/Spec2Isabelle.thy ===== *)
theory Spec2Isabelle
  imports Normalizer Score Evaluate_Laws Edit_Distance Dedup Evidence_Extraction Candidates
    Source_Caches Phrase_Match Resolve Fuzzy_Context Store_Queue Validate_Laws Store_Service Request_Store Postgres_Copy Http_Laws
begin

text \<open>
  Address validation against the Indonesian administrative regions: the Go program
  \<open>address-quality\<close>, its model and what was proved of it.

  \<^bold>\<open>The program.\<close> A request carries a free-text address. \<open>internal/service\<close> answers it in stages:
  the text is normalised, cut into pieces of evidence (words and a postal code), each piece is
  resolved to the regions it may name, the regions become candidate locations that are completed
  upwards through the hierarchy, words that nothing explains are matched approximately near the
  best candidates, and the candidates are checked for conflicts, scored, ranked and turned into a
  response. With storing switched on, the response is also queued as a record that workers write
  to the address database (\<open>internal/queue\<close>). A second service forwards addresses to the Google
  geocoder and caches its answers in the same database. The regions come from SQLite tables
  (\<open>internal/database\<close>) that the program \<open>cmd/seeder\<close> fills from two dumps and copies to Postgres.
  The service reads the tables once, into caches, and works on the caches afterwards. Around the
  services are the HTTP handlers, middlewares and routes, the configuration and the metrics.

  \<^bold>\<open>Which theory models what.\<close>
  \<^item> \<open>AQ_Prelude\<close>: the loops that all components share (keep the first of each key, append to a map
    of slices) and facts about them; \<open>Go_Strings\<close>: the functions of \<open>strings\<close>, \<open>regexp\<close> and \<open>fmt\<close>
    that the code calls; \<open>Go_Float\<close>: \<open>float64\<close> arithmetic; \<open>Go_Sort\<close>: what \<open>sort.Slice\<close> and
    \<open>sort.SliceStable\<close> promise.
  \<^item> \<open>Normalizer\<close>: \<open>internal/normalizer/normalizer.go\<close>.
  \<^item> \<open>Address_Model\<close>, \<open>Response_Model\<close>: the types and request checks of \<open>internal/model/model.go\<close>.
  \<^item> \<open>Evidence_Extraction\<close>: \<open>evidence.go\<close> and the postal code pattern.
  \<^item> \<open>Service_State\<close>: the struct \<open>Service\<close> of \<open>service.go\<close>; \<open>Source_Caches\<close>: the caches that
    \<open>validate_helper.go\<close> and \<open>resolve.go\<close> load once, with their sticky errors.
  \<^item> \<open>Phrase_Match\<close>: the phrase dictionaries and the two longest-match passes of
    \<open>validate_helper.go\<close>; \<open>Resolve\<close>: \<open>resolve.go\<close> with the city priority.
  \<^item> \<open>Candidates\<close>: \<open>builder.go\<close> and \<open>enrich.go\<close>; \<open>Dedup\<close>: \<open>dedup.go\<close>.
  \<^item> \<open>Edit_Distance\<close> and \<open>Fuzzy_Context\<close>: \<open>fuzzy_context.go\<close>.
  \<^item> \<open>Evaluate\<close>: \<open>evaluate.go\<close> and \<open>constant.go\<close>; \<open>Score\<close> and \<open>Evaluate_Laws\<close>: what they compute.
  \<^item> \<open>Validate_V1\<close>: \<open>validate_v1.go\<close> and the postal fallback, composed of all the above;
    \<open>Service_Invariant\<close> and \<open>Validate_Laws\<close>: what a request keeps and what it returns.
  \<^item> \<open>Store_Queue\<close>: \<open>queue.go\<close> as a step relation of senders, workers and a shutdown.
  \<^item> \<open>Location_Tables\<close>, \<open>Location_Store\<close>, \<open>Location_Rebuild\<close>: the tables, queries and writing
    operations of \<open>internal/database/location.go\<close>; \<open>Rebuild_Laws\<close> and \<open>Store_Progress\<close>: what they
    keep, when they fail and when they succeed.
  \<^item> \<open>Seeder\<close>: \<open>cmd/seeder/main.go\<close>; \<open>Seeder_Laws\<close>, \<open>Seeded_Tables\<close>: the tables it leaves.
  \<^item> \<open>Store_Service\<close>: the service on seeded tables, from the dump to an enriched candidate.
  \<^item> \<open>Sql_Text\<close>: \<open>dialect.go\<close> and the execution of schema scripts; \<open>Address_Db\<close>: \<open>database.go\<close> and
    \<open>google_maps.go\<close>; \<open>Request_Store\<close>: the queue's handler on that database.
  \<^item> \<open>Geocode\<close>: \<open>geocode.go\<close>.
  \<^item> \<open>Postgres_Copy\<close>: \<open>postgres_copy.go\<close> and \<open>syncPostgres\<close> of the seeder.
  \<^item> \<open>Server_Config\<close>: \<open>config.go\<close>, the opening of the databases and \<open>Ping\<close>; \<open>Telemetry\<close>: the labels
    of \<open>telemetry.go\<close>; \<open>Http_Service\<close>: \<open>internal/handler\<close>, \<open>internal/middleware\<close>, \<open>internal/router\<close>
    and the request middleware of \<open>logger.go\<close>; \<open>Http_Laws\<close>: what clients and metrics see.

  \<^bold>\<open>How state and operations correspond.\<close> A Go struct is a record with the fields of the code, a
  pointer that may be nil an option, a string enumeration a datatype, an \<open>int64\<close> a 64-bit word, a
  map a partial map, or an association list where it is ranged over. An operation on the service
  returns the changed service; \<open>sync.Once\<close> is a flag of the record. An error is the left side of a
  sum. A database operation is a function from the engine and the database to an outcome and the
  database: the engine decides for every statement whether it fails, and for the location tables
  also which identifiers new rows get, in which order a query answers and how many parameters a
  statement may have; a theorem about all engines covers a failure at every statement. A
  transaction that fails restores the tables. A handler is a function of the request and the
  server's state, a middleware a function from handlers to handlers.

  \<^bold>\<open>What the groups of lemmas show.\<close> For the pipeline: normal forms of the text; the exact and the
  compact phrase pass find what they should and nothing else; the edit distance is optimal over an
  inductive notion of edit scripts and its floating-point threshold is exact; the score equals the
  correctly rounded exact sum for every order in which the map of evidence is walked; the ranking is
  one by exact hundredths; deduplication, enrichment and conflicts; every response agrees with
  itself; a well-formed service stays so under every request. For the queue: no accepted record is
  lost, a shutdown terminates and drains, and then the table holds every record. For the tables:
  every run of the seeder keeps the schema, a failed rebuild changes nothing, rebuilds succeed
  within the parameter limit, a hierarchy that can be loaded is the prefix relation of the codes,
  a copy to Postgres is an exact snapshot or nothing. For the geocoder: each outcome and its
  effect, and that an answer once given never changes. For HTTP: the key guards the state, and each
  outcome has its status. Where the code does not do what it says, the lemma or definition is
  named in the findings of the manifest.

  \<^bold>\<open>Locales.\<close> \<open>go_sort\<close> (\<open>Go_Sort\<close>) is the contract of an unstable sort, which the environment of a
  request supplies; \<open>once_step\<close> and \<open>once_chain\<close> (\<open>Source_Caches\<close>) that of a cache that is
  loaded once and of a sequence of them, interpreted by the six loads; \<open>job_sink\<close>
  (\<open>Store_Queue\<close>) what a handler may expect of \<open>Submit\<close>; \<open>transactional\<close> (\<open>Location_Tables\<close>) that of an operation
  that happens entirely or not at all, interpreted by the operations of \<open>Location_Rebuild\<close>;
  \<open>answer_store\<close> (\<open>Address_Db\<close>) that of the geocoding cache.

  \<^bold>\<open>Bounds.\<close> Floats have 53 significant bits with ties to even; overflow, subnormal numbers and NaN
  do not occur at the sizes of the program's scores and are left out. The buffer of \<open>itoa\<close> has 20
  bytes, enough for every \<open>int64\<close>. Batches have at most 4000 rows, against SQLite's limit of
  32766 parameters. No definition uses fuel: loops are structural or have a measure.

  \<^bold>\<open>Decisions.\<close> Text is ASCII. Orders of map iterations are arguments, and the theorems hold for all of
  them. The HTML sanitizer, UUIDs, the clock, JSON, SHA-256, the network, the database engines, the
  configuration library and what the framework Echo decides (binding, size limit, CORS, route matching)
  are arguments. Error texts are kept, but for the numbers of batches. Requests
  run one after the other: the code guards the caches with \<open>sync.Once\<close> and the geocoder with a mutex; what
  runs concurrently in the model is the queue. Logging and the spans of the stages are left
  out of the pipeline.

  \<^bold>\<open>Not modelled.\<close> \<open>internal/sanitizer\<close> (it forwards to a package), \<open>docs/docs.go\<close> (generated), the
  adapter of \<open>internal/logger\<close> from one logging interface to another, the set-up of providers and
  instruments in \<open>internal/telemetry\<close> (calls of OpenTelemetry and Prometheus), and of
  \<open>cmd/server/main.go\<close> the goroutine of the HTTP server, the signals and the timeout of the
  shutdown: they consist of calls into packages outside the repository. Durations, timeouts and
  cancellation of contexts appear only as failures.
\<close>

end
